(* ===== verification/Prelude.thy ===== *)
theory Prelude
  imports Main "HOL-Library.Monad_Syntax"
begin

text \<open>
  Shared vocabulary of the development: the error values that stand for the ways in which the
  C++ code leaves the normal control flow, the size of \<^verbatim>\<open>size_t\<close>, free lists that are threaded
  through the unused slots of an array (used by \<^verbatim>\<open>slot_map\<close> and by \<^verbatim>\<open>SparseVector\<close>), and the
  interface of a container that hands out the key of an inserted value.
\<close>

named_theorems ir_simps \<open>rewrite rules of the expression layer\<close>
named_theorems ap_laws \<open>documented behaviour of the integer operations\<close>

section \<open>Failures\<close>

text \<open>
  \<^item> \<open>Assertion_Failure\<close>: \<^verbatim>\<open>CAFFEINE_ASSERT\<close> or \<^verbatim>\<open>assert\<close> fails and the process aborts;
  \<^item> \<open>Out_Of_Range\<close>: \<^verbatim>\<open>std::out_of_range\<close> or \<^verbatim>\<open>detail::throw_out_of_bounds\<close>;
  \<^item> \<open>Bad_Variant\<close>: \<^verbatim>\<open>std::bad_variant_access\<close>, thrown by \<^verbatim>\<open>std::get\<close>;
  \<^item> \<open>Undefined_Behaviour\<close>: the code performs an access the language gives no meaning to.
\<close>

datatype error = Assertion_Failure | Out_Of_Range | Bad_Variant | Undefined_Behaviour

type_synonym 'a result = "error + 'a"

definition bind_result :: "'a result \<Rightarrow> ('a \<Rightarrow> 'b result) \<Rightarrow> 'b result" where
  "bind_result m f = (case m of Inl e \<Rightarrow> Inl e | Inr x \<Rightarrow> f x)"

lemma bind_result_simps [simp]:
  "bind_result (Inl e) f = Inl e"
  "bind_result (Inr x) f = f x"
  by (simp_all add: bind_result_def)

lemma bind_result_Inr_iff:
  "bind_result m f = Inr y \<longleftrightarrow> (\<exists>x. m = Inr x \<and> f x = Inr y)"
  by (cases m) auto

text \<open>\<^verbatim>\<open>CAFFEINE_ASSERT(cond)\<close> in code whose only failure is to abort: \<open>None\<close> is the abort.\<close>

definition ensure :: "bool \<Rightarrow> unit option" where
  "ensure b = (if b then Some () else None)"

lemma ensure_simps [simp]:
  "ensure True = Some ()"
  "ensure False = None"
  "ensure b = Some u \<longleftrightarrow> b"
  "ensure b = None \<longleftrightarrow> \<not> b"
  by (simp_all add: ensure_def)

section \<open>Calls that return\<close>

definition returns :: "'a option \<Rightarrow> ('a \<Rightarrow> bool) \<Rightarrow> bool" where
  "returns f P \<longleftrightarrow> (\<exists>y. f = Some y \<and> P y)"

lemma returns_Some [simp]: "returns (Some x) P \<longleftrightarrow> P x" and returns_None [simp]: "\<not> returns None P"
  by (simp_all add: returns_def)

lemma returns_bind: "returns f P \<Longrightarrow> (\<And>x. P x \<Longrightarrow> returns (g x) Q) \<Longrightarrow> returns (f \<bind> g) Q"
  by (auto simp: returns_def)

lemma returns_mono: "returns f P \<Longrightarrow> (\<And>x. P x \<Longrightarrow> Q x) \<Longrightarrow> returns f Q"
  by (auto simp: returns_def)

section \<open>Machine sizes\<close>

definition size_max :: nat where
  "size_max = 2 ^ 64 - 1"

abbreviation no_head :: nat where
  "no_head \<equiv> size_max"

lemma size_max_pos [simp]: "0 < size_max"
  by (simp add: size_max_def)

section \<open>Lists\<close>

lemma list_all_update: "list_all P xs \<Longrightarrow> P x \<Longrightarrow> list_all P (xs[i := x])"
  by (auto simp: list_all_iff dest!: set_update_subset_insert [THEN subsetD])

lemma filter_update_length:
  assumes "i < length xs"
  shows "length (filter P (xs[i := x])) + (if P (xs ! i) then 1 else 0)
     = length (filter P xs) + (if P x then 1 else 0)"
proof -
  have "filter P xs = filter P (take i xs @ xs ! i # drop (Suc i) xs)"
    using assms by (simp add: id_take_nth_drop [symmetric])
  then show ?thesis using assms by (simp add: upd_conv_take_nth_drop)
qed

section \<open>Bit fields\<close>

lemma push_or_add:
  assumes "(m :: nat) < 2 ^ n"
  shows "or (push_bit n e) m = e * 2 ^ n + m"
proof -
  have "and (push_bit n e) m = 0"
  proof (rule bit_eqI)
    fix k
    have "bit m k \<Longrightarrow> k < n"
      using assms by (metis bit_take_bit_iff take_bit_nat_eq_self)
    then show "bit (and (push_bit n e) m) k \<longleftrightarrow> bit (0 :: nat) k"
      by (auto simp: bit_simps)
  qed
  then show ?thesis by (metis disjunctive_add_eq_or push_bit_eq_mult)
qed

lemma and_low_mask: "and (n :: nat) (2 ^ k - 1) = n mod 2 ^ k"
  using take_bit_eq_mask [of k n] by (simp add: mask_eq_exp_minus_1 take_bit_eq_mod)

section \<open>Positions in an array with unused slots\<close>

text \<open>
  \<open>skip_to P (drop i xs) i\<close> is the first position from \<open>i\<close> on whose element satisfies \<open>P\<close>, or the
  length of the array; \<open>iterate_pos\<close> lists the positions that a loop from \<open>i\<close> visits when it steps to
  the next such position each time.
\<close>

fun skip_to :: "('a \<Rightarrow> bool) \<Rightarrow> 'a list \<Rightarrow> nat \<Rightarrow> nat" where
  "skip_to P [] i = i"
| "skip_to P (x # xs) i = (if P x then i else skip_to P xs (Suc i))"

lemma skip_to_ge: "i \<le> skip_to P xs i"
  by (induction P xs i rule: skip_to.induct) auto

function iterate_pos :: "('a \<Rightarrow> bool) \<Rightarrow> 'a list \<Rightarrow> nat \<Rightarrow> nat list" where
  "iterate_pos P xs i =
     (if length xs \<le> i then [] else i # iterate_pos P xs (skip_to P (drop (Suc i) xs) (Suc i)))"
  by pat_completeness auto
termination
proof (relation "measure (\<lambda>(P, xs, i). length xs - i)")
  fix P :: "'a \<Rightarrow> bool" and xs :: "'a list" and i
  assume "\<not> length xs \<le> i"
  then show "((P, xs, skip_to P (drop (Suc i) xs) (Suc i)), P, xs, i) \<in> measure (\<lambda>(P, xs, i). length xs - i)"
    using skip_to_ge [of "Suc i" P "drop (Suc i) xs"] by simp
qed simp

declare iterate_pos.simps [simp del]

lemma skip_to_drop:
  "i \<le> length xs \<Longrightarrow> filter (\<lambda>j. P (xs ! j)) [i..<length xs] =
     (let j = skip_to P (drop i xs) i in
      if j < length xs then j # filter (\<lambda>j. P (xs ! j)) [Suc j..<length xs] else [])
   \<and> skip_to P (drop i xs) i \<le> length xs"
proof (induction "length xs - i" arbitrary: i)
  case 0
  then show ?case by simp
next
  case (Suc n)
  then have lt: "i < length xs" by simp
  have dr: "drop i xs = xs ! i # drop (Suc i) xs" using lt by (simp add: Cons_nth_drop_Suc)
  show ?case
  proof (cases "P (xs ! i)")
    case True
    then show ?thesis using lt dr by (simp add: upt_conv_Cons)
  next
    case False
    have "n = length xs - Suc i" "Suc i \<le> length xs" using Suc.hyps(2) by simp_all
    from Suc.hyps(1) [OF this] False show ?thesis
      using lt dr by (auto simp: upt_conv_Cons Let_def)
  qed
qed

lemma iterate_pos_skip:
  "i \<le> length xs \<Longrightarrow> iterate_pos P xs (skip_to P (drop i xs) i) = filter (\<lambda>j. P (xs ! j)) [i..<length xs]"
proof (induction "length xs - i" arbitrary: i rule: less_induct)
  case less
  let ?j = "skip_to P (drop i xs) i"
  note sk = skip_to_drop [OF less.prems, of P]
  show ?case
  proof (cases "?j < length xs")
    case True
    then have "length xs - Suc ?j < length xs - i" "Suc ?j \<le> length xs"
      using skip_to_ge [of i P "drop i xs"] by linarith+
    from less.hyps [OF this] show ?thesis
      using sk True by (subst iterate_pos.simps) (simp add: Let_def)
  next
    case False
    then show ?thesis using sk by (subst iterate_pos.simps) (simp add: Let_def)
  qed
qed

section \<open>Free lists\<close>

text \<open>
  \<open>nx i\<close> is the link stored in slot \<open>i\<close> when the slot is free and \<open>None\<close> otherwise. The free
  list that starts at \<open>h\<close> visits the slots \<open>xs\<close> in order and ends in the sentinel.
\<close>

fun chain :: "(nat \<rightharpoonup> nat) \<Rightarrow> nat \<Rightarrow> nat list \<Rightarrow> bool" where
  "chain nx h [] = (h = no_head)"
| "chain nx h (i # is) =
     (h = i \<and> i \<noteq> no_head \<and> (case nx i of None \<Rightarrow> False | Some n \<Rightarrow> chain nx n is))"

definition free_list :: "(nat \<rightharpoonup> nat) \<Rightarrow> nat \<Rightarrow> bool" where
  "free_list nx h \<longleftrightarrow> (\<exists>xs. chain nx h xs \<and> distinct xs \<and> set xs = dom nx)"

lemma chain_upd_other: "i \<notin> set xs \<Longrightarrow> chain (nx(i := u)) h xs = chain nx h xs"
  by (induction xs arbitrary: h) (auto split: option.splits)

lemma free_list_empty [intro, simp]: "free_list Map.empty no_head"
  unfolding free_list_def by (rule exI [of _ "[]"]) simp

lemma free_list_push:
  assumes "free_list nx h" and "nx i = None" and "i \<noteq> no_head"
  shows "free_list (nx(i \<mapsto> h)) i"
proof -
  obtain xs where xs: "chain nx h xs" "distinct xs" "set xs = dom nx"
    using assms(1) by (auto simp: free_list_def)
  then have "i \<notin> set xs" using assms(2) by auto
  then have "chain (nx(i \<mapsto> h)) i (i # xs) \<and> distinct (i # xs) \<and> set (i # xs) = dom (nx(i \<mapsto> h))"
    using xs assms(3) by (auto simp: chain_upd_other)
  then show ?thesis unfolding free_list_def by blast
qed

lemma free_list_pop:
  assumes "free_list nx h" and "h \<noteq> no_head"
  shows "\<exists>n. nx h = Some n \<and> free_list (nx(h := None)) n"
proof -
  obtain xs where xs: "chain nx h xs" "distinct xs" "set xs = dom nx"
    using assms(1) by (auto simp: free_list_def)
  obtain ys where ys: "xs = h # ys" using xs(1) assms(2) by (cases xs) auto
  then obtain n where n: "nx h = Some n" "chain nx n ys" using xs(1) by (auto split: option.splits)
  have "chain (nx(h := None)) n ys" using n(2) xs(2) ys by (simp add: chain_upd_other)
  moreover have "set ys = dom (nx(h := None))" using xs(2,3) ys by auto
  ultimately have "free_list (nx(h := None)) n" using xs(2) ys by (auto simp: free_list_def)
  with n(1) show ?thesis by blast
qed

lemma free_list_no_head: "free_list nx no_head \<Longrightarrow> nx = Map.empty"
proof -
  assume "free_list nx no_head"
  then obtain xs where "chain nx no_head xs" "set xs = dom nx" by (auto simp: free_list_def)
  then have "dom nx = {}" by (cases xs) auto
  then show ?thesis by simp
qed

section \<open>Containers that choose their keys\<close>

text \<open>
  The contract of a container whose \<open>insert\<close> picks the key: as long as there is \<open>room\<close>, inserting
  succeeds, returns a key that was not in use and changes nothing else; deleting a key that is in
  use succeeds and changes nothing else.
\<close>

locale slot_store =
  fixes invar :: "'s \<Rightarrow> bool"
    and room :: "'s \<Rightarrow> bool"
    and view :: "'s \<Rightarrow> 'k \<rightharpoonup> 'v"
    and insert :: "'v \<Rightarrow> 's \<Rightarrow> ('s \<times> 'k) result"
    and delete :: "'k \<Rightarrow> 's \<Rightarrow> 's result"
  assumes insert_law: "invar s \<Longrightarrow> room s \<Longrightarrow>
      \<exists>s' k. insert v s = Inr (s', k) \<and> invar s' \<and> k \<notin> dom (view s) \<and> view s' = (view s)(k \<mapsto> v)"
    and delete_law: "invar s \<Longrightarrow> k \<in> dom (view s) \<Longrightarrow>
      \<exists>s'. delete k s = Inr s' \<and> invar s' \<and> view s' = (view s)(k := None)"
begin

lemma insert_keeps:
  assumes "invar s" "room s" "insert v s = Inr (s', k)"
  shows "invar s'" "k \<notin> dom (view s)" "view s' k = Some v" "\<And>j. j \<noteq> k \<Longrightarrow> view s' j = view s j"
  using insert_law [OF assms(1,2), of v] assms(3) by auto

lemma insert_delete:
  assumes "invar s" "room s" "insert v s = Inr (s', k)"
  shows "\<exists>t. delete k s' = Inr t \<and> invar t \<and> view t = view s"
proof -
  from insert_law [OF assms(1,2), of v] assms(3)
  have s': "invar s'" "k \<notin> dom (view s)" "view s' = (view s)(k \<mapsto> v)" by auto
  then obtain t where "delete k s' = Inr t" "invar t" "view t = (view s')(k := None)"
    using delete_law [of s' k] by auto
  moreover have "(view s')(k := None) = view s"
    using s'(2,3) by (auto simp: fun_eq_iff domIff)
  ultimately show ?thesis by auto
qed

lemma deleted_is_gone:
  assumes "invar s" "k \<in> dom (view s)" "delete k s = Inr s'"
  shows "invar s'" "view s' k = None" "\<And>j. j \<noteq> k \<Longrightarrow> view s' j = view s j"
  using delete_law [OF assms(1,2)] assms(3) by auto

end

end
