(* ===== verification/Slot_Map.thy ===== *)
theory Slot_Map
  imports Prelude
begin

text \<open>
  The generational container \<^verbatim>\<open>slot_map\<close> (include/caffeine/ADT/SlotMap.h): entries with a
  generation counter, a free list threaded through the empty entries, keys that pair an index with
  the generation seen at insertion, and the iterators.
\<close>

section \<open>Data\<close>

text \<open>The union of \<^verbatim>\<open>entry_inner\<close>, and the entry itself. \<open>gen\<close> is a bit field of 63 bits.\<close>

datatype 'a slot_union = Storage 'a | Next nat

record 'a entry =
  slot_union :: "'a slot_union"
  has_value :: bool
  gen :: nat

record 'a slot_map =
  entries :: "'a entry list"
  head :: nat

type_synonym key_type = "nat \<times> nat"

definition gen_max :: nat where
  "gen_max = 2 ^ 63"

definition entry_new :: "nat \<Rightarrow> 'a entry" where
  "entry_new nxt = \<lparr>slot_union = Next nxt, has_value = False, gen = 0\<rparr>"

text \<open>\<^verbatim>\<open>*entry.value()\<close> and \<^verbatim>\<open>entry.next\<close>: reading the inactive member is undefined.\<close>

definition entry_value :: "'a entry \<Rightarrow> 'a result" where
  "entry_value e = (case slot_union e of Storage v \<Rightarrow> Inr v | Next _ \<Rightarrow> Inl Undefined_Behaviour)"

definition entry_next :: "'a entry \<Rightarrow> nat result" where
  "entry_next e = (case slot_union e of Next n \<Rightarrow> Inr n | Storage _ \<Rightarrow> Inl Undefined_Behaviour)"

definition entry_copy :: "'a entry \<Rightarrow> 'a entry result" where
  "entry_copy e =
     (if has_value e
      then bind_result (entry_value e) (\<lambda>v. Inr \<lparr>slot_union = Storage v, has_value = True, gen = gen e\<rparr>)
      else bind_result (entry_next e) (\<lambda>n. Inr \<lparr>slot_union = Next n, has_value = False, gen = gen e\<rparr>))"

definition entry_emplace :: "'a \<Rightarrow> 'a entry \<Rightarrow> 'a entry" where
  "entry_emplace v e = e\<lparr>slot_union := Storage v, has_value := True\<rparr>"

definition entry_remove :: "nat \<Rightarrow> 'a entry \<Rightarrow> 'a entry result" where
  "entry_remove nxt e =
     (if has_value e
      then Inr \<lparr>slot_union = Next nxt, has_value = False, gen = (gen e + 1) mod gen_max\<rparr>
      else Inl Assertion_Failure)"

section \<open>Operations\<close>

definition slot_map_empty :: "'a slot_map" where
  "slot_map_empty = \<lparr>entries = [], head = no_head\<rparr>"

definition pack_key :: "nat \<Rightarrow> nat \<Rightarrow> key_type" where
  "pack_key index g = (index, g)"

definition unpack_key :: "key_type \<Rightarrow> nat \<times> nat" where
  "unpack_key key = key"

text \<open>\<^verbatim>\<open>at\<close>: \<^verbatim>\<open>entries_.at\<close> and a stale or empty slot both throw \<^verbatim>\<open>std::out_of_range\<close>.\<close>

definition at :: "key_type \<Rightarrow> 'a slot_map \<Rightarrow> 'a result" where
  "at key m =
     (let (index, g) = unpack_key key in
      if length (entries m) \<le> index then Inl Out_Of_Range
      else let e = entries m ! index in
        if gen e \<noteq> g \<or> \<not> has_value e then Inl Out_Of_Range else entry_value e)"

text \<open>\<^verbatim>\<open>operator[]\<close>: the index is not checked and the generation only by \<^verbatim>\<open>assert\<close>.\<close>

definition index_op :: "key_type \<Rightarrow> 'a slot_map \<Rightarrow> 'a result" where
  "index_op key m =
     (let (index, g) = unpack_key key in
      if length (entries m) \<le> index then Inl Undefined_Behaviour
      else let e = entries m ! index in
        if gen e \<noteq> g then Inl Assertion_Failure else entry_value e)"

definition slot_map_clear :: "'a slot_map \<Rightarrow> 'a slot_map" where
  "slot_map_clear m = m\<lparr>entries := [], head := no_head\<rparr>"

definition next_slot :: "'a slot_map \<Rightarrow> ('a slot_map \<times> nat) result" where
  "next_slot m =
     (if head m = no_head
      then Inr (m\<lparr>entries := entries m @ [entry_new no_head]\<rparr>, length (entries m))
      else if length (entries m) \<le> head m then Inl Undefined_Behaviour
      else let e = entries m ! head m in
        if has_value e then Inl Assertion_Failure
        else bind_result (entry_next e) (\<lambda>n. Inr (m\<lparr>head := n\<rparr>, head m)))"

definition emplace :: "'a \<Rightarrow> 'a slot_map \<Rightarrow> ('a slot_map \<times> key_type) result" where
  "emplace v m =
     bind_result (next_slot m) (\<lambda>(m', index).
       let e = entry_emplace v (entries m' ! index)
       in Inr (m'\<lparr>entries := (entries m')[index := e]\<rparr>, pack_key index (gen e)))"

text \<open>\<^verbatim>\<open>emplace\<close> when the constructor of the value throws: the slot goes back to the free list.\<close>

definition emplace_throw :: "'a slot_map \<Rightarrow> 'a slot_map result" where
  "emplace_throw m =
     bind_result (next_slot m) (\<lambda>(m', index).
       Inr (m'\<lparr>entries := (entries m')[index := (entries m' ! index)\<lparr>slot_union := Next (head m')\<rparr>],
               head := index\<rparr>))"

definition insert_slot :: "'a \<Rightarrow> 'a slot_map \<Rightarrow> ('a slot_map \<times> key_type) result" where
  "insert_slot v m = emplace v m"

text \<open>
  \<^verbatim>\<open>remove\<close> and \<^verbatim>\<open>find\<close> guard the index with \<^verbatim>\<open>index > entries_.size()\<close>; at \<^verbatim>\<open>index == size\<close>
  the element access that follows is out of bounds.
\<close>

definition remove_slot :: "key_type \<Rightarrow> 'a slot_map \<Rightarrow> ('a slot_map \<times> 'a option) result" where
  "remove_slot key m =
     (let (index, g) = unpack_key key in
      if length (entries m) < index then Inr (m, None)
      else if index = length (entries m) then Inl Undefined_Behaviour
      else let e = entries m ! index in
        if \<not> has_value e \<or> gen e \<noteq> g then Inr (m, None)
        else bind_result (entry_value e) (\<lambda>v.
          bind_result (entry_remove (head m) e) (\<lambda>e'.
            Inr (m\<lparr>entries := (entries m)[index := e'], head := index\<rparr>, Some v))))"

section \<open>Iterators\<close>

text \<open>\<^verbatim>\<open>while (index < size && !has_value) index += 1\<close>\<close>

definition iterator_new :: "'a slot_map \<Rightarrow> nat \<Rightarrow> nat" where
  "iterator_new m i = skip_to has_value (drop i (entries m)) i"

definition iter_begin :: "'a slot_map \<Rightarrow> nat" where
  "iter_begin m = iterator_new m 0"

definition iter_end :: "'a slot_map \<Rightarrow> nat" where
  "iter_end m = iterator_new m (length (entries m))"

definition iter_next :: "'a slot_map \<Rightarrow> nat \<Rightarrow> nat" where
  "iter_next m i = skip_to has_value (drop (Suc i) (entries m)) (Suc i)"

definition iter_key :: "'a slot_map \<Rightarrow> nat \<Rightarrow> key_type result" where
  "iter_key m i =
     (if i < length (entries m) then Inr (pack_key i (gen (entries m ! i))) else Inl Undefined_Behaviour)"

definition iter_deref :: "'a slot_map \<Rightarrow> nat \<Rightarrow> 'a result" where
  "iter_deref m i =
     (if i < length (entries m) then entry_value (entries m ! i) else Inl Undefined_Behaviour)"

text \<open>
  \<^verbatim>\<open>operator--\<close>: \<^verbatim>\<open>do index -= 1; while (entries_[index].has_value)\<close>. The loop leaves the array
  when it steps below index 0.
\<close>

fun iter_prev :: "'a slot_map \<Rightarrow> nat \<Rightarrow> nat result" where
  "iter_prev m 0 = Inl Undefined_Behaviour"
| "iter_prev m (Suc i) =
     (if length (entries m) \<le> i then Inl Undefined_Behaviour
      else if has_value (entries m ! i) then iter_prev m i else Inr i)"

definition find_slot :: "key_type \<Rightarrow> 'a slot_map \<Rightarrow> nat result" where
  "find_slot key m =
     (let (index, g) = unpack_key key in
      if length (entries m) < index then Inr (iter_end m)
      else if index = length (entries m) then Inl Undefined_Behaviour
      else let e = entries m ! index in
        if \<not> has_value e \<or> gen e \<noteq> g then Inr (iter_end m) else Inr (iterator_new m index))"

text \<open>The range-for loop \<^verbatim>\<open>for (it = begin(); it != end(); ++it)\<close>: the indices it visits.\<close>

definition iterate_from :: "'a slot_map \<Rightarrow> nat \<Rightarrow> nat list" where
  "iterate_from m i = iterate_pos has_value (entries m) i"

lemma iterate_from_step:
  "iterate_from m i = (if length (entries m) \<le> i then [] else i # iterate_from m (iter_next m i))"
  by (simp add: iterate_from_def iter_next_def iterate_pos.simps [of has_value "entries m" i])

definition slot_map_swap :: "'a slot_map \<times> 'a slot_map \<Rightarrow> 'a slot_map \<times> 'a slot_map" where
  "slot_map_swap p = (snd p, fst p)"

text \<open>Sequences of calls by a client, in order, stopping at the first failure.\<close>

datatype 'a slot_op = Insert 'a | Remove key_type

fun slot_run :: "'a slot_op list \<Rightarrow> 'a slot_map \<Rightarrow> 'a slot_map result" where
  "slot_run [] m = Inr m"
| "slot_run (Insert v # ops) m = bind_result (insert_slot v m) (\<lambda>(m', _). slot_run ops m')"
| "slot_run (Remove k # ops) m = bind_result (remove_slot k m) (\<lambda>(m', _). slot_run ops m')"

section \<open>Invariant and view\<close>

definition links :: "'a entry list \<Rightarrow> nat \<rightharpoonup> nat" where
  "links es i = (if i < length es then (case slot_union (es ! i) of Next n \<Rightarrow> Some n | Storage _ \<Rightarrow> None) else None)"

definition entry_wf :: "'a entry \<Rightarrow> bool" where
  "entry_wf e \<longleftrightarrow> has_value e = (case slot_union e of Storage _ \<Rightarrow> True | Next _ \<Rightarrow> False) \<and> gen e < gen_max"

definition slot_wf :: "'a slot_map \<Rightarrow> bool" where
  "slot_wf m \<longleftrightarrow> free_list (links (entries m)) (head m) \<and> list_all entry_wf (entries m)
     \<and> length (entries m) \<le> no_head"

definition slot_room :: "'a slot_map \<Rightarrow> bool" where
  "slot_room m \<longleftrightarrow> head m \<noteq> no_head \<or> length (entries m) < no_head"

definition slot_view :: "'a slot_map \<Rightarrow> key_type \<rightharpoonup> 'a" where
  "slot_view m k =
     (if fst k < length (entries m) \<and> gen (entries m ! fst k) = snd k \<and> has_value (entries m ! fst k)
      then (case slot_union (entries m ! fst k) of Storage v \<Rightarrow> Some v | Next _ \<Rightarrow> None) else None)"

lemma gen_max_pos [simp]: "0 < gen_max"
  by (simp add: gen_max_def)

lemma entry_wf_nth: "list_all entry_wf es \<Longrightarrow> i < length es \<Longrightarrow> entry_wf (es ! i)"
  by (simp add: list_all_length)

lemma at_view: "slot_wf m \<Longrightarrow> at k m = (case slot_view m k of None \<Rightarrow> Inl Out_Of_Range | Some v \<Rightarrow> Inr v)"
  using entry_wf_nth [of "entries m" "fst k"]
  by (cases k) (auto simp: at_def slot_view_def unpack_key_def slot_wf_def entry_value_def entry_wf_def Let_def
      split: slot_union.splits)

lemma links_Nil [simp]: "links [] = Map.empty"
  by (simp add: links_def fun_eq_iff)

lemma slot_wf_empty [simp]: "slot_wf slot_map_empty"
  by (simp add: slot_wf_def slot_map_empty_def)

lemma links_append_storage: "slot_union e = Storage v \<Longrightarrow> links (es @ [e]) = links es"
  by (auto simp: links_def fun_eq_iff nth_append)

lemma links_update: "i < length es \<Longrightarrow> links (es[i := e]) =
    (links es)(i := (case slot_union e of Next n \<Rightarrow> Some n | Storage _ \<Rightarrow> None))"
  by (auto simp: links_def fun_eq_iff nth_list_update)

lemma links_dom: "i \<in> dom (links es) \<Longrightarrow> i < length es"
  by (auto simp: links_def split: if_splits)

lemma emplace_new:
  assumes "slot_wf m" "head m = no_head" "length (entries m) < no_head"
  shows "\<exists>m' k. emplace v m = Inr (m', k) \<and> slot_wf m' \<and> k \<notin> dom (slot_view m) \<and> slot_view m' = (slot_view m)(k \<mapsto> v)"
proof -
  let ?e = "\<lparr>slot_union = Storage v, has_value = True, gen = 0\<rparr>"
  let ?m = "m\<lparr>entries := entries m @ [?e]\<rparr>" and ?k = "(length (entries m), 0)"
  have em: "emplace v m = Inr (?m, ?k)"
    using assms(2) by (simp add: emplace_def next_slot_def entry_new_def entry_emplace_def pack_key_def)
  have wf: "slot_wf ?m"
    using assms by (auto simp: slot_wf_def entry_wf_def links_append_storage)
  have "slot_view ?m = (slot_view m)(?k \<mapsto> v)"
    by (auto simp: slot_view_def fun_eq_iff nth_append less_Suc_eq)
  moreover have "?k \<notin> dom (slot_view m)" by (auto simp: slot_view_def)
  ultimately show ?thesis using em wf by auto
qed

lemma emplace_reuse:
  assumes "slot_wf m" "head m \<noteq> no_head"
  shows "\<exists>m' k. emplace v m = Inr (m', k) \<and> slot_wf m' \<and> k \<notin> dom (slot_view m) \<and> slot_view m' = (slot_view m)(k \<mapsto> v)"
proof -
  let ?h = "head m" and ?es = "entries m"
  obtain n where n: "links ?es ?h = Some n" and fl: "free_list ((links ?es)(?h := None)) n"
    using free_list_pop assms by (auto simp: slot_wf_def)
  have lt: "?h < length ?es" using n by (intro links_dom) auto
  then have u: "slot_union (?es ! ?h) = Next n" using n by (auto simp: links_def split: slot_union.splits)
  have e: "entry_wf (?es ! ?h)" using assms(1) lt by (simp add: slot_wf_def entry_wf_nth)
  then have nv: "\<not> has_value (?es ! ?h)" by (simp add: entry_wf_def u)
  let ?e = "entry_emplace v (?es ! ?h)"
  let ?m = "m\<lparr>head := n, entries := ?es[?h := ?e]\<rparr>" and ?k = "(?h, gen (?es ! ?h))"
  have em: "emplace v m = Inr (?m, ?k)"
    using assms(2) lt nv u
    by (simp add: emplace_def next_slot_def entry_next_def entry_emplace_def pack_key_def Let_def)
  have "entry_wf ?e" using e by (simp add: entry_wf_def entry_emplace_def)
  then have "list_all entry_wf (?es[?h := ?e])"
    using assms(1) by (simp add: slot_wf_def list_all_update)
  then have wf: "slot_wf ?m"
    using assms(1) fl lt by (simp add: slot_wf_def links_update entry_emplace_def)
  have "slot_view ?m = (slot_view m)(?k \<mapsto> v)"
    using lt nv by (auto simp: slot_view_def fun_eq_iff nth_list_update entry_emplace_def)
  moreover have "?k \<notin> dom (slot_view m)" using nv by (auto simp: slot_view_def)
  ultimately show ?thesis using em wf by auto
qed

lemma remove_live:
  assumes "slot_wf m" "slot_view m k = Some v"
  shows "\<exists>m'. remove_slot k m = Inr (m', Some v) \<and> slot_wf m' \<and> slot_view m' = (slot_view m)(k := None)"
proof -
  obtain i g where k: "k = (i, g)" by (cases k)
  let ?es = "entries m"
  have lt: "i < length ?es" and g: "gen (?es ! i) = g" and hv: "has_value (?es ! i)"
    and u: "slot_union (?es ! i) = Storage v"
    using assms(2) by (auto simp: slot_view_def k split: if_splits slot_union.splits)
  let ?e = "\<lparr>slot_union = Next (head m), has_value = False, gen = (g + 1) mod gen_max\<rparr>"
  let ?m = "m\<lparr>entries := ?es[i := ?e], head := i\<rparr>"
  have rm: "remove_slot k m = Inr (?m, Some v)"
    using lt g hv u by (simp add: remove_slot_def k unpack_key_def entry_value_def entry_remove_def Let_def)
  have "links ?es i = None" using u lt by (simp add: links_def)
  moreover have "i \<noteq> no_head" using assms(1) lt by (simp add: slot_wf_def)
  ultimately have fl: "free_list ((links ?es)(i \<mapsto> head m)) i"
    using assms(1) by (intro free_list_push) (auto simp: slot_wf_def)
  have "list_all entry_wf (?es[i := ?e])"
    using assms(1) by (intro list_all_update) (auto simp: slot_wf_def entry_wf_def)
  then have "slot_wf ?m" using assms(1) fl lt by (simp add: slot_wf_def links_update)
  moreover have "slot_view ?m = (slot_view m)(k := None)"
    using lt g hv by (auto simp: slot_view_def k fun_eq_iff nth_list_update)
  ultimately show ?thesis using rm by auto
qed

definition delete_slot :: "key_type \<Rightarrow> 'a slot_map \<Rightarrow> 'a slot_map result" where
  "delete_slot k m = bind_result (remove_slot k m) (\<lambda>(m', _). Inr m')"

interpretation sm: slot_store slot_wf slot_room slot_view insert_slot delete_slot
proof
  fix m :: "'a slot_map" and v
  assume "slot_wf m" "slot_room m"
  then show "\<exists>m' k. insert_slot v m = Inr (m', k) \<and> slot_wf m' \<and> k \<notin> dom (slot_view m) \<and> slot_view m' = (slot_view m)(k \<mapsto> v)"
    unfolding insert_slot_def slot_room_def using emplace_new [of m v] emplace_reuse [of m v] by blast
next
  fix m :: "'a slot_map" and k
  assume "slot_wf m" "k \<in> dom (slot_view m)"
  then show "\<exists>m'. delete_slot k m = Inr m' \<and> slot_wf m' \<and> slot_view m' = (slot_view m)(k := None)"
    using remove_live [of m k] by (fastforce simp: delete_slot_def)
qed

section \<open>Insertion and removal through keys\<close>

lemma at_Inr_view: "slot_wf m \<Longrightarrow> at k m = Inr v \<longleftrightarrow> slot_view m k = Some v"
  by (simp add: at_view split: option.splits)

text \<open>
  C24: inserting into a well-formed slot map that has room succeeds; the returned key was invalid
  before, reads the inserted value afterwards, and every other key reads what it read before.
\<close>

theorem slot_map_insert:
  assumes "slot_wf m" and "slot_room m"
  shows "\<exists>m' k. insert_slot v m = Inr (m', k) \<and> slot_wf m' \<and> at k m = Inl Out_Of_Range
    \<and> at k m' = Inr v \<and> (\<forall>j. j \<noteq> k \<longrightarrow> at j m' = at j m)"
proof -
  obtain m' k where m': "insert_slot v m = Inr (m', k)" "slot_wf m'" "k \<notin> dom (slot_view m)"
    "slot_view m' = (slot_view m)(k \<mapsto> v)"
    using sm.insert_law [OF assms, of v] by auto
  then have "slot_view m k = None" by (simp add: domIff)
  then have "at k m = Inl Out_Of_Range" using assms(1) by (simp add: at_view)
  then show ?thesis using m' assms(1) by (intro exI [of _ m'] exI [of _ k]) (simp add: at_view)
qed

theorem slot_map_insert_witness:
  "slot_wf (slot_map_empty :: nat slot_map) \<and> slot_room (slot_map_empty :: nat slot_map)
   \<and> (\<exists>m' k. insert_slot (7 :: nat) slot_map_empty = Inr (m', k) \<and> at k m' = Inr 7)"
proof -
  have r: "slot_room (slot_map_empty :: nat slot_map)"
    by (simp add: slot_room_def slot_map_empty_def)
  show ?thesis using slot_map_insert [OF slot_wf_empty r, of 7] r slot_wf_empty by blast
qed


definition slot_map_one :: "nat slot_map" where
  "slot_map_one = \<lparr>entries = [\<lparr>slot_union = Storage 7, has_value = True, gen = 0\<rparr>], head = no_head\<rparr>"

lemma slot_wf_one: "slot_wf slot_map_one"
proof -
  have "links (entries slot_map_one) = Map.empty"
    by (simp add: links_def slot_map_one_def fun_eq_iff)
  then show ?thesis by (simp add: slot_wf_def slot_map_one_def entry_wf_def gen_max_def Suc_le_eq)
qed

lemma at_one: "at (0, 0) slot_map_one = Inr 7"
  by (simp add: at_def slot_map_one_def unpack_key_def entry_value_def)


section \<open>Generations\<close>

lemma insert_gen:
  assumes "insert_slot v m = Inr (m', k)" "i < length (entries m)"
  shows "i < length (entries m') \<and> gen (entries m' ! i) = gen (entries m ! i)"
  using assms
  by (auto simp: insert_slot_def emplace_def next_slot_def bind_result_Inr_iff entry_emplace_def Let_def
      nth_append nth_list_update split: if_splits)

lemma remove_gen:
  assumes "remove_slot k m = Inr (m', r)" "i < length (entries m)"
  shows "i < length (entries m') \<and> (gen (entries m' ! i) = gen (entries m ! i)
    \<or> gen (entries m' ! i) = (gen (entries m ! i) + 1) mod gen_max)"
  using assms
  by (auto simp: remove_slot_def bind_result_Inr_iff entry_remove_def Let_def nth_list_update
      split: if_splits prod.splits)

lemma step_gen:
  assumes "slot_run (a # ops) m = Inr m'" "i < length (entries m)"
  shows "\<exists>m1 d. slot_run ops m1 = Inr m' \<and> i < length (entries m1) \<and> d \<le> 1
    \<and> gen (entries m1 ! i) mod gen_max = (gen (entries m ! i) + d) mod gen_max"
proof (cases a)
  case (Insert v)
  then obtain m1 k where 1: "insert_slot v m = Inr (m1, k)" "slot_run ops m1 = Inr m'"
    using assms(1) by (auto simp: bind_result_Inr_iff)
  then show ?thesis using insert_gen [OF 1(1) assms(2)] by (intro exI [of _ m1] exI [of _ 0]) simp
next
  case (Remove k)
  then obtain m1 r where 1: "remove_slot k m = Inr (m1, r)" "slot_run ops m1 = Inr m'"
    using assms(1) by (auto simp: bind_result_Inr_iff)
  from remove_gen [OF 1(1) assms(2)] show ?thesis
  proof (elim conjE disjE)
    assume "i < length (entries m1)" "gen (entries m1 ! i) = gen (entries m ! i)"
    then show ?thesis using 1(2) by (intro exI [of _ m1] exI [of _ 0]) simp
  next
    assume "i < length (entries m1)" "gen (entries m1 ! i) = (gen (entries m ! i) + 1) mod gen_max"
    then show ?thesis using 1(2) by (intro exI [of _ m1] exI [of _ 1]) simp
  qed
qed

lemma run_gen:
  assumes "slot_run ops m = Inr m'" "i < length (entries m)"
  shows "i < length (entries m') \<and> (\<exists>d \<le> length ops.
    gen (entries m' ! i) mod gen_max = (gen (entries m ! i) + d) mod gen_max)"
  using assms
proof (induction ops arbitrary: m)
  case Nil
  then show ?case by simp
next
  case (Cons a ops)
  obtain m1 c where m1: "slot_run ops m1 = Inr m'" "i < length (entries m1)" and c: "c \<le> 1"
    "gen (entries m1 ! i) mod gen_max = (gen (entries m ! i) + c) mod gen_max"
    using step_gen [OF Cons.prems] by blast
  obtain d where d: "d \<le> length ops" "i < length (entries m')"
    "gen (entries m' ! i) mod gen_max = (gen (entries m1 ! i) + d) mod gen_max"
    using Cons.IH [OF m1] by blast
  have "(gen (entries m1 ! i) + d) mod gen_max = (gen (entries m ! i) + (c + d)) mod gen_max"
    using c(2) by (metis add.assoc mod_add_left_eq)
  then show ?case using d c(1) by (intro conjI exI [of _ "c + d"]) simp_all
qed

text \<open>
  C25: a key that has been removed stays invalid for any sequence of fewer than \<open>2 ^ 63 - 1\<close>
  later insertions and removals, also when its slot is reused.
\<close>

theorem removed_key_stays_dead:
  assumes "slot_wf m" and "remove_slot k m = Inr (m1, Some v)" and "slot_run ops m1 = Inr m2"
    and "length ops < gen_max - 1"
  shows "at k m2 = Inl Out_Of_Range"
proof -
  obtain i g where k: "k = (i, g)" by (cases k)
  let ?e = "entries m ! i"
  have lt: "i < length (entries m)" and g: "gen ?e = g" and m1: "i < length (entries m1)"
    and g1: "gen (entries m1 ! i) = (g + 1) mod gen_max"
    using assms(2) by (auto simp: remove_slot_def k unpack_key_def bind_result_Inr_iff entry_remove_def Let_def
        split: if_splits)
  have gm: "g < gen_max" using assms(1) lt g by (auto simp: slot_wf_def entry_wf_def list_all_length)
  obtain d where d: "d \<le> length ops" "i < length (entries m2)"
    "gen (entries m2 ! i) mod gen_max = (gen (entries m1 ! i) + d) mod gen_max"
    using run_gen [OF assms(3) m1] by auto
  have "(gen (entries m1 ! i) + d) mod gen_max = (g + Suc d) mod gen_max"
    by (simp add: g1 mod_simps)
  also have "\<dots> \<noteq> g"
  proof
    assume eq: "(g + Suc d) mod gen_max = g"
    show False
    proof (cases "g + Suc d < gen_max")
      case True
      then show False using eq by simp
    next
      case False
      have "(g + Suc d) mod gen_max = g + Suc d - gen_max"
        using False gm d(1) assms(4) by (simp add: mod_if)
      then show False using eq False d(1) assms(4) gm by linarith
    qed
  qed
  finally have "gen (entries m2 ! i) \<noteq> g" using d(3) gm by auto
  then show ?thesis using d(2) by (simp add: at_def k unpack_key_def Let_def)
qed

theorem removed_key_stays_dead_witness:
  "\<exists>m1 m2. remove_slot (0, 0) slot_map_one = Inr (m1, Some 7) \<and> slot_run [Insert 9] m1 = Inr m2
     \<and> at (0, 1) m2 = Inr 9 \<and> at (0, 0) m2 = Inl Out_Of_Range"
proof -
  let ?m1 = "\<lparr>entries = [\<lparr>slot_union = Next no_head, has_value = False, gen = 1\<rparr>], head = 0\<rparr> :: nat slot_map"
  let ?m2 = "\<lparr>entries = [\<lparr>slot_union = Storage 9, has_value = True, gen = 1\<rparr>], head = no_head\<rparr> :: nat slot_map"
  have 1: "remove_slot (0, 0) slot_map_one = Inr (?m1, Some 7)"
    by (simp add: remove_slot_def slot_map_one_def unpack_key_def entry_value_def entry_remove_def gen_max_def)
  have 2: "slot_run [Insert 9] ?m1 = Inr ?m2"
    by (simp add: insert_slot_def emplace_def next_slot_def entry_next_def entry_emplace_def pack_key_def Let_def)
  have 3: "at (0, 1) ?m2 = Inr 9"
    by (simp add: at_def unpack_key_def entry_value_def)
  have "length [Insert (9 :: nat)] < gen_max - 1" by (simp add: gen_max_def)
  from removed_key_stays_dead [OF slot_wf_one 1 2 this] 1 2 3 show ?thesis by blast
qed

section \<open>Iteration\<close>

text \<open>
  The loop from \<^verbatim>\<open>begin()\<close> with \<^verbatim>\<open>++\<close> visits exactly the slots that hold a value, each once
  and in increasing order, and every key it reports is a key that reads a value.
\<close>

theorem iteration_visits_live_slots:
  assumes "slot_wf m"
  shows "iterate_from m (iter_begin m) = filter (\<lambda>i. has_value (entries m ! i)) [0..<length (entries m)]
    \<and> (\<forall>i \<in> set (iterate_from m (iter_begin m)). \<exists>k v. iter_key m i = Inr k \<and> iter_deref m i = Inr v \<and> at k m = Inr v)"
proof -
  have it: "iterate_from m (iter_begin m) = filter (\<lambda>i. has_value (entries m ! i)) [0..<length (entries m)]"
    using iterate_pos_skip [of 0 "entries m" has_value]
    by (simp add: iterate_from_def iter_begin_def iterator_new_def)
  have "\<exists>k v. iter_key m i = Inr k \<and> iter_deref m i = Inr v \<and> at k m = Inr v"
    if "i < length (entries m)" "has_value (entries m ! i)" for i
    using that entry_wf_nth [of "entries m" i] assms
    by (auto simp: iter_key_def iter_deref_def at_def pack_key_def unpack_key_def entry_value_def slot_wf_def
        entry_wf_def split: slot_union.splits)
  then show ?thesis by (auto simp: it)
qed

theorem iteration_visits_live_slots_witness:
  "slot_wf slot_map_one \<and> iterate_from slot_map_one (iter_begin slot_map_one) = [0]"
  using iteration_visits_live_slots [OF slot_wf_one] slot_wf_one by (simp add: slot_map_one_def)

text \<open>
  \<^verbatim>\<open>operator--\<close> never stops on a slot that holds a value: its loop condition is the opposite of
  the one of \<^verbatim>\<open>operator++\<close>, so a decremented iterator cannot be dereferenced.
\<close>

theorem decrement_skips_live_slots:
  assumes "iter_prev m i = Inr j"
  shows "j < i \<and> \<not> has_value (entries m ! j)"
  using assms
proof (induction m i rule: iter_prev.induct)
  case (1 m)
  then show ?case by simp
next
  case (2 m i)
  then show ?case by (auto split: if_splits intro: less_SucI)
qed

theorem decrement_skips_live_slots_witness:
  "iter_prev (\<lparr>entries = [\<lparr>slot_union = Next no_head, has_value = False, gen = 1\<rparr>,
      \<lparr>slot_union = Storage 3, has_value = True, gen = 0\<rparr>], head = 0\<rparr> :: nat slot_map) 2 = Inr 0
   \<and> \<not> has_value ([\<lparr>slot_union = Next no_head, has_value = False, gen = 1\<rparr>,
      \<lparr>slot_union = Storage 3, has_value = True, gen = 0\<rparr>] ! 0 :: nat entry)"
proof -
  let ?m = "\<lparr>entries = [\<lparr>slot_union = Next no_head, has_value = False, gen = 1\<rparr>,
      \<lparr>slot_union = Storage 3, has_value = True, gen = 0\<rparr>], head = 0\<rparr> :: nat slot_map"
  have "iter_prev ?m 2 = Inr 0" by (simp add: numeral_2_eq_2)
  with decrement_skips_live_slots [OF this] show ?thesis by simp
qed


end
