(* ===== verification/Sparse_Vector.thy ===== *)
theory Sparse_Vector
  imports Prelude
begin

text \<open>
  The vector with holes \<^verbatim>\<open>SparseVector\<close> (include/caffeine/ADT/SparseVector.h): a vector of variants,
  the number of values, a free list through the erased slots, and iterators that skip holes.
\<close>

section \<open>Data and operations\<close>

datatype 'a elem = Index nat | Value 'a

record 'a sparse_vector =
  elements :: "'a elem list"
  size_of :: nat
  sv_head :: nat

definition is_value :: "'a elem \<Rightarrow> bool" where
  "is_value e = (case e of Value _ \<Rightarrow> True | Index _ \<Rightarrow> False)"

definition sv_empty :: "'a sparse_vector" where
  "sv_empty = \<lparr>elements = [], size_of = 0, sv_head = no_head\<rparr>"

definition sv_from_list :: "'a list \<Rightarrow> 'a sparse_vector" where
  "sv_from_list values = \<lparr>elements = map Value values, size_of = length values, sv_head = no_head\<rparr>"

definition backing_size :: "'a sparse_vector \<Rightarrow> nat" where
  "backing_size v = length (elements v)"

definition sv_is_empty :: "'a sparse_vector \<Rightarrow> bool" where
  "sv_is_empty v \<longleftrightarrow> size_of v = 0"

text \<open>\<^verbatim>\<open>operator[]\<close>: bounds check, then \<^verbatim>\<open>std::get<T>\<close>.\<close>

definition sv_get :: "'a sparse_vector \<Rightarrow> nat \<Rightarrow> 'a result" where
  "sv_get v idx =
     (if backing_size v \<le> idx then Inl Out_Of_Range
      else case elements v ! idx of Value x \<Rightarrow> Inr x | Index _ \<Rightarrow> Inl Bad_Variant)"

text \<open>Assignment through the reference that \<^verbatim>\<open>operator[]\<close> returns.\<close>

definition sv_set :: "'a sparse_vector \<Rightarrow> nat \<Rightarrow> 'a \<Rightarrow> 'a sparse_vector result" where
  "sv_set v idx x =
     bind_result (sv_get v idx) (\<lambda>_. Inr (v\<lparr>elements := (elements v)[idx := Value x]\<rparr>))"

definition emplace_back :: "'a \<Rightarrow> 'a sparse_vector \<Rightarrow> 'a sparse_vector \<times> nat" where
  "emplace_back x v =
     (v\<lparr>elements := elements v @ [Value x], size_of := size_of v + 1\<rparr>, length (elements v))"

definition alloc_slot :: "'a sparse_vector \<Rightarrow> ('a sparse_vector \<times> nat) result" where
  "alloc_slot v =
     (if sv_head v = no_head
      then Inr (v\<lparr>elements := elements v @ [Index no_head]\<rparr>, length (elements v))
      else let idx = sv_head v in
        if length (elements v) \<le> idx then Inl Undefined_Behaviour
        else case elements v ! idx of
          Value _ \<Rightarrow> Inl Assertion_Failure
        | Index n \<Rightarrow> Inr (v\<lparr>sv_head := n\<rparr>, idx))"

definition sv_emplace :: "'a \<Rightarrow> 'a sparse_vector \<Rightarrow> ('a sparse_vector \<times> nat) result" where
  "sv_emplace x v =
     bind_result (alloc_slot v) (\<lambda>(v', index).
       Inr (v'\<lparr>elements := (elements v')[index := Value x], size_of := size_of v' + 1\<rparr>, index))"

definition sv_erase :: "nat \<Rightarrow> 'a sparse_vector \<Rightarrow> 'a sparse_vector result" where
  "sv_erase idx v =
     (if \<not> idx < backing_size v then Inl Assertion_Failure
      else if \<not> is_value (elements v ! idx) then Inl Assertion_Failure
      else Inr (v\<lparr>elements := (elements v)[idx := Index (sv_head v)], sv_head := idx,
                  size_of := size_of v - 1\<rparr>))"

text \<open>
  \<^verbatim>\<open>compress\<close>: \<^verbatim>\<open>std::remove_if\<close> followed by \<^verbatim>\<open>erase\<close> keeps the values in their order.
\<close>

definition compress :: "'a sparse_vector \<Rightarrow> 'a sparse_vector" where
  "compress v =
     (if size_of v = backing_size v then v
      else let es = filter is_value (elements v)
        in v\<lparr>sv_head := no_head, elements := es, size_of := length es\<rparr>)"

definition sv_clear :: "'a sparse_vector \<Rightarrow> 'a sparse_vector" where
  "sv_clear v = v\<lparr>sv_head := no_head, size_of := 0, elements := []\<rparr>"

section \<open>Iterators\<close>

text \<open>An iterator is a position in the backing vector.\<close>

text \<open>\<^verbatim>\<open>do cur++; while (cur != end && cur->index() == Index)\<close>; incrementing the end is undefined.\<close>

definition sv_next :: "'a sparse_vector \<Rightarrow> nat \<Rightarrow> nat" where
  "sv_next v i = skip_to is_value (drop (Suc i) (elements v)) (Suc i)"

text \<open>\<^verbatim>\<open>do cur--; while (cur->index() == Index)\<close>\<close>

fun sv_prev :: "'a sparse_vector \<Rightarrow> nat \<Rightarrow> nat result" where
  "sv_prev v 0 = Inl Undefined_Behaviour"
| "sv_prev v (Suc i) =
     (if length (elements v) \<le> i then Inl Undefined_Behaviour
      else if is_value (elements v ! i) then Inr i else sv_prev v i)"

definition sv_begin :: "'a sparse_vector \<Rightarrow> nat" where
  "sv_begin v =
     (if elements v \<noteq> [] \<and> \<not> is_value (elements v ! 0) then sv_next v 0 else 0)"

definition sv_end :: "'a sparse_vector \<Rightarrow> nat" where
  "sv_end v = length (elements v)"

definition sv_valid :: "'a sparse_vector \<Rightarrow> nat \<Rightarrow> bool result" where
  "sv_valid v i = (if i < length (elements v) then Inr (is_value (elements v ! i)) else Inl Undefined_Behaviour)"

definition iterator_at :: "'a sparse_vector \<Rightarrow> nat \<Rightarrow> nat result" where
  "iterator_at v idx = (if backing_size v < idx then Inl Out_Of_Range else Inr idx)"

text \<open>The loop \<^verbatim>\<open>for (; it != end; ++it)\<close>: the positions visited from a given one.\<close>

definition sv_iterate :: "'a sparse_vector \<Rightarrow> nat \<Rightarrow> nat list" where
  "sv_iterate v i = iterate_pos is_value (elements v) i"

text \<open>\<^verbatim>\<open>erase(iterator start, iterator end)\<close>: the loop erases and then increments.\<close>

fun erase_all :: "nat list \<Rightarrow> 'a sparse_vector \<Rightarrow> 'a sparse_vector result" where
  "erase_all [] v = Inr v"
| "erase_all (i # is) v = bind_result (sv_erase i v) (erase_all is)"

section \<open>Invariant and view\<close>

definition holes :: "'a elem list \<Rightarrow> nat \<rightharpoonup> nat" where
  "holes es i = (if i < length es then (case es ! i of Index n \<Rightarrow> Some n | Value _ \<Rightarrow> None) else None)"

definition sv_wf :: "'a sparse_vector \<Rightarrow> bool" where
  "sv_wf v \<longleftrightarrow> free_list (holes (elements v)) (sv_head v) \<and> size_of v = length (filter is_value (elements v))
     \<and> length (elements v) \<le> no_head"

definition sv_room :: "'a sparse_vector \<Rightarrow> bool" where
  "sv_room v \<longleftrightarrow> sv_head v \<noteq> no_head \<or> length (elements v) < no_head"

definition sv_view :: "'a sparse_vector \<Rightarrow> nat \<rightharpoonup> 'a" where
  "sv_view v i = (if i < length (elements v)
     then (case elements v ! i of Value x \<Rightarrow> Some x | Index _ \<Rightarrow> None) else None)"

definition sv_list :: "'a sparse_vector \<Rightarrow> 'a list" where
  "sv_list v = List.map_filter (\<lambda>e. case e of Value x \<Rightarrow> Some x | Index _ \<Rightarrow> None) (elements v)"

lemma holes_Nil [simp]: "holes [] = Map.empty"
  by (simp add: holes_def fun_eq_iff)

lemma holes_append_Value: "holes (es @ [Value x]) = holes es"
  by (auto simp: holes_def fun_eq_iff nth_append)

lemma holes_update: "i < length es \<Longrightarrow>
    holes (es[i := e]) = (holes es)(i := (case e of Index n \<Rightarrow> Some n | Value _ \<Rightarrow> None))"
  by (auto simp: holes_def fun_eq_iff nth_list_update)

lemma holes_dom: "i \<in> dom (holes es) \<Longrightarrow> i < length es"
  by (auto simp: holes_def split: if_splits)

lemma is_value_simps [simp]: "is_value (Value x)" "\<not> is_value (Index n)"
  by (simp_all add: is_value_def)

lemma is_value_iff: "is_value e \<longleftrightarrow> (\<exists>x. e = Value x)"
  by (cases e) simp_all

lemma sv_wf_empty [simp]: "sv_wf sv_empty"
  by (simp add: sv_wf_def sv_empty_def)

lemma sv_get_view: "sv_get v i = (case sv_view v i of
    Some x \<Rightarrow> Inr x
  | None \<Rightarrow> Inl (if backing_size v \<le> i then Out_Of_Range else Bad_Variant))"
  by (auto simp: sv_get_def sv_view_def backing_size_def split: elem.splits)

lemma sv_view_Some: "sv_view v i = Some x \<longleftrightarrow> i < length (elements v) \<and> elements v ! i = Value x"
  by (auto simp: sv_view_def split: elem.splits)

lemma emplace_back_ok:
  assumes "sv_wf v" "length (elements v) < no_head"
  shows "\<exists>v'. emplace_back x v = (v', length (elements v)) \<and> sv_wf v' \<and> sv_view v' = (sv_view v)(length (elements v) \<mapsto> x)"
  using assms by (auto simp: emplace_back_def sv_wf_def holes_append_Value sv_view_def fun_eq_iff nth_append)

lemma sv_emplace_ok:
  assumes "sv_wf v" "sv_room v"
  shows "\<exists>v' i. sv_emplace x v = Inr (v', i) \<and> sv_wf v' \<and> i \<notin> dom (sv_view v) \<and> sv_view v' = (sv_view v)(i \<mapsto> x)"
proof (cases "sv_head v = no_head")
  case True
  let ?v = "v\<lparr>elements := elements v @ [Value x], size_of := size_of v + 1\<rparr>"
  have "sv_emplace x v = Inr (?v, length (elements v))"
    using True by (simp add: sv_emplace_def alloc_slot_def)
  moreover have "sv_wf ?v" "sv_view ?v = (sv_view v)(length (elements v) \<mapsto> x)"
    using emplace_back_ok [OF assms(1), of x] assms(2) True by (auto simp: sv_room_def emplace_back_def)
  moreover have "length (elements v) \<notin> dom (sv_view v)" by (auto simp: sv_view_def)
  ultimately show ?thesis by blast
next
  case False
  let ?h = "sv_head v" and ?es = "elements v"
  obtain n where n: "holes ?es ?h = Some n" and fl: "free_list ((holes ?es)(?h := None)) n"
    using free_list_pop assms(1) False by (auto simp: sv_wf_def)
  have lt: "?h < length ?es" using n by (intro holes_dom) auto
  then have e: "?es ! ?h = Index n" using n by (auto simp: holes_def split: elem.splits)
  let ?v = "v\<lparr>sv_head := n, elements := ?es[?h := Value x], size_of := size_of v + 1\<rparr>"
  have "sv_emplace x v = Inr (?v, ?h)"
    using False lt e by (simp add: sv_emplace_def alloc_slot_def Let_def)
  moreover have "sv_wf ?v"
    using assms(1) fl lt e filter_update_length [OF lt, of is_value "Value x"]
    by (simp add: sv_wf_def holes_update)
  moreover have "sv_view ?v = (sv_view v)(?h \<mapsto> x)"
    using lt by (auto simp: sv_view_def fun_eq_iff nth_list_update)
  moreover have "?h \<notin> dom (sv_view v)" using e by (simp add: sv_view_def domIff)
  ultimately show ?thesis by blast
qed

lemma sv_erase_ok:
  assumes "sv_wf v" "i \<in> dom (sv_view v)"
  shows "\<exists>v'. sv_erase i v = Inr v' \<and> sv_wf v' \<and> sv_view v' = (sv_view v)(i := None)"
proof -
  let ?es = "elements v"
  obtain x where lt: "i < length ?es" and e: "?es ! i = Value x"
    using assms(2) by (auto simp: sv_view_Some)
  let ?v = "v\<lparr>elements := ?es[i := Index (sv_head v)], sv_head := i, size_of := size_of v - 1\<rparr>"
  have "sv_erase i v = Inr ?v" using lt e by (simp add: sv_erase_def backing_size_def)
  moreover have "free_list ((holes ?es)(i \<mapsto> sv_head v)) i"
    using assms(1) lt e by (intro free_list_push) (auto simp: sv_wf_def holes_def)
  then have "sv_wf ?v"
    using assms(1) lt e filter_update_length [OF lt, of is_value "Index (sv_head v)"]
    by (simp add: sv_wf_def holes_update)
  moreover have "sv_view ?v = (sv_view v)(i := None)"
    using lt by (auto simp: sv_view_def fun_eq_iff nth_list_update)
  ultimately show ?thesis by blast
qed

interpretation sv: slot_store sv_wf sv_room sv_view sv_emplace sv_erase
  by unfold_locales (rule sv_emplace_ok sv_erase_ok; assumption)+

section \<open>Slots\<close>

text \<open>
  C27: \<^verbatim>\<open>emplace\<close> into a well-formed vector that has room succeeds, uses a slot that held no value,
  keeps every other slot readable as before, and erasing the new slot again restores every slot.
\<close>

theorem sparse_vector_emplace:
  assumes "sv_wf v" and "sv_room v"
  shows "\<exists>v' i. sv_emplace x v = Inr (v', i) \<and> sv_wf v' \<and> size_of v' = size_of v + 1
    \<and> sv_get v' i = Inr x \<and> (\<forall>j y. sv_get v j = Inr y \<longrightarrow> j \<noteq> i \<and> sv_get v' j = Inr y)
    \<and> (\<exists>t. sv_erase i v' = Inr t \<and> sv_wf t \<and> sv_view t = sv_view v)"
proof -
  obtain v' i where v': "sv_emplace x v = Inr (v', i)" "sv_wf v'" "i \<notin> dom (sv_view v)"
    "sv_view v' = (sv_view v)(i \<mapsto> x)"
    using sv.insert_law [OF assms, of x] by blast
  have "size_of v' = size_of v + 1"
    using v'(1) by (auto simp: sv_emplace_def alloc_slot_def bind_result_Inr_iff Let_def split: if_splits elem.splits)
  moreover have "sv_get v' i = Inr x" using v'(4) by (simp add: sv_get_view)
  moreover have "j \<noteq> i \<and> sv_get v' j = Inr y" if "sv_get v j = Inr y" for j y
  proof -
    have "sv_view v j = Some y" using that by (simp add: sv_get_view split: option.splits)
    then have "j \<noteq> i" "sv_view v' j = Some y" using v'(3,4) by auto
    then show ?thesis by (simp add: sv_get_view)
  qed
  moreover have "\<exists>t. sv_erase i v' = Inr t \<and> sv_wf t \<and> sv_view t = sv_view v"
    by (rule sv.insert_delete [OF assms v'(1)])
  ultimately show ?thesis using v'(1,2) by (intro exI [of _ v'] exI [of _ i]) simp
qed

lemma sv_room_empty: "sv_room sv_empty"
  by (simp add: sv_room_def sv_empty_def)

theorem sparse_vector_emplace_witness:
  "sv_wf (sv_empty :: nat sparse_vector) \<and> sv_room (sv_empty :: nat sparse_vector)
   \<and> (\<exists>v' i. sv_emplace (5 :: nat) sv_empty = Inr (v', i) \<and> sv_get v' i = Inr 5)"
  using sparse_vector_emplace [OF sv_wf_empty sv_room_empty, of "5 :: nat"] sv_room_empty sv_wf_empty by blast

section \<open>Iteration and compression\<close>

lemma sv_begin_skip: "sv_begin v = skip_to is_value (elements v) 0"
  by (cases "elements v") (simp_all add: sv_begin_def sv_next_def)

lemma value_slots:
  "map (sv_get v) (filter (\<lambda>i. is_value (elements v ! i)) [0..<length (elements v)]) = map Inr (sv_list v)"
proof -
  let ?es = "elements v" and ?f = "\<lambda>e. case e of Value x \<Rightarrow> Some x | Index _ \<Rightarrow> None"
  let ?g = "\<lambda>e. case e of Value x \<Rightarrow> Inr x | Index _ \<Rightarrow> Inl Bad_Variant"
  have "map (sv_get v) (filter (\<lambda>i. is_value (?es ! i)) [0..<length ?es])
      = map (\<lambda>i. ?g (?es ! i)) (filter (\<lambda>i. is_value (?es ! i)) [0..<length ?es])"
    by (rule map_cong) (auto simp: sv_get_def backing_size_def)
  also have "\<dots> = map ?g (filter is_value (map ((!) ?es) [0..<length ?es]))"
    by (simp add: filter_map o_def)
  also have "\<dots> = map ?g (filter is_value ?es)" by (simp add: map_nth)
  also have "\<dots> = map Inr (sv_list v)"
    unfolding sv_list_def List.map_filter_def
    by (simp, rule map_cong) (auto simp: is_value_def intro!: filter_cong split: elem.splits)
  finally show ?thesis .
qed

text \<open>
  The loop from \<^verbatim>\<open>begin()\<close> to \<^verbatim>\<open>end()\<close> skips every hole and reads the values of the vector in
  their order, also when the vector starts with a hole.
\<close>

theorem sparse_vector_iteration:
  "map (sv_get v) (sv_iterate v (sv_begin v)) = map Inr (sv_list v)"
  using iterate_pos_skip [of 0 "elements v" is_value]
  by (simp add: sv_iterate_def sv_begin_skip value_slots)

lemma sv_list_filter: "elements u = filter is_value (elements v) \<Longrightarrow> sv_list u = sv_list v"
  unfolding sv_list_def List.map_filter_def
  by (auto simp: is_value_def intro!: arg_cong [of _ _ "map _"] filter_cong split: elem.splits)

lemma holes_no_hole: "list_all is_value es \<Longrightarrow> holes es = Map.empty"
  by (auto simp: holes_def fun_eq_iff list_all_length is_value_def split: elem.splits)

text \<open>
  \<^verbatim>\<open>compress\<close> keeps the sequence of values and the invariant, and leaves no hole: afterwards
  the number of values is the length of the backing vector.
\<close>

theorem sparse_vector_compress:
  assumes "sv_wf v"
  shows "sv_wf (compress v) \<and> sv_list (compress v) = sv_list v \<and> size_of (compress v) = backing_size (compress v)
    \<and> size_of (compress v) = size_of v"
proof (cases "size_of v = backing_size v")
  case True
  then show ?thesis using assms by (simp add: compress_def)
next
  case False
  let ?es = "filter is_value (elements v)"
  have "list_all is_value ?es" by (simp add: list_all_iff)
  then have "holes ?es = Map.empty" by (rule holes_no_hole)
  moreover have "length ?es \<le> no_head"
    using assms by (intro order_trans [OF length_filter_le]) (simp add: sv_wf_def)
  ultimately have "sv_wf (compress v)"
    using assms False by (auto simp: sv_wf_def compress_def Let_def)
  then show ?thesis using assms False
    by (auto simp: compress_def Let_def backing_size_def sv_wf_def intro: sv_list_filter)
qed

theorem sparse_vector_compress_witness:
  "sv_wf (\<lparr>elements = [Index no_head, Value 4], size_of = 1, sv_head = 0\<rparr> :: nat sparse_vector)
   \<and> backing_size (compress (\<lparr>elements = [Index no_head, Value 4], size_of = 1, sv_head = 0\<rparr> :: nat sparse_vector)) = 1"
proof -
  let ?v = "\<lparr>elements = [Index no_head, Value 4], size_of = 1, sv_head = 0\<rparr> :: nat sparse_vector"
  have "holes (elements ?v) = [0 \<mapsto> no_head]"
    by (auto simp: holes_def fun_eq_iff nth_Cons split: nat.split)
  then have "free_list (holes (elements ?v)) 0"
    using free_list_push [of Map.empty no_head 0] by simp
  then have "sv_wf ?v" by (simp add: sv_wf_def size_max_def)
  with sparse_vector_compress [OF this] show ?thesis by simp
qed

end
