(* ===== verification/Union_Find.thy ===== *)
theory Union_Find
  imports Prelude
begin

text \<open>
  The disjoint-set forest \<^verbatim>\<open>UnionFind\<close> (include/caffeine/ADT/UnionFind.h): a vector of parents.
  Accesses go through \<^verbatim>\<open>std::vector::at\<close>. The loops run forever on a cyclic forest, which is the
  value \<open>None\<close> of the model.
\<close>

section \<open>Operations\<close>

definition make_set :: "nat list \<Rightarrow> nat list \<times> nat" where
  "make_set parents = (parents @ [length parents], length parents)"

definition parent :: "nat list \<Rightarrow> nat \<Rightarrow> nat result" where
  "parent parents query = (if query < length parents then Inr (parents ! query) else Inl Out_Of_Range)"

partial_function (option) find_const :: "nat list \<Rightarrow> nat \<Rightarrow> nat result option" where
  "find_const ps current =
     (case parent ps current of
        Inl e \<Rightarrow> Some (Inl e)
      | Inr p \<Rightarrow> if current = p then Some (Inr current) else find_const ps p)"

text \<open>\<^verbatim>\<open>update\<close>: follow the parents to the root and halve the path on the way.\<close>

partial_function (option) update :: "nat list \<Rightarrow> nat \<Rightarrow> (nat list \<times> nat) result option" where
  "update ps current =
     (case parent ps current of
        Inl e \<Rightarrow> Some (Inl e)
      | Inr p \<Rightarrow>
          if current = p then Some (Inr (ps, current))
          else (case parent ps p of
                  Inl e \<Rightarrow> Some (Inl e)
                | Inr gp \<Rightarrow> update (ps[current := gp]) gp))"

definition find_set :: "nat list \<Rightarrow> nat \<Rightarrow> (nat list \<times> nat) result option" where
  "find_set ps current = update ps current"

definition do_union :: "nat list \<Rightarrow> nat \<Rightarrow> nat \<Rightarrow> (nat list \<times> nat) result" where
  "do_union ps root1 root2 =
     bind_result (parent ps root2) (\<lambda>_. Inr (ps[root2 := root1], root1))"

section \<open>Representatives\<close>

text \<open>\<open>reaches ps i k r\<close>: the root \<open>r\<close> is \<open>k\<close> parent links above \<open>i\<close>.\<close>

inductive reaches :: "nat list \<Rightarrow> nat \<Rightarrow> nat \<Rightarrow> nat \<Rightarrow> bool" for ps where
  at_root: "i < length ps \<Longrightarrow> ps ! i = i \<Longrightarrow> reaches ps i 0 i"
| climb: "i < length ps \<Longrightarrow> ps ! i \<noteq> i \<Longrightarrow> reaches ps (ps ! i) k r \<Longrightarrow> reaches ps i (Suc k) r"

inductive_cases reaches_0E: "reaches ps i 0 r"
inductive_cases reaches_SucE: "reaches ps i (Suc k) r"

definition uf_root :: "nat list \<Rightarrow> nat \<Rightarrow> nat \<Rightarrow> bool" where
  "uf_root ps i r \<longleftrightarrow> (\<exists>k. reaches ps i k r)"

definition uf_wf :: "nat list \<Rightarrow> bool" where
  "uf_wf ps \<longleftrightarrow> (\<forall>i < length ps. \<exists>r. uf_root ps i r)"

definition same_set :: "nat list \<Rightarrow> nat \<Rightarrow> nat \<Rightarrow> bool" where
  "same_set ps i j \<longleftrightarrow> (\<exists>r. uf_root ps i r \<and> uf_root ps j r)"

lemma reaches_det: "reaches ps i k r \<Longrightarrow> reaches ps i k' r' \<Longrightarrow> k = k' \<and> r = r'"
proof (induction arbitrary: k' r' rule: reaches.induct)
  case (at_root i)
  from at_root.prems at_root.hyps show ?case by cases simp_all
next
  case (climb i k r)
  from climb.prems climb.hyps(2) obtain l where "k' = Suc l" "reaches ps (ps ! i) l r'" by cases simp_all
  with climb.IH show ?case by blast
qed

lemma reaches_less: "reaches ps i k r \<Longrightarrow> i < length ps"
  by (erule reaches.cases) simp_all

lemma reaches_is_root: "reaches ps i k r \<Longrightarrow> r < length ps \<and> ps ! r = r"
  by (induction rule: reaches.induct) auto

lemma uf_root_det: "uf_root ps i r \<Longrightarrow> uf_root ps i s \<Longrightarrow> r = s"
  using reaches_det by (auto simp: uf_root_def)

lemma uf_root_step: "i < length ps \<Longrightarrow> uf_root ps (ps ! i) r \<Longrightarrow> uf_root ps i r"
  by (cases "ps ! i = i") (auto simp: uf_root_def intro: climb)

lemma reaches_parent:
  assumes "reaches ps p k s"
  shows "\<exists>l \<le> k. reaches ps (ps ! p) l s"
  using assms
proof cases
  case at_root
  then show ?thesis using assms by auto
next
  case (climb l)
  then show ?thesis by (intro exI [of _ l]) simp
qed

text \<open>Pointing a node at its grandparent shortens paths and moves no representative.\<close>

lemma reaches_halve:
  assumes cur: "reaches ps cur n t" "ps ! cur \<noteq> cur"
  shows "reaches ps j m s \<Longrightarrow> \<exists>m' \<le> m. reaches (ps[cur := ps ! (ps ! cur)]) j m' s"
proof (induction m arbitrary: j rule: less_induct)
  case (less m)
  let ?p = "ps ! cur" and ?ps = "ps[cur := ps ! (ps ! cur)]"
  have lc: "cur < length ps" using cur(1) by (rule reaches_less)
  show ?case
  proof (cases "j = cur")
    case False
    from less.prems show ?thesis
    proof cases
      case at_root
      with False have "reaches ?ps j 0 j" by (intro reaches.at_root) simp_all
      with at_root show ?thesis by auto
    next
      case (climb k)
      then obtain k' where "k' \<le> k" "reaches ?ps (ps ! j) k' s" using less.IH by blast
      with climb False have "reaches ?ps j (Suc k') s" by (intro reaches.climb) simp_all
      with climb \<open>k' \<le> k\<close> show ?thesis by auto
    qed
  next
    case True
    then obtain k where k: "m = Suc k" "reaches ps ?p k s"
      using less.prems cur(2) by (auto elim: reaches.cases)
    obtain l where l: "l < m" "reaches ps (ps ! ?p) l s"
      using reaches_parent [OF k(2)] k(1) by (meson le_imp_less_Suc)
    then have ne: "ps ! ?p \<noteq> cur" using less.prems True reaches_det [of ps cur m s l s] by auto
    obtain l' where "l' \<le> l" "reaches ?ps (ps ! ?p) l' s" using less.IH l by blast
    moreover have "?ps ! cur = ps ! ?p" using lc by simp
    ultimately have "reaches ?ps cur (Suc l') s" using lc ne by (intro reaches.climb) simp_all
    then show ?thesis using True l \<open>l' \<le> l\<close> by (intro exI [of _ "Suc l'"]) simp
  qed
qed

lemma uf_root_halve:
  assumes "uf_wf ps" "cur < length ps" "ps ! cur \<noteq> cur"
  shows "uf_root (ps[cur := ps ! (ps ! cur)]) j s \<longleftrightarrow> uf_root ps j s"
proof -
  let ?ps = "ps[cur := ps ! (ps ! cur)]"
  obtain n t where n: "reaches ps cur n t" using assms(1,2) by (auto simp: uf_wf_def uf_root_def)
  have fwd: "uf_root ?ps j s" if "uf_root ps j s" for j s
    using reaches_halve [OF n assms(3)] that unfolding uf_root_def by blast
  show ?thesis
  proof
    assume a: "uf_root ?ps j s"
    then have "j < length ps" using reaches_less by (fastforce simp: uf_root_def)
    then obtain r where r: "uf_root ps j r" using assms(1) by (auto simp: uf_wf_def)
    then show "uf_root ps j s" using fwd [OF r] a uf_root_det by blast
  qed (rule fwd)
qed

lemma uf_wf_halve:
  assumes "uf_wf ps" "cur < length ps" "ps ! cur \<noteq> cur"
  shows "uf_wf (ps[cur := ps ! (ps ! cur)])"
  using assms uf_root_halve [OF assms] by (simp add: uf_wf_def)

lemma update_reaches:
  "uf_wf ps \<Longrightarrow> reaches ps cur k r \<Longrightarrow>
   \<exists>ps'. update ps cur = Some (Inr (ps', r)) \<and> length ps' = length ps \<and> uf_wf ps' \<and> (\<forall>j s. uf_root ps' j s \<longleftrightarrow> uf_root ps j s)"
proof (induction k arbitrary: ps cur rule: less_induct)
  case (less k)
  have lc: "cur < length ps" using less.prems(2) by (rule reaches_less)
  show ?case
  proof (cases "ps ! cur = cur")
    case True
    then have "r = cur" using less.prems(2) lc reaches.at_root reaches_det by blast
    then show ?thesis using True lc less.prems(1) by (simp add: update.simps [of ps cur] parent_def)
  next
    case False
    let ?p = "ps ! cur" and ?ps = "ps[cur := ps ! (ps ! cur)]"
    obtain l where l: "k = Suc l" "reaches ps ?p l r" using less.prems(2) False by (auto elim: reaches.cases)
    obtain l' where l': "l' \<le> l" "reaches ?ps (ps ! ?p) l' r"
      using reaches_parent [OF l(2)] reaches_halve [OF less.prems(2) False] by (meson order_trans)
    then have "l' < k" using l(1) by simp
    from less.IH [OF this uf_wf_halve [OF less.prems(1) lc False] l'(2)]
    obtain ps' where ps': "update ?ps (ps ! ?p) = Some (Inr (ps', r))" "length ps' = length ps" "uf_wf ps'"
      "\<forall>j s. uf_root ps' j s \<longleftrightarrow> uf_root ?ps j s" by auto
    have "?p < length ps" using l(2) by (rule reaches_less)
    then have "update ps cur = update ?ps (ps ! ?p)"
      using lc False by (simp add: update.simps [of ps cur] parent_def)
    then show ?thesis using ps' uf_root_halve [OF less.prems(1) lc False] by simp
  qed
qed

lemma find_const_reaches: "reaches ps i k r \<Longrightarrow> find_const ps i = Some (Inr r)"
proof (induction rule: reaches.induct)
  case (at_root i)
  then show ?case by (simp add: find_const.simps [of ps i] parent_def)
next
  case (climb i k r)
  then show ?case by (simp add: find_const.simps [of ps i] parent_def)
qed

text \<open>
  C23: on a forest without cycles both \<^verbatim>\<open>find\<close> methods return, they return the same
  representative, and the path halving of the non-const one changes no element's representative.
\<close>

theorem find_returns_representative:
  assumes "uf_wf ps" and "i < length ps"
  shows "\<exists>ps' r. find_set ps i = Some (Inr (ps', r)) \<and> find_const ps i = Some (Inr r) \<and> uf_root ps i r
    \<and> length ps' = length ps \<and> uf_wf ps' \<and> (\<forall>j s. uf_root ps' j s \<longleftrightarrow> uf_root ps j s)"
proof -
  obtain k r where r: "reaches ps i k r" using assms by (auto simp: uf_wf_def uf_root_def)
  obtain ps' where "update ps i = Some (Inr (ps', r))" "length ps' = length ps" "uf_wf ps'"
    "\<forall>j s. uf_root ps' j s \<longleftrightarrow> uf_root ps j s"
    using update_reaches [OF assms(1) r] by blast
  then show ?thesis using find_const_reaches [OF r] r
    by (intro exI [of _ ps'] exI [of _ r]) (auto simp: find_set_def uf_root_def)
qed

lemma uf_wf_chain: "uf_wf [0, 0, 1]"
proof -
  have 0: "reaches [0, 0, 1] 0 0 0" by (rule at_root) simp_all
  then have 1: "reaches [0, 0, 1] 1 1 0" using climb [of 1 "[0, 0, 1]" 0 0] by simp
  then have 2: "reaches [0, 0, 1] 2 2 0" using climb [of 2 "[0, 0, 1]" 1 0] by (simp add: numeral_2_eq_2)
  show ?thesis unfolding uf_wf_def uf_root_def using 0 1 2 by (auto simp: less_Suc_eq numeral_3_eq_3 numeral_2_eq_2)
qed

theorem find_returns_representative_witness:
  "uf_wf [0, 0, 1] \<and> find_const [0, 0, 1] 2 = Some (Inr 0)
   \<and> (\<exists>ps' r. find_set [0, 0, 1] 2 = Some (Inr (ps', r)) \<and> uf_root [0, 0, 1] 2 r)"
proof -
  have lt: "2 < length [0, 0, 1 :: nat]" by simp
  have "find_const [0, 0, 1] 2 = Some (Inr 0)" by (simp add: find_const.simps parent_def)
  then show ?thesis using find_returns_representative [OF uf_wf_chain lt] uf_wf_chain by blast
qed

section \<open>Union\<close>

lemma reaches_union:
  assumes "r1 < length ps" "r2 < length ps" "ps ! r1 = r1" "ps ! r2 = r2" "r1 \<noteq> r2"
  shows "reaches ps j m s \<Longrightarrow> \<exists>m'. reaches (ps[r2 := r1]) j m' (if s = r2 then r1 else s)"
proof (induction rule: reaches.induct)
  case (at_root i)
  have 1: "reaches (ps[r2 := r1]) r1 0 r1" using assms by (intro reaches.at_root) simp_all
  show ?case
  proof (cases "i = r2")
    case True
    then have "reaches (ps[r2 := r1]) i (Suc 0) r1" using 1 assms by (intro reaches.climb) simp_all
    then show ?thesis using True by auto
  next
    case False
    then have "reaches (ps[r2 := r1]) i 0 i" using at_root by (intro reaches.at_root) simp_all
    then show ?thesis using False by auto
  qed
next
  case (climb i k r)
  then have "i \<noteq> r2" using assms(4) by auto
  then have "ps[r2 := r1] ! i = ps ! i" by simp
  with climb show ?case by (metis length_list_update reaches.climb)
qed

lemma uf_root_union:
  assumes "uf_wf ps" "r1 < length ps" "r2 < length ps" "ps ! r1 = r1" "ps ! r2 = r2"
  shows "uf_root (ps[r2 := r1]) j s \<longleftrightarrow> (\<exists>t. uf_root ps j t \<and> s = (if t = r2 then r1 else t))"
proof (cases "r1 = r2")
  case True
  then have "ps[r2 := r1] = ps" using assms(5) by (metis list_update_id)
  then show ?thesis using True by auto
next
  case False
  have fwd: "uf_root (ps[r2 := r1]) j (if t = r2 then r1 else t)" if "uf_root ps j t" for t
    using reaches_union [OF assms(2-5) False] that unfolding uf_root_def by blast
  show ?thesis
  proof
    assume a: "uf_root (ps[r2 := r1]) j s"
    then have "j < length ps" using reaches_less by (fastforce simp: uf_root_def)
    then obtain t where t: "uf_root ps j t" using assms(1) by (auto simp: uf_wf_def)
    then show "\<exists>t. uf_root ps j t \<and> s = (if t = r2 then r1 else t)"
      using fwd [OF t] a uf_root_det by blast
  next
    assume "\<exists>t. uf_root ps j t \<and> s = (if t = r2 then r1 else t)"
    then show "uf_root (ps[r2 := r1]) j s" using fwd by blast
  qed
qed

text \<open>
  C22: \<^verbatim>\<open>do_union\<close> on two roots keeps the forest free of cycles and merges exactly their two sets.
\<close>

theorem union_merges_sets:
  assumes "uf_wf ps" and "uf_root ps a r1" and "uf_root ps b r2"
  shows "\<exists>ps'. do_union ps r1 r2 = Inr (ps', r1) \<and> uf_wf ps'
    \<and> (\<forall>i j. same_set ps' i j \<longleftrightarrow> same_set ps i j \<or> same_set ps i a \<and> same_set ps j b \<or> same_set ps i b \<and> same_set ps j a)"
proof -
  have r: "r1 < length ps" "ps ! r1 = r1" "r2 < length ps" "ps ! r2 = r2"
    using assms(2,3) reaches_is_root by (auto simp: uf_root_def)
  let ?ps = "ps[r2 := r1]"
  note rt = uf_root_union [OF assms(1) r(1,3,2,4)]
  have "do_union ps r1 r2 = Inr (?ps, r1)" using r by (simp add: do_union_def parent_def)
  moreover have "uf_wf ?ps" using assms(1) by (auto simp: uf_wf_def rt)
  moreover have "same_set ?ps i j \<longleftrightarrow> same_set ps i j \<or> same_set ps i a \<and> same_set ps j b \<or> same_set ps i b \<and> same_set ps j a"
    for i j
  proof (cases "(\<exists>s. uf_root ps i s) \<and> (\<exists>t. uf_root ps j t)")
    case True
    then obtain s t where st: "uf_root ps i s" "uf_root ps j t" by blast
    have eqs: "uf_root ps i x = (x = s)" "uf_root ps j x = (x = t)" "uf_root ps a x = (x = r1)"
      "uf_root ps b x = (x = r2)" for x
      using st assms(2,3) uf_root_det by blast+
    show ?thesis unfolding same_set_def rt eqs by auto
  next
    case False
    then show ?thesis unfolding same_set_def rt by blast
  qed
  ultimately show ?thesis by blast
qed

theorem union_merges_sets_witness:
  "uf_root [0, 1] 0 0 \<and> uf_root [0, 1] 1 1 \<and> (\<exists>ps'. do_union [0, 1] 0 1 = Inr (ps', 0) \<and> same_set ps' 0 1)"
proof -
  have 0: "uf_root [0, 1] 0 0" unfolding uf_root_def using at_root [of 0 "[0, 1]"] by auto
  have 1: "uf_root [0, 1] 1 1" unfolding uf_root_def using at_root [of 1 "[0, 1]"] by auto
  have "uf_wf [0, 1]" unfolding uf_wf_def using 0 1 by (auto simp: less_Suc_eq numeral_2_eq_2)
  moreover have "same_set [0, 1] 0 0" "same_set [0, 1] 1 1" using 0 1 by (auto simp: same_set_def)
  ultimately show ?thesis using union_merges_sets [OF _ 0 1] 0 1 by blast
qed

lemma make_set_fresh:
  assumes "uf_wf ps"
  shows "uf_wf (fst (make_set ps)) \<and> uf_root (fst (make_set ps)) (length ps) (length ps)"
proof -
  let ?ps = "ps @ [length ps]"
  have old: "reaches ?ps i k r" if "reaches ps i k r" for i k r
    using that
  proof (induction rule: reaches.induct)
    case (at_root i)
    then show ?case by (intro reaches.at_root) (simp_all add: nth_append)
  next
    case (climb i k r)
    then show ?case by (intro reaches.climb) (simp_all add: nth_append)
  qed
  have new: "uf_root ?ps (length ps) (length ps)"
    unfolding uf_root_def using at_root [of "length ps" ?ps] by auto
  have "\<exists>r. uf_root ?ps i r" if "i < length ?ps" for i
  proof (cases "i < length ps")
    case True
    then show ?thesis using assms old unfolding uf_wf_def uf_root_def by blast
  next
    case False
    then show ?thesis using new that by (auto simp: less_Suc_eq)
  qed
  then show ?thesis using new by (simp add: make_set_def uf_wf_def)
qed

end
