(* ===== verification/Set_Trie.thy ===== *)
theory Set_Trie
  imports Sparse_Vector "HOL-Library.Sublist" "HOL-Library.AList"
begin

text \<open>
  The subset index \<^verbatim>\<open>SetTrie\<close> (include/caffeine/ADT/SetTrie.h): nodes live in a \<^verbatim>\<open>SparseVector\<close>
  and map an element to the index of the next node, or to the sentinel \<open>endpoint\<close> at the end of a
  stored set. Ranges are lists in iteration order.
\<close>

section \<open>Operations\<close>

type_synonym 'a node = "('a \<times> nat) list"
type_synonym 'a set_trie = "'a node sparse_vector"

definition endpoint :: nat where
  "endpoint = size_max"

text \<open>\<^verbatim>\<open>hopscotch_map::emplace\<close> keeps an existing entry.\<close>

definition node_emplace :: "'a \<Rightarrow> nat \<Rightarrow> 'a node \<Rightarrow> 'a node" where
  "node_emplace x j n = (case map_of n x of None \<Rightarrow> (x, j) # n | Some _ \<Rightarrow> n)"

definition trie_empty :: "'a set_trie \<Rightarrow> bool result" where
  "trie_empty t = (if sv_is_empty t then Inr True else bind_result (sv_get t 0) (\<lambda>n. Inr (n = [])))"

definition trie_clear :: "'a set_trie \<Rightarrow> 'a set_trie" where
  "trie_clear t = sv_clear t"

text \<open>
  The loop of \<^verbatim>\<open>follow_subset\<close> over the query, in a node: skip elements without an edge, otherwise
  try the rest of the query in the next node and go on when that fails.
\<close>

fun follow_loop :: "'a set_trie \<Rightarrow> 'a node \<Rightarrow> 'a list \<Rightarrow> bool result" where
  "follow_loop t node [] = Inr False"
| "follow_loop t node (x # xs) =
     (case map_of node x of
        None \<Rightarrow> follow_loop t node xs
      | Some j \<Rightarrow>
          bind_result
            (if j = endpoint then Inr True
             else bind_result (sv_get t j) (\<lambda>node'. follow_loop t node' xs))
            (\<lambda>b. if b then Inr True else follow_loop t node xs))"

definition follow_subset :: "'a set_trie \<Rightarrow> nat \<Rightarrow> 'a list \<Rightarrow> bool result" where
  "follow_subset t index q =
     (if index = endpoint then Inr True else bind_result (sv_get t index) (\<lambda>node. follow_loop t node q))"

definition contains_subset :: "'a list \<Rightarrow> 'a set_trie \<Rightarrow> bool result" where
  "contains_subset q t = bind_result (trie_empty t) (\<lambda>b. if b then Inr False else follow_subset t 0 q)"

fun insert_new :: "'a list \<Rightarrow> 'a set_trie \<Rightarrow> ('a set_trie \<times> nat) result" where
  "insert_new [] t = Inr (t, endpoint)"
| "insert_new (x # xs) t =
     bind_result (sv_emplace [] t) (\<lambda>(t1, index).
     bind_result (insert_new xs t1) (\<lambda>(t2, inserted).
     bind_result (sv_get t2 index) (\<lambda>n.
     bind_result (sv_set t2 index (node_emplace x inserted n)) (\<lambda>t3. Inr (t3, index)))))"

text \<open>
  \<^verbatim>\<open>remove_node\<close> walks the nodes below \<^verbatim>\<open>index\<close> and changes nothing. The first argument bounds the
  recursion depth; running out of it is the stack overflow of an unbounded recursion.
\<close>

function (sequential) remove_node :: "nat \<Rightarrow> 'a set_trie \<Rightarrow> nat \<Rightarrow> unit result"
  and remove_all :: "nat \<Rightarrow> 'a set_trie \<Rightarrow> nat list \<Rightarrow> unit result" where
  "remove_node 0 t index = (if index = endpoint then Inr () else Inl Undefined_Behaviour)"
| "remove_node (Suc d) t index =
     (if index = endpoint then Inr ()
      else bind_result (sv_get t index) (\<lambda>node. remove_all d t (map snd node)))"
| "remove_all d t [] = Inr ()"
| "remove_all d t (j # js) =
     (if j = endpoint then remove_all d t js
      else bind_result (remove_node d t j) (\<lambda>_. remove_all d t js))"
  by pat_completeness auto
termination
  by (relation "measures [\<lambda>s. case s of Inl (d, _, _) \<Rightarrow> 2 * d | Inr (d, _, _) \<Rightarrow> Suc (2 * d),
       \<lambda>s. case s of Inl _ \<Rightarrow> 0 | Inr (_, _, js) \<Rightarrow> length js]") auto

fun insert_at :: "nat \<Rightarrow> 'a list \<Rightarrow> 'a set_trie \<Rightarrow> 'a set_trie result" where
  "insert_at index [] t = Inl Assertion_Failure"
| "insert_at index (x # xs) t =
     bind_result (sv_get t index) (\<lambda>node.
     case map_of node x of
       None \<Rightarrow>
         bind_result (insert_new xs t) (\<lambda>(t1, inserted).
         bind_result (sv_get t1 index) (\<lambda>n. sv_set t1 index (node_emplace x inserted n)))
     | Some j \<Rightarrow>
         if xs = []
         then bind_result (remove_node (backing_size t) t j) (\<lambda>_. sv_set t index (AList.update x endpoint node))
         else if j = endpoint then Inl Assertion_Failure
         else insert_at j xs t)"

definition trie_insert :: "'a list \<Rightarrow> 'a set_trie \<Rightarrow> 'a set_trie result" where
  "trie_insert xs t =
     bind_result (contains_subset xs t) (\<lambda>b.
       if b then Inr t
       else insert_at 0 xs (if sv_is_empty t then fst (emplace_back [] (sv_clear t)) else t))"

section \<open>Tries without holes\<close>

text \<open>
  No operation of the trie erases a node, so the backing vector never has holes and the trie is the
  sparse vector of a plain list of nodes. Edges lead to later nodes and no two edges share a target.
\<close>

definition node_map :: "'a node list \<Rightarrow> nat \<Rightarrow> 'a \<rightharpoonup> nat" where
  "node_map ns i = (if i < length ns then map_of (ns ! i) else Map.empty)"

definition trie_ok :: "'a node list \<Rightarrow> bool" where
  "trie_ok ns \<longleftrightarrow>
     (\<forall>i x j. node_map ns i x = Some j \<longrightarrow> j = endpoint \<or> i < j \<and> j < length ns)
   \<and> (\<forall>i x i' x' j. node_map ns i x = Some j \<longrightarrow> node_map ns i' x' = Some j \<longrightarrow> j \<noteq> endpoint \<longrightarrow> i = i' \<and> x = x')
   \<and> list_all (\<lambda>n. distinct (map fst n)) ns \<and> length ns \<le> endpoint"

definition trie_wf :: "'a set_trie \<Rightarrow> bool" where
  "trie_wf t \<longleftrightarrow> (\<exists>ns. t = sv_from_list ns \<and> trie_ok ns)"

fun walk :: "'a node list \<Rightarrow> nat \<Rightarrow> 'a list \<Rightarrow> nat option" where
  "walk ns i [] = Some i"
| "walk ns i (x # xs) = (case node_map ns i x of None \<Rightarrow> None | Some j \<Rightarrow> walk ns j xs)"

definition stored :: "'a node list \<Rightarrow> nat \<Rightarrow> 'a list set" where
  "stored ns i = {p. walk ns i p = Some endpoint}"

lemma sv_get_list [simp]: "sv_get (sv_from_list ns) i = (if i < length ns then Inr (ns ! i) else Inl Out_Of_Range)"
  by (simp add: sv_get_def sv_from_list_def backing_size_def)

lemma sv_set_list [simp]:
  "i < length ns \<Longrightarrow> sv_set (sv_from_list ns) i n = Inr (sv_from_list (ns[i := n]))"
  by (simp add: sv_set_def) (simp add: sv_from_list_def map_update)

lemma sv_emplace_list [simp]: "sv_emplace n (sv_from_list ns) = Inr (sv_from_list (ns @ [n]), length ns)"
  by (simp add: sv_emplace_def alloc_slot_def sv_from_list_def list_update_append)

lemma sv_is_empty_list [simp]: "sv_is_empty (sv_from_list ns) \<longleftrightarrow> ns = []"
  by (simp add: sv_is_empty_def sv_from_list_def)

lemma backing_size_list [simp]: "backing_size (sv_from_list ns) = length ns"
  by (simp add: backing_size_def sv_from_list_def)

lemma sv_clear_list: "fst (emplace_back n (sv_clear (sv_from_list ns))) = sv_from_list [n]"
  by (simp add: emplace_back_def sv_clear_def sv_from_list_def)

lemma walk_append: "walk ns i (p @ q) = (case walk ns i p of None \<Rightarrow> None | Some j \<Rightarrow> walk ns j q)"
  by (induction p arbitrary: i) (auto split: option.splits)

lemma node_map_endpoint: "length ns \<le> endpoint \<Longrightarrow> node_map ns endpoint = Map.empty"
  by (simp add: node_map_def)

lemma trie_okD:
  assumes "trie_ok ns"
  shows "node_map ns i x = Some j \<Longrightarrow> j = endpoint \<or> i < j \<and> j < length ns"
    and "node_map ns i x = Some j \<Longrightarrow> node_map ns i' x' = Some j \<Longrightarrow> j \<noteq> endpoint \<Longrightarrow> i = i' \<and> x = x'"
    and "length ns \<le> endpoint"
    and "list_all (\<lambda>n. distinct (map fst n)) ns"
  using assms unfolding trie_ok_def by blast+

lemma endpoint_pos [simp]: "endpoint \<noteq> 0" "0 < endpoint"
  by (simp_all add: endpoint_def size_max_def)

section \<open>Lookup\<close>

lemma stored_endpoint:
  assumes "trie_ok ns"
  shows "stored ns endpoint = {[]}"
proof -
  have "walk ns endpoint p = Some endpoint \<longleftrightarrow> p = []" for p
    using trie_okD(3) [OF assms] by (cases p) (simp_all add: node_map_endpoint)
  then show ?thesis by (simp add: stored_def)
qed

lemma stored_Cons:
  "x # p \<in> stored ns i \<longleftrightarrow> (\<exists>j. node_map ns i x = Some j \<and> p \<in> stored ns j)"
  by (auto simp: stored_def split: option.splits)

lemma stored_Nil: "[] \<in> stored ns i \<longleftrightarrow> i = endpoint"
  by (auto simp: stored_def)

lemma subseq_Cons_right:
  "(\<exists>p \<in> P. subseq p (x # q)) \<longleftrightarrow> (\<exists>p. x # p \<in> P \<and> subseq p q) \<or> (\<exists>p \<in> P. subseq p q)"
proof
  assume "\<exists>p \<in> P. subseq p (x # q)"
  then obtain p where p: "p \<in> P" "subseq p (x # q)" by blast
  then show "(\<exists>p. x # p \<in> P \<and> subseq p q) \<or> (\<exists>p \<in> P. subseq p q)"
    by (cases p) (auto split: if_splits)
next
  assume "(\<exists>p. x # p \<in> P \<and> subseq p q) \<or> (\<exists>p \<in> P. subseq p q)"
  then show "\<exists>p \<in> P. subseq p (x # q)" by (auto intro: bexI)
qed

lemma follow_loop_correct:
  assumes "trie_ok ns"
  shows "i < length ns \<Longrightarrow>
    follow_loop (sv_from_list ns) (ns ! i) q = Inr (\<exists>p \<in> stored ns i. subseq p q)"
proof (induction q arbitrary: i)
  case Nil
  then have "i \<noteq> endpoint" using trie_okD(3) [OF assms] by simp
  then have "[] \<notin> stored ns i" by (simp add: stored_Nil)
  then show ?case by (auto dest: list_emb_Nil2)
next
  case (Cons x q)
  have nm: "map_of (ns ! i) x = node_map ns i x" using Cons.prems by (simp add: node_map_def)
  show ?case
  proof (cases "node_map ns i x")
    case None
    then show ?thesis using Cons nm by (simp add: subseq_Cons_right stored_Cons)
  next
    case (Some j)
    have rest: "(if j = endpoint then Inr True
       else bind_result (sv_get (sv_from_list ns) j) (\<lambda>node'. follow_loop (sv_from_list ns) node' q))
       = Inr (\<exists>p \<in> stored ns j. subseq p q)"
      using trie_okD(1) [OF assms Some] Cons.IH [of j] by (auto simp: stored_endpoint [OF assms])
    show ?thesis
      using Cons.IH [OF Cons.prems] Some nm rest
      by (simp add: subseq_Cons_right stored_Cons del: sv_get_list) auto
  qed
qed

lemma contains_subset_correct:
  assumes "trie_ok ns"
  shows "contains_subset q (sv_from_list ns) = Inr (ns \<noteq> [] \<and> (\<exists>p \<in> stored ns 0. subseq p q))"
proof (cases "ns = [] \<or> ns ! 0 = []")
  case True
  have "stored ns 0 = {}" if "ns \<noteq> []"
  proof -
    have nm: "node_map ns 0 = Map.empty" using True that by (simp add: node_map_def)
    have "walk ns 0 p \<noteq> Some endpoint" for p
      using nm endpoint_pos(2) by (cases p) (simp_all del: endpoint_pos(2))
    then show ?thesis by (simp add: stored_def)
  qed
  then show ?thesis using True by (auto simp: contains_subset_def trie_empty_def)
next
  case False
  have "follow_subset (sv_from_list ns) 0 q = Inr (\<exists>p \<in> stored ns 0. subseq p q)"
    using False follow_loop_correct [OF assms, of 0 q] by (simp add: follow_subset_def)
  then show ?thesis using False by (simp add: contains_subset_def trie_empty_def)
qed

section \<open>Insertion\<close>

fun chain_nodes :: "nat \<Rightarrow> 'a list \<Rightarrow> 'a node list" where
  "chain_nodes k [] = []"
| "chain_nodes k (x # xs) = [(x, if xs = [] then endpoint else Suc k)] # chain_nodes (Suc k) xs"

lemma length_chain_nodes [simp]: "length (chain_nodes k vs) = length vs"
  by (induction vs arbitrary: k) simp_all

lemma nth_chain_nodes: "i < length vs \<Longrightarrow>
    chain_nodes k vs ! i = [(vs ! i, if Suc i = length vs then endpoint else Suc (k + i))]"
  by (induction vs arbitrary: k i) (auto simp: nth_Cons split: nat.split)

definition chain_start :: "nat \<Rightarrow> 'a list \<Rightarrow> nat" where
  "chain_start k vs = (if vs = [] then endpoint else k)"

lemma insert_new_list:
  "insert_new vs (sv_from_list ns) = Inr (sv_from_list (ns @ chain_nodes (length ns) vs), chain_start (length ns) vs)"
proof (induction vs arbitrary: ns)
  case Nil
  then show ?case by (simp add: chain_start_def)
next
  case (Cons x vs)
  show ?case
    using Cons.IH [of "ns @ [[]]"]
    by (simp add: node_emplace_def chain_start_def nth_append list_update_append)
qed

lemma chain_walk:
  assumes "\<And>i. i < length vs \<Longrightarrow> node_map ns (k + i) = [vs ! i \<mapsto> (if Suc i = length vs then endpoint else Suc (k + i))]"
    and "node_map ns endpoint = Map.empty" and "k + length vs \<le> endpoint"
  shows "walk ns (chain_start k vs) r = Some endpoint \<longleftrightarrow> r = vs"
  using assms
proof (induction vs arbitrary: k r)
  case Nil
  then show ?case by (cases r) (simp_all add: chain_start_def)
next
  case (Cons v vs)
  have nm: "node_map ns k = [v \<mapsto> chain_start (Suc k) vs]"
    using Cons.prems(1) [of 0] by (cases "vs = []") (simp_all add: chain_start_def fun_upd_def)
  have IH: "walk ns (chain_start (Suc k) vs) r = Some endpoint \<longleftrightarrow> r = vs" for r
    using Cons.prems by (intro Cons.IH) (fastforce simp: add_Suc [symmetric] simp del: add_Suc)+
  show ?case using nm IH Cons.prems(3) by (cases r) (auto simp: chain_start_def split: if_splits)
qed

lemma walk_range:
  assumes "trie_ok ns"
  shows "i < length ns \<Longrightarrow> walk ns i p = Some k \<Longrightarrow> k < length ns \<or> k = endpoint"
proof (induction p arbitrary: i)
  case Nil
  then show ?case by simp
next
  case (Cons x p)
  then obtain j where j: "node_map ns i x = Some j" "walk ns j p = Some k" by (auto split: option.splits)
  show ?case
  proof (cases "j = endpoint")
    case True
    then show ?thesis using j(2) node_map_endpoint [OF trie_okD(3) [OF assms]] by (cases p) simp_all
  next
    case False
    then show ?thesis using trie_okD(1) [OF assms j(1)] Cons.IH j(2) by blast
  qed
qed

lemma walk_snoc: "walk ns i (p @ [x]) = (case walk ns i p of None \<Rightarrow> None | Some k \<Rightarrow> node_map ns k x)"
  by (simp add: walk_append split: option.splits)

lemma walk_unique:
  assumes ok: "trie_ok ns" and "walk ns 0 p = Some m" "walk ns 0 q = Some m" "m \<noteq> endpoint"
  shows "p = q"
  using assms(2-)
proof (induction p arbitrary: q m rule: rev_induct)
  case Nil
  have "q = []"
  proof (rule ccontr)
    assume "q \<noteq> []"
    then obtain q' y where "q = q' @ [y]" by (metis rev_exhaust)
    then obtain k where "node_map ns k y = Some 0"
      using Nil by (auto simp: walk_snoc split: option.splits)
    then show False using trie_okD(1) [OF ok] by fastforce
  qed
  then show ?case by simp
next
  case (snoc x p)
  then obtain k where k: "walk ns 0 p = Some k" "node_map ns k x = Some m"
    by (auto simp: walk_snoc split: option.splits)
  have "q \<noteq> []"
  proof
    assume "q = []"
    then have "m = 0" using snoc.prems by simp
    then show False using k(2) trie_okD(1) [OF ok] by fastforce
  qed
  then obtain q' y where q: "q = q' @ [y]" by (metis rev_exhaust)
  then obtain k' where k': "walk ns 0 q' = Some k'" "node_map ns k' y = Some m"
    using snoc.prems by (auto simp: walk_snoc split: option.splits)
  have "k' = k" "y = x" using trie_okD(2) [OF ok k(2) k'(2) snoc.prems(3)] by auto
  moreover have "k \<noteq> endpoint"
  proof
    assume "k = endpoint"
    then show False using k(2) node_map_endpoint [OF trie_okD(3) [OF ok]] by simp
  qed
  ultimately show ?case using snoc.IH [of k q'] k(1) k'(1) q by simp
qed

text \<open>Changing one edge only changes the walks that use it.\<close>

lemma walk_change:
  assumes ok: "trie_ok ns" "ns \<noteq> []" and m: "walk ns 0 us = Some m" "m < length ns"
    and same: "\<And>i y. i < length ns \<Longrightarrow> (i, y) \<noteq> (m, x) \<Longrightarrow> node_map ns' i y = node_map ns i y"
    and e: "node_map ns' endpoint = Map.empty"
  shows "\<not> prefix (us @ [x]) p \<Longrightarrow> walk ns' 0 p = walk ns 0 p"
proof (induction p rule: rev_induct)
  case Nil
  then show ?case by simp
next
  case (snoc y p)
  then have IH: "walk ns' 0 p = walk ns 0 p" and ne: "p @ [y] \<noteq> us @ [x]" by auto
  have "node_map ns' k y = node_map ns k y" if k: "walk ns 0 p = Some k" for k
  proof -
    consider "k = endpoint" | "k < length ns" using walk_range [OF ok(1) _ k] ok(2) by auto
    then show ?thesis
    proof cases
      case 1
      then show ?thesis using e node_map_endpoint [OF trie_okD(3) [OF ok(1)]] by simp
    next
      case 2
      have "m \<noteq> endpoint" using m(2) trie_okD(3) [OF ok(1)] by simp
      then have "(k, y) \<noteq> (m, x)" using ne walk_unique [OF ok(1) k, of us] m(1) by auto
      then show ?thesis using same 2 by blast
    qed
  qed
  then show ?case using IH by (simp add: walk_snoc split: option.splits)
qed

lemma remove_all_ok: "(\<And>j. j \<in> set js \<Longrightarrow> j \<noteq> endpoint \<Longrightarrow> remove_node d t j = Inr ()) \<Longrightarrow> remove_all d t js = Inr ()"
  by (induction js) auto

lemma remove_node_ok:
  assumes ok: "trie_ok ns"
  shows "j = endpoint \<or> j < length ns \<and> length ns - j \<le> d \<Longrightarrow> remove_node d (sv_from_list ns) j = Inr ()"
proof (induction d arbitrary: j)
  case 0
  then show ?case by auto
next
  case (Suc d)
  show ?case
  proof (cases "j = endpoint")
    case False
    then have j: "j < length ns" "length ns - j \<le> Suc d" using Suc.prems by auto
    have "remove_node d (sv_from_list ns) l = Inr ()" if l: "l \<in> set (map snd (ns ! j))" "l \<noteq> endpoint" for l
    proof -
      obtain x where "(x, l) \<in> set (ns ! j)" using l(1) by auto
      moreover have "distinct (map fst (ns ! j))" using trie_okD(4) [OF ok] j(1) by (simp add: list_all_length)
      ultimately have "node_map ns j x = Some l" using j(1) by (simp add: node_map_def)
      from trie_okD(1) [OF ok this] l(2) have "j < l" "l < length ns" by auto
      then show ?thesis using j(2) by (intro Suc.IH) auto
    qed
    then have "remove_all d (sv_from_list ns) (map snd (ns ! j)) = Inr ()" by (rule remove_all_ok)
    then show ?thesis using j(1) False by simp
  qed simp
qed

lemma insert_at_split:
  assumes ok: "trie_ok ns"
  shows "i < length ns \<Longrightarrow> xs \<noteq> [] \<Longrightarrow> (\<And>p. prefix p xs \<Longrightarrow> p \<notin> stored ns i) \<Longrightarrow>
    \<exists>us x vs m. xs = us @ x # vs \<and> walk ns i us = Some m \<and> m < length ns \<and> (node_map ns m x = None \<or> vs = [])
      \<and> insert_at i xs (sv_from_list ns) = insert_at m (x # vs) (sv_from_list ns)"
proof (induction xs arbitrary: i)
  case Nil
  then show ?case by simp
next
  case (Cons x xs)
  show ?case
  proof (cases "node_map ns i x = None \<or> xs = []")
    case True
    then show ?thesis using Cons.prems(1)
      by (intro exI [of _ "[]"] exI [of _ x] exI [of _ xs] exI [of _ i]) auto
  next
    case False
    then obtain j where j: "node_map ns i x = Some j" and "xs \<noteq> []" by auto
    have "j \<noteq> endpoint" using Cons.prems(3) [of "[x]"] j by (auto simp: stored_Cons stored_Nil)
    then have jl: "j < length ns" using trie_okD(1) [OF ok j] by auto
    have "insert_at i (x # xs) (sv_from_list ns) = insert_at j xs (sv_from_list ns)"
      using Cons.prems(1) j \<open>xs \<noteq> []\<close> \<open>j \<noteq> endpoint\<close> by (simp add: node_map_def)
    moreover have "p \<notin> stored ns j" if "prefix p xs" for p
      using Cons.prems(3) [of "x # p"] that j by (auto simp: stored_Cons)
    from Cons.IH [OF jl \<open>xs \<noteq> []\<close> this] obtain us y vs m where
      "xs = us @ y # vs" "walk ns j us = Some m" "m < length ns" "node_map ns m y = None \<or> vs = []"
      "insert_at j xs (sv_from_list ns) = insert_at m (y # vs) (sv_from_list ns)" by blast
    ultimately show ?thesis using j by (intro exI [of _ "x # us"] exI [of _ y] exI [of _ vs] exI [of _ m]) simp
  qed
qed

text \<open>The two ways an insertion changes the nodes: a new chain below a node, or a shortened edge.\<close>

definition graft :: "'a node list \<Rightarrow> nat \<Rightarrow> 'a \<Rightarrow> 'a list \<Rightarrow> 'a node list" where
  "graft ns m x vs = (ns @ chain_nodes (length ns) vs)[m := node_emplace x (chain_start (length ns) vs) (ns ! m)]"

definition cut :: "'a node list \<Rightarrow> nat \<Rightarrow> 'a \<Rightarrow> 'a node list" where
  "cut ns m x = ns[m := AList.update x endpoint (ns ! m)]"

lemma length_graft [simp]: "length (graft ns m x vs) = length ns + length vs"
  by (simp add: graft_def)

lemma length_cut [simp]: "length (cut ns m x) = length ns"
  by (simp add: cut_def)

lemma node_map_graft:
  assumes "m < length ns" "node_map ns m x = None"
  shows "node_map (graft ns m x vs) i =
    (if i = m then (node_map ns m)(x \<mapsto> chain_start (length ns) vs)
     else if i < length ns then node_map ns i
     else if i < length ns + length vs
     then [vs ! (i - length ns) \<mapsto> (if Suc (i - length ns) = length vs then endpoint else Suc i)]
     else Map.empty)"
proof -
  have "map_of (node_emplace x j (ns ! m)) = (map_of (ns ! m))(x \<mapsto> j)" for j
    using assms by (simp add: node_emplace_def node_map_def fun_eq_iff map_add_def split: option.splits)
  then show ?thesis
    using assms by (simp add: node_map_def graft_def nth_append nth_list_update nth_chain_nodes)
qed

lemma node_map_cut:
  "m < length ns \<Longrightarrow> node_map (cut ns m x) i = (if i = m then (node_map ns m)(x \<mapsto> endpoint) else node_map ns i)"
  by (simp add: node_map_def cut_def nth_list_update update_conv')

lemma distinct_graft:
  assumes "list_all (\<lambda>n. distinct (map fst n)) ns" "m < length ns" "node_map ns m x = None"
  shows "list_all (\<lambda>n. distinct (map fst n)) (graft ns m x vs)"
proof -
  have "distinct (map fst (node_emplace x j (ns ! m)))" for j
    using assms by (auto simp: node_emplace_def node_map_def list_all_length weak_map_of_SomeI split: option.splits)
  moreover have "list_all (\<lambda>n. distinct (map fst n)) (chain_nodes k vs)" for k
    by (induction vs arbitrary: k) simp_all
  ultimately show ?thesis using assms(1) unfolding graft_def by (intro list_all_update) simp_all
qed

lemma graft_ok:
  assumes ok: "trie_ok ns" and m: "m < length ns" "node_map ns m x = None" and room: "length ns + length vs \<le> endpoint"
  shows "trie_ok (graft ns m x vs)"
proof -
  note nm = node_map_graft [OF m]
  have old: "node_map ns i y = Some j \<Longrightarrow> j = endpoint \<or> i < j \<and> j < length ns" for i y j
    by (rule trie_okD(1) [OF ok])
  have inj: "node_map ns i y = Some j \<Longrightarrow> node_map ns i' y' = Some j \<Longrightarrow> j \<noteq> endpoint \<Longrightarrow> i = i' \<and> y = y'" for i y i' y' j
    by (rule trie_okD(2) [OF ok])
  have edge: "node_map (graft ns m x vs) i y = Some j \<Longrightarrow> j \<noteq> endpoint \<Longrightarrow>
      node_map ns i y = Some j \<and> i < j \<and> j < length ns
    \<or> i = m \<and> y = x \<and> j = length ns \<and> vs \<noteq> []
    \<or> length ns \<le> i \<and> j = Suc i \<and> y = vs ! (i - length ns) \<and> j < length ns + length vs" for i y j
    using old [of i y j] by (auto simp: nm chain_start_def split: if_splits)
  show ?thesis unfolding trie_ok_def
  proof (intro conjI allI impI)
    fix i y j assume "node_map (graft ns m x vs) i y = Some j"
    then show "j = endpoint \<or> i < j \<and> j < length (graft ns m x vs)"
      using edge [of i y j] m(1) by (cases "j = endpoint") auto
  next
    fix i y i' y' j assume a: "node_map (graft ns m x vs) i y = Some j" "node_map (graft ns m x vs) i' y' = Some j" "j \<noteq> endpoint"
    show "i = i'" using edge [OF a(1,3)] edge [OF a(2,3)] inj [OF _ _ a(3)] by auto
    show "y = y'" using edge [OF a(1,3)] edge [OF a(2,3)] inj [OF _ _ a(3)] by auto
  next
    show "list_all (\<lambda>n. distinct (map fst n)) (graft ns m x vs)"
      using trie_okD(4) [OF ok] m by (rule distinct_graft)
  qed (use room in simp)
qed

lemma cut_ok:
  assumes ok: "trie_ok ns" and m: "m < length ns"
  shows "trie_ok (cut ns m x)"
proof -
  have edge: "node_map (cut ns m x) i y = Some j \<Longrightarrow> j \<noteq> endpoint \<Longrightarrow> node_map ns i y = Some j" for i y j
    using m by (auto simp: node_map_cut split: if_splits)
  have "distinct (map fst (AList.update x endpoint (ns ! m)))"
    using trie_okD(4) [OF ok] m by (simp add: list_all_length distinct_update)
  then have "list_all (\<lambda>n. distinct (map fst n)) (cut ns m x)"
    unfolding cut_def using trie_okD(4) [OF ok] by (intro list_all_update) simp_all
  then show ?thesis unfolding trie_ok_def using trie_okD(1-3) [OF ok] edge by (metis length_cut)
qed

text \<open>What the two changes do to the stored sequences.\<close>

lemma stored_change:
  assumes ok: "trie_ok ns" "ns \<noteq> []" and m: "walk ns 0 us = Some m" "m < length ns"
    and same: "\<And>i y. i < length ns \<Longrightarrow> (i, y) \<noteq> (m, x) \<Longrightarrow> node_map ns' i y = node_map ns i y"
    and e: "node_map ns' endpoint = Map.empty"
    and j: "node_map ns' m x = Some j" and tail: "\<And>r. walk ns' j r = Some endpoint \<longleftrightarrow> r = vs"
  shows "stored ns' 0 = {p \<in> stored ns 0. \<not> prefix (us @ [x]) p} \<union> {us @ x # vs}"
proof -
  have other: "\<not> prefix (us @ [x]) p \<Longrightarrow> walk ns' 0 p = walk ns 0 p" for p
    by (rule walk_change [OF ok m _ e, where x = x]) (simp_all add: same)
  have "walk ns' 0 us = Some m" using other [of us] m(1) by (simp add: prefix_def)
  then have through: "walk ns' 0 (us @ x # r) = Some endpoint \<longleftrightarrow> r = vs" for r
    using j tail by (simp add: walk_append)
  show ?thesis
  proof (intro set_eqI)
    fix p
    show "p \<in> stored ns' 0 \<longleftrightarrow> p \<in> {p \<in> stored ns 0. \<not> prefix (us @ [x]) p} \<union> {us @ x # vs}"
    proof (cases "prefix (us @ [x]) p")
      case True
      then obtain r where "p = us @ x # r" by (auto simp: prefix_def)
      then show ?thesis using through [of r] by (simp add: stored_def prefix_def)
    next
      case False
      then show ?thesis using other [OF False] by (auto simp: stored_def prefix_def)
    qed
  qed
qed

lemma stored_graft:
  assumes ok: "trie_ok ns" "ns \<noteq> []" and m: "walk ns 0 us = Some m" "m < length ns" "node_map ns m x = None"
    and room: "length ns + length vs \<le> endpoint"
  shows "stored (graft ns m x vs) 0 = {p \<in> stored ns 0. \<not> prefix (us @ [x]) p} \<union> {us @ x # vs}"
proof -
  note nm = node_map_graft [OF m(2,3)]
  have e: "node_map (graft ns m x vs) endpoint = Map.empty"
    by (rule node_map_endpoint) (simp add: room)
  show ?thesis
  proof (rule stored_change [OF ok m(1,2) _ e])
    show "node_map (graft ns m x vs) i y = node_map ns i y" if "i < length ns" "(i, y) \<noteq> (m, x)" for i y
      using that by (auto simp: nm)
    show "node_map (graft ns m x vs) m x = Some (chain_start (length ns) vs)" by (simp add: nm)
    show "walk (graft ns m x vs) (chain_start (length ns) vs) r = Some endpoint \<longleftrightarrow> r = vs" for r
      by (rule chain_walk [OF _ e room]) (use m(2) in \<open>simp add: nm\<close>)
  qed
qed

lemma stored_cut:
  assumes ok: "trie_ok ns" "ns \<noteq> []" and m: "walk ns 0 us = Some m" "m < length ns"
  shows "stored (cut ns m x) 0 = {p \<in> stored ns 0. \<not> prefix (us @ [x]) p} \<union> {us @ [x]}"
proof -
  have e: "node_map (cut ns m x) endpoint = Map.empty"
    by (rule node_map_endpoint) (simp add: trie_okD(3) [OF ok(1)])
  show ?thesis
  proof (rule stored_change [OF ok m _ e])
    show "node_map (cut ns m x) i y = node_map ns i y" if "i < length ns" "(i, y) \<noteq> (m, x)" for i y
      using that m(2) by (auto simp: node_map_cut)
    show "node_map (cut ns m x) m x = Some endpoint" using m(2) by (simp add: node_map_cut)
    show "walk (cut ns m x) endpoint r = Some endpoint \<longleftrightarrow> r = []" for r
      using e by (cases r) simp_all
  qed
qed

lemma insert_at_correct:
  assumes ok: "trie_ok ns" "ns \<noteq> []" and xs: "xs \<noteq> []" and room: "length ns + length xs \<le> endpoint"
    and fresh: "\<And>p. prefix p xs \<Longrightarrow> p \<notin> stored ns 0"
  shows "\<exists>ns'. insert_at 0 xs (sv_from_list ns) = Inr (sv_from_list ns') \<and> trie_ok ns' \<and> ns' \<noteq> []
    \<and> length ns' \<le> length ns + length xs
    \<and> (\<forall>q. (\<exists>p\<in>stored ns' 0. subseq p q) \<longleftrightarrow> (\<exists>p\<in>stored ns 0. subseq p q) \<or> subseq xs q)"
proof -
  from insert_at_split [OF ok(1) _ xs fresh] ok(2) obtain us x vs m where
    s: "xs = us @ x # vs" "walk ns 0 us = Some m" "m < length ns" "node_map ns m x = None \<or> vs = []"
    and at: "insert_at 0 xs (sv_from_list ns) = insert_at m (x # vs) (sv_from_list ns)" by auto
  have longer: "subseq p q \<Longrightarrow> prefix (us @ [x]) p \<Longrightarrow> vs = [] \<Longrightarrow> subseq xs q" for p q
    using s(1) by (metis prefix_imp_subseq subseq_order.order_trans)
  show ?thesis
  proof (cases "node_map ns m x")
    case None
    have room': "length ns + length vs \<le> endpoint" using room s(1) by simp
    have "insert_at 0 xs (sv_from_list ns) = Inr (sv_from_list (graft ns m x vs))"
      unfolding at using None s(3)
      by (simp add: insert_new_list node_map_def graft_def nth_append list_update_append)
    moreover have "stored (graft ns m x vs) 0 = stored ns 0 \<union> {xs}"
    proof -
      have "\<not> prefix (us @ [x]) p" if "p \<in> stored ns 0" for p
        using that s(2) None by (auto simp: stored_def prefix_def walk_append)
      then show ?thesis unfolding stored_graft [OF ok s(2,3) None room'] s(1) by blast
    qed
    moreover have "graft ns m x vs \<noteq> []" "length (graft ns m x vs) \<le> length ns + length xs"
      using ok(2) by (simp_all add: s(1) graft_def)
    ultimately show ?thesis
      using graft_ok [OF ok(1) s(3) None room'] by (intro exI [of _ "graft ns m x vs"]) auto
  next
    case (Some j)
    have vs: "vs = []" using s(4) Some by simp
    have "remove_node (length ns) (sv_from_list ns) j = Inr ()"
      using trie_okD(1) [OF ok(1) Some] by (intro remove_node_ok [OF ok(1)]) auto
    then have "insert_at 0 xs (sv_from_list ns) = Inr (sv_from_list (cut ns m x))"
      unfolding at using Some s(3) vs by (simp add: node_map_def cut_def)
    moreover have "(\<exists>p\<in>stored (cut ns m x) 0. subseq p q) \<longleftrightarrow> (\<exists>p\<in>stored ns 0. subseq p q) \<or> subseq xs q" for q
      unfolding stored_cut [OF ok s(2,3), of x] using longer [of _ q] s(1) vs by blast
    moreover have "cut ns m x \<noteq> []" using ok(2) by (simp add: cut_def)
    ultimately show ?thesis
      using cut_ok [OF ok(1) s(3)] by (intro exI [of _ "cut ns m x"]) simp
  qed
qed

lemma trie_ok_root [simp]: "trie_ok [[]]"
  by (simp add: trie_ok_def node_map_def endpoint_def size_max_def)

lemma stored_root [simp]: "stored [[]] 0 = {}"
proof -
  have "walk [[]] 0 p \<noteq> Some endpoint" for p :: "'a list"
    by (cases p) (simp_all add: node_map_def endpoint_def size_max_def)
  then show ?thesis by (simp add: stored_def)
qed

lemma first_node [simp]: "fst (emplace_back n (sv_clear (sv_from_list ns))) = sv_from_list [n]"
  by (simp add: emplace_back_def sv_clear_def sv_from_list_def)

lemma trie_insert_list:
  assumes ok: "trie_ok ns" and xs: "xs \<noteq> []" and room: "max 1 (length ns) + length xs \<le> endpoint"
  shows "\<exists>ns'. trie_insert xs (sv_from_list ns) = Inr (sv_from_list ns') \<and> trie_ok ns'
    \<and> length ns' \<le> max 1 (length ns) + length xs
    \<and> (\<forall>q. contains_subset q (sv_from_list ns')
         = Inr ((ns \<noteq> [] \<and> (\<exists>p\<in>stored ns 0. subseq p q)) \<or> subseq xs q))"
proof (cases "ns \<noteq> [] \<and> (\<exists>p\<in>stored ns 0. subseq p xs)")
  case True
  then have "trie_insert xs (sv_from_list ns) = Inr (sv_from_list ns)"
    by (simp add: trie_insert_def contains_subset_correct [OF ok])
  moreover have "subseq xs q \<Longrightarrow> \<exists>p\<in>stored ns 0. subseq p q" for q
    using True subseq_order.order_trans by blast
  ultimately show ?thesis
    using True ok by (intro exI [of _ ns]) (auto simp: contains_subset_correct [OF ok])
next
  case False
  define ms where "ms = (if ns = [] then [[]] else ns)"
  have ms: "trie_ok ms" "ms \<noteq> []" "length ms + length xs \<le> endpoint" "length ms = max 1 (length ns)"
    using ok room by (auto simp: ms_def max_def Suc_le_eq)
  have st: "(\<exists>p\<in>stored ms 0. subseq p q) \<longleftrightarrow> ns \<noteq> [] \<and> (\<exists>p\<in>stored ns 0. subseq p q)" for q
    by (simp add: ms_def)
  have fresh: "p \<notin> stored ms 0" if "prefix p xs" for p
    using False st [of xs] prefix_imp_subseq [OF that] by blast
  have "trie_insert xs (sv_from_list ns) = insert_at 0 xs (sv_from_list ms)"
    using False by (auto simp: trie_insert_def contains_subset_correct [OF ok] ms_def)
  with insert_at_correct [OF ms(1,2) xs ms(3) fresh] obtain ns' where
    "trie_insert xs (sv_from_list ns) = Inr (sv_from_list ns')" and ns': "trie_ok ns'" "ns' \<noteq> []"
    "length ns' \<le> length ms + length xs"
    and eq: "\<And>q. (\<exists>p\<in>stored ns' 0. subseq p q) \<longleftrightarrow> (\<exists>p\<in>stored ms 0. subseq p q) \<or> subseq xs q" by auto
  moreover have "contains_subset q (sv_from_list ns')
      = Inr ((ns \<noteq> [] \<and> (\<exists>p\<in>stored ns 0. subseq p q)) \<or> subseq xs q)" for q
    using ns'(2) by (simp only: contains_subset_correct [OF ns'(1)] eq st) simp
  ultimately show ?thesis using ms(4) by (intro exI [of _ ns']) auto
qed

text \<open>
  C28: inserting a nonempty sequence into a well-formed \<^verbatim>\<open>SetTrie\<close> never trips an assertion, keeps the
  trie well formed, and afterwards \<^verbatim>\<open>contains_subset\<close> answers exactly as before except that
  every query the new sequence is a subsequence of is now answered with true.
\<close>

theorem set_trie_insert:
  assumes "trie_wf t" "xs \<noteq> []" "max 1 (backing_size t) + length xs \<le> endpoint"
  shows "\<exists>t'. trie_insert xs t = Inr t' \<and> trie_wf t'
    \<and> (\<forall>q. \<exists>b. contains_subset q t = Inr b \<and> contains_subset q t' = Inr (b \<or> subseq xs q))"
proof -
  obtain ns where t: "t = sv_from_list ns" "trie_ok ns" using assms(1) by (auto simp: trie_wf_def)
  have "max 1 (length ns) + length xs \<le> endpoint" using assms(3) t(1) by simp
  from trie_insert_list [OF t(2) assms(2) this] obtain ns' where
    "trie_insert xs t = Inr (sv_from_list ns')" "trie_ok ns'"
    "\<And>q. contains_subset q (sv_from_list ns')
       = Inr ((ns \<noteq> [] \<and> (\<exists>p\<in>stored ns 0. subseq p q)) \<or> subseq xs q)" unfolding t(1) by blast
  then show ?thesis
    by (intro exI [of _ "sv_from_list ns'"]) (auto simp: trie_wf_def t(1) contains_subset_correct [OF t(2)])
qed

lemma set_trie_insert_witness:
  "\<exists>t'. trie_insert [1 :: nat, 3] (sv_from_list [[(1, endpoint)]]) = Inr t' \<and> trie_wf t'
    \<and> (\<forall>q. \<exists>b. contains_subset q (sv_from_list [[(1, endpoint)]]) = Inr b
        \<and> contains_subset q t' = Inr (b \<or> subseq [1, 3] q))"
proof -
  have "trie_ok [[(1 :: nat, endpoint)]]"
    by (auto simp: trie_ok_def node_map_def endpoint_def size_max_def split: if_splits)
  then have "trie_wf (sv_from_list [[(1 :: nat, endpoint)]])" by (auto simp: trie_wf_def)
  then show ?thesis by (rule set_trie_insert) (simp_all add: endpoint_def size_max_def)
qed

section \<open>Families of sets\<close>

primrec insert_sets :: "'a list list \<Rightarrow> 'a set_trie \<Rightarrow> 'a set_trie result" where
  "insert_sets [] t = Inr t"
| "insert_sets (s # ss) t = bind_result (trie_insert s t) (insert_sets ss)"

lemma insert_sets_list:
  assumes "trie_ok ns" "\<And>s. s \<in> set ss \<Longrightarrow> s \<noteq> []"
    and "max 1 (length ns) + length (concat ss) \<le> endpoint"
  shows "\<exists>ns'. insert_sets ss (sv_from_list ns) = Inr (sv_from_list ns')
    \<and> contains_subset q (sv_from_list ns')
        = Inr ((ns \<noteq> [] \<and> (\<exists>p\<in>stored ns 0. subseq p q)) \<or> (\<exists>s\<in>set ss. subseq s q))"
  using assms
proof (induction ss arbitrary: ns)
  case Nil
  then show ?case by (intro exI [of _ ns]) (simp add: contains_subset_correct)
next
  case (Cons s ss)
  have "s \<noteq> []" "max 1 (length ns) + length s \<le> endpoint" using Cons.prems(2,3) by auto
  from trie_insert_list [OF Cons.prems(1) this] obtain ns1 where
    ns1: "trie_insert s (sv_from_list ns) = Inr (sv_from_list ns1)" "trie_ok ns1"
    "length ns1 \<le> max 1 (length ns) + length s"
    and q: "contains_subset q (sv_from_list ns1)
       = Inr ((ns \<noteq> [] \<and> (\<exists>p\<in>stored ns 0. subseq p q)) \<or> subseq s q)" by blast
  have "max 1 (length ns1) + length (concat ss) \<le> endpoint"
    using ns1(3) Cons.prems(3) by (simp add: max_def split: if_splits)
  from Cons.IH [OF ns1(2) _ this] Cons.prems(2) obtain ns' where
    "insert_sets ss (sv_from_list ns1) = Inr (sv_from_list ns')"
    "contains_subset q (sv_from_list ns')
       = Inr ((ns1 \<noteq> [] \<and> (\<exists>p\<in>stored ns1 0. subseq p q)) \<or> (\<exists>s\<in>set ss. subseq s q))" by auto
  then show ?case
    using ns1(1) q by (intro exI [of _ ns']) (auto simp: contains_subset_correct [OF ns1(2)])
qed

lemma sorted_subseq_iff:
  "sorted_wrt (<) (s :: 'a :: linorder list) \<Longrightarrow> sorted_wrt (<) q \<Longrightarrow> subseq s q \<longleftrightarrow> set s \<subseteq> set q"
proof (induction q arbitrary: s)
  case Nil
  then show ?case by (auto dest: list_emb_Nil2)
next
  case (Cons y q)
  show ?case
  proof (cases "s = []")
    case False
    then obtain x s' where s: "s = x # s'" by (cases s) auto
    have gt: "z \<in> set s' \<Longrightarrow> x < z" "z \<in> set q \<Longrightarrow> y < z" for z using Cons.prems s by auto
    show ?thesis
    proof (cases "x = y")
      case True
      have "set s \<subseteq> set (y # q) \<longleftrightarrow> set s' \<subseteq> set q" using gt(1) s True by auto
      then show ?thesis using Cons.IH [of s'] Cons.prems s True by simp
    next
      case ne: False
      have "set s \<subseteq> set (y # q) \<longleftrightarrow> set s \<subseteq> set q"
      proof
        assume sub: "set s \<subseteq> set (y # q)"
        then have "y < x" using ne s gt(2) by auto
        then have "y \<notin> set s" using s gt(1) [of y] by auto
        then show "set s \<subseteq> set q" using sub by auto
      qed auto
      then show ?thesis using Cons.IH [of s] Cons.prems s ne by simp
    qed
  qed simp
qed

text \<open>
  C29: a \<^verbatim>\<open>SetTrie\<close> filled from a family of sets, each given as its strictly increasing list of elements,
  answers \<^verbatim>\<open>contains_subset\<close> with true exactly when some inserted set is a subset of the queried set.
\<close>

theorem set_trie_subset_queries:
  fixes q :: "'a :: linorder list"
  assumes "list_all (\<lambda>s. s \<noteq> [] \<and> sorted_wrt (<) s) ss" "sorted_wrt (<) q" "Suc (length (concat ss)) \<le> endpoint"
  shows "\<exists>t. insert_sets ss sv_empty = Inr t \<and> contains_subset q t = Inr (\<exists>s\<in>set ss. set s \<subseteq> set q)"
proof -
  have "trie_ok ([] :: 'a node list)" by (simp add: trie_ok_def node_map_def)
  from insert_sets_list [OF this, of ss q] assms obtain ns' where
    "insert_sets ss (sv_from_list []) = Inr (sv_from_list ns')"
    "contains_subset q (sv_from_list ns') = Inr (\<exists>s\<in>set ss. subseq s q)" by (auto simp: list_all_iff)
  moreover have "(\<exists>s\<in>set ss. subseq s q) \<longleftrightarrow> (\<exists>s\<in>set ss. set s \<subseteq> set q)"
    using assms(1,2) by (intro bex_cong refl sorted_subseq_iff) (simp_all add: list_all_iff)
  moreover have "(sv_from_list [] :: 'a set_trie) = sv_empty" by (simp add: sv_from_list_def sv_empty_def)
  ultimately show ?thesis by (intro exI [of _ "sv_from_list ns'"]) simp
qed

lemma set_trie_subset_queries_witness:
  "\<exists>t. insert_sets [[1 :: nat, 4], [2], [1]] sv_empty = Inr t
     \<and> contains_subset [0, 1, 3] t = Inr (\<exists>s\<in>set [[1 :: nat, 4], [2], [1]]. set s \<subseteq> set [0, 1, 3])"
  by (rule set_trie_subset_queries) (simp_all add: endpoint_def size_max_def)

text \<open>
  C30: inserting the empty set into a well-formed \<^verbatim>\<open>SetTrie\<close> always stops at the assertion
  \<^verbatim>\<open>begin != end\<close> of \<^verbatim>\<open>insert_at\<close>.
\<close>

theorem set_trie_insert_empty_set:
  assumes "trie_wf t"
  shows "trie_insert [] t = Inl Assertion_Failure"
proof -
  obtain ns where t: "t = sv_from_list ns" "trie_ok ns" using assms by (auto simp: trie_wf_def)
  have "\<not> (\<exists>p\<in>stored ns 0. subseq p [])"
    by (auto simp: stored_def endpoint_def size_max_def dest!: list_emb_Nil2)
  then show ?thesis by (simp add: trie_insert_def t(1) contains_subset_correct [OF t(2)])
qed

lemma set_trie_insert_empty_set_witness:
  "trie_insert [] (sv_from_list [[]] :: nat set_trie) = Inl Assertion_Failure"
  by (rule set_trie_insert_empty_set) (auto simp: trie_wf_def intro: exI [of _ "[[]]"])

end
