(* ===== verification/Shared_Array.thy ===== *)
theory Shared_Array
  imports Prelude "HOL-Library.AList" "HOL-Library.Word"
begin

text \<open>
  The byte array that is cheap to copy, \<^verbatim>\<open>SharedArray\<close> of \<^verbatim>\<open>include/caffeine/ADT/SharedArray.h\<close>
  and \<^verbatim>\<open>src/ADT/SharedArray.cpp\<close>. The variant behind a \<^verbatim>\<open>shared_ptr\<close> is never written through the
  pointer, so sharing it is sharing a value: \<open>sa_variant\<close> is the tree of those variants. A copy may
  rewrite the representation of its source, so the copy operation returns both arrays.
\<close>

section \<open>Model\<close>

type_synonym byte = "8 word"

datatype sa_variant = Flat "byte list" | Modified sa_variant "(nat \<times> byte) list"

record shared_array =
  sa_data :: sa_variant
  modcnt :: nat
  sa_size :: nat

definition min_copy_size :: nat where
  "min_copy_size = 64"

definition sa_default :: shared_array where
  "sa_default = \<lparr>sa_data = Flat [], modcnt = 0, sa_size = 0\<rparr>"

definition sa_of_vector :: "byte list \<Rightarrow> shared_array" where
  "sa_of_vector data = \<lparr>sa_data = Flat data, modcnt = 0, sa_size = length data\<rparr>"

text \<open>The constructor from a pair of iterators leaves \<^verbatim>\<open>size_\<close> at its default.\<close>

definition sa_of_range :: "byte list \<Rightarrow> shared_array" where
  "sa_of_range data = \<lparr>sa_data = Flat data, modcnt = 0, sa_size = 0\<rparr>"

text \<open>\<^verbatim>\<open>Modified::operator[]\<close>: the loop down the chain of variants.\<close>

fun modified_at :: "sa_variant \<Rightarrow> (nat \<times> byte) list \<Rightarrow> nat \<Rightarrow> byte result" where
  "modified_at v changes idx =
     (case map_of changes idx of
        Some b \<Rightarrow> Inr b
      | None \<Rightarrow>
          (case v of
             Flat data \<Rightarrow> if idx < length data then Inr (data ! idx) else Inl Out_Of_Range
           | Modified v' changes' \<Rightarrow> modified_at v' changes' idx))"

definition is_flat :: "shared_array \<Rightarrow> bool" where
  "is_flat a = (case sa_data a of Flat _ \<Rightarrow> True | Modified _ _ \<Rightarrow> False)"

definition sa_load :: "shared_array \<Rightarrow> nat \<Rightarrow> byte result" where
  "sa_load a idx =
     (if \<not> idx < sa_size a then Inl Assertion_Failure
      else case sa_data a of
             Flat data \<Rightarrow> if idx < length data then Inr (data ! idx) else Inl Undefined_Behaviour
           | Modified v changes \<Rightarrow> modified_at v changes idx)"

fun load_all :: "shared_array \<Rightarrow> nat list \<Rightarrow> byte list result" where
  "load_all a [] = Inr []"
| "load_all a (i # is) = bind_result (sa_load a i) (\<lambda>b. bind_result (load_all a is) (\<lambda>bs. Inr (b # bs)))"

definition sa_flatten :: "shared_array \<Rightarrow> shared_array result" where
  "sa_flatten a =
     (if is_flat a then Inr a
      else bind_result (load_all a [0..<sa_size a]) (\<lambda>newdata. Inr (a\<lparr>sa_data := Flat newdata\<rparr>)))"

text \<open>
  \<^verbatim>\<open>modcnt_ > size() * flatten_threshold\<close> with the threshold 0.8, as the comparison of
  integers it stands for.
\<close>

definition sa_store :: "shared_array \<Rightarrow> nat \<Rightarrow> byte \<Rightarrow> shared_array result" where
  "sa_store a idx value =
     (if \<not> idx < sa_size a then Inl Assertion_Failure
      else case sa_data a of
             Flat data \<Rightarrow>
               if idx < length data then Inr (a\<lparr>sa_data := Flat (data[idx := value])\<rparr>) else Inl Out_Of_Range
           | Modified v changes \<Rightarrow>
               (case map_of changes idx of
                  Some _ \<Rightarrow> Inr (a\<lparr>sa_data := Modified v (AList.update idx value changes)\<rparr>)
                | None \<Rightarrow>
                    bind_result (modified_at v changes idx) (\<lambda>old.
                      if old = value then Inr a
                      else let a' = a\<lparr>sa_data := Modified v ((idx, value) # changes), modcnt := modcnt a + 1\<rparr> in
                           if 5 * modcnt a' > 4 * sa_size a' then sa_flatten a' else Inr a')))"

text \<open>\<^verbatim>\<open>operator=(const SharedArray&)\<close>: the new value of the source and of the destination.\<close>

definition sa_copy :: "shared_array \<Rightarrow> shared_array \<times> shared_array" where
  "sa_copy src =
     (let share = (src\<lparr>sa_data := Modified (sa_data src) []\<rparr>, src\<lparr>sa_data := Modified (sa_data src) []\<rparr>) in
      case sa_data src of
        Flat data \<Rightarrow> if length data \<le> min_copy_size then (src, src) else share
      | Modified v changes \<Rightarrow> if length changes \<le> min_copy_size then (src, src) else share)"

definition sa_move :: "shared_array \<Rightarrow> shared_array \<times> shared_array" where
  "sa_move src = (sa_default, src)"

definition sa_bytes :: "shared_array \<Rightarrow> (shared_array \<times> byte list) result" where
  "sa_bytes a = bind_result (sa_flatten a) (\<lambda>a'.
     case sa_data a' of Flat data \<Rightarrow> Inr (a', data) | Modified _ _ \<Rightarrow> Inl Bad_Variant)"

fun equal_from :: "shared_array \<Rightarrow> shared_array \<Rightarrow> nat list \<Rightarrow> bool result" where
  "equal_from a b [] = Inr True"
| "equal_from a b (i # is) =
     bind_result (sa_load a i) (\<lambda>x. bind_result (sa_load b i) (\<lambda>y.
       if x \<noteq> y then Inr False else equal_from a b is))"

definition sa_equal :: "shared_array \<Rightarrow> shared_array \<Rightarrow> bool result" where
  "sa_equal a b = (if sa_size a \<noteq> sa_size b then Inr False else equal_from a b [0..<sa_size a])"

section \<open>The abstract array\<close>

fun variant_list :: "sa_variant \<Rightarrow> byte list" where
  "variant_list (Flat data) = data"
| "variant_list (Modified v changes) =
     map (\<lambda>i. case map_of changes i of Some b \<Rightarrow> b | None \<Rightarrow> variant_list v ! i) [0..<length (variant_list v)]"

fun variant_wf :: "nat \<Rightarrow> sa_variant \<Rightarrow> bool" where
  "variant_wf n (Flat data) \<longleftrightarrow> length data = n"
| "variant_wf n (Modified v changes) \<longleftrightarrow> variant_wf n v \<and> fst ` set changes \<subseteq> {..<n} \<and> distinct (map fst changes)"

definition sa_wf :: "shared_array \<Rightarrow> bool" where
  "sa_wf a \<longleftrightarrow> variant_wf (sa_size a) (sa_data a)"

definition sa_list :: "shared_array \<Rightarrow> byte list" where
  "sa_list a = variant_list (sa_data a)"

lemma variant_length [simp]: "variant_wf n v \<Longrightarrow> length (variant_list v) = n"
  by (induction v) auto

lemma modified_at_correct:
  "variant_wf n (Modified v changes) \<Longrightarrow> i < n \<Longrightarrow>
   modified_at v changes i = Inr (variant_list (Modified v changes) ! i)"
proof (induction v changes i rule: modified_at.induct)
  case (1 v changes i)
  then show ?case by (cases v) (auto split: option.splits)
qed

lemma sa_load_list: "sa_wf a \<Longrightarrow> i < sa_size a \<Longrightarrow> sa_load a i = Inr (sa_list a ! i)"
  unfolding sa_load_def sa_list_def sa_wf_def
  by (cases "sa_data a") (simp_all only: sa_variant.case modified_at_correct, simp_all)

lemma sa_list_length [simp]: "sa_wf a \<Longrightarrow> length (sa_list a) = sa_size a"
  by (simp add: sa_list_def sa_wf_def)

lemma load_all_list: "sa_wf a \<Longrightarrow> list_all (\<lambda>i. i < sa_size a) is \<Longrightarrow> load_all a is = Inr (map ((!) (sa_list a)) is)"
  by (induction "is") (simp_all add: sa_load_list)

lemma load_all_full: "sa_wf a \<Longrightarrow> load_all a [0..<sa_size a] = Inr (sa_list a)"
  by (simp add: load_all_list list_all_iff) (metis map_nth sa_list_length)

lemma sa_flatten_list:
  assumes "sa_wf a"
  shows "\<exists>a'. sa_flatten a = Inr a' \<and> sa_wf a' \<and> sa_list a' = sa_list a \<and> sa_size a' = sa_size a \<and> is_flat a'"
proof (cases "is_flat a")
  case True
  then show ?thesis using assms by (simp add: sa_flatten_def)
next
  case False
  then have "sa_flatten a = Inr (a\<lparr>sa_data := Flat (sa_list a)\<rparr>)"
    using assms by (simp add: sa_flatten_def load_all_full)
  then show ?thesis using assms by (simp add: sa_wf_def sa_list_def is_flat_def)
qed

lemma variant_list_change:
  assumes "variant_wf n (Modified v changes)" "idx < n" "map_of changes' = (map_of changes)(idx \<mapsto> b)"
  shows "variant_list (Modified v changes') = (variant_list (Modified v changes))[idx := b]"
  using assms by (auto intro!: nth_equalityI simp: nth_list_update)

lemma sa_store_list:
  assumes wf: "sa_wf a" and idx: "idx < sa_size a"
  shows "\<exists>a'. sa_store a idx b = Inr a' \<and> sa_wf a' \<and> sa_list a' = (sa_list a)[idx := b] \<and> sa_size a' = sa_size a"
proof (cases "sa_data a")
  case (Flat data)
  then show ?thesis using assms by (simp add: sa_store_def sa_wf_def sa_list_def)
next
  case (Modified v changes)
  have mwf: "variant_wf (sa_size a) (Modified v changes)" using wf Modified by (simp add: sa_wf_def)
  show ?thesis
  proof (cases "map_of changes idx")
    case (Some old)
    let ?a' = "a\<lparr>sa_data := Modified v (AList.update idx b changes)\<rparr>"
    have "sa_store a idx b = Inr ?a'" using idx Modified Some by (simp add: sa_store_def)
    moreover have "sa_list ?a' = (sa_list a)[idx := b]"
      using variant_list_change [OF mwf idx, of "AList.update idx b changes" b] Modified
      by (simp add: sa_list_def update_conv')
    moreover have "sa_wf ?a'" using mwf idx
      by (simp add: sa_wf_def distinct_update dom_update)
    ultimately show ?thesis by simp
  next
    case None
    have old: "modified_at v changes idx = Inr (sa_list a ! idx)"
      using modified_at_correct [OF mwf idx] Modified by (simp only: sa_list_def)
    show ?thesis
    proof (cases "sa_list a ! idx = b")
      case True
      then have "sa_store a idx b = Inr a" using idx Modified None old by (simp add: sa_store_def)
      then show ?thesis using wf True by (intro exI [of _ a]) (auto simp: list_update_id)
    next
      case False
      let ?a' = "a\<lparr>sa_data := Modified v ((idx, b) # changes), modcnt := modcnt a + 1\<rparr>"
      have l: "sa_list ?a' = (sa_list a)[idx := b]"
        using variant_list_change [OF mwf idx, of "(idx, b) # changes" b] Modified
        by (simp add: sa_list_def)
      have w: "sa_wf ?a'"
        using mwf idx None by (simp add: sa_wf_def map_of_eq_None_iff)
      have "sa_store a idx b = (if 5 * modcnt ?a' > 4 * sa_size ?a' then sa_flatten ?a' else Inr ?a')"
        using idx Modified None old False by (simp add: sa_store_def Let_def)
      then show ?thesis using l w sa_flatten_list [OF w] by (auto split: if_splits)
    qed
  qed
qed

lemma sa_copy_list:
  assumes "sa_wf a" "sa_copy a = (s, d)"
  shows "sa_wf s" "sa_wf d" "sa_list s = sa_list a" "sa_list d = sa_list a" "sa_size s = sa_size a" "sa_size d = sa_size a"
proof -
  have "variant_list (Modified (sa_data a) []) = sa_list a"
    using assms(1) by (simp add: sa_list_def map_nth)
  then show "sa_wf s" "sa_wf d" "sa_list s = sa_list a" "sa_list d = sa_list a" "sa_size s = sa_size a" "sa_size d = sa_size a"
    using assms by (auto simp: sa_copy_def Let_def sa_wf_def sa_list_def split: sa_variant.splits if_splits)
qed

lemma equal_from_list:
  assumes "sa_wf a" "sa_wf b" "sa_size a = sa_size b"
  shows "list_all (\<lambda>i. i < sa_size a) is \<Longrightarrow> equal_from a b is = Inr (\<forall>i\<in>set is. sa_list a ! i = sa_list b ! i)"
  using assms by (induction "is") (auto simp: sa_load_list)

section \<open>The array interface\<close>

text \<open>
  What a client of a byte array relies on: loads read the view, stores change it at one index. The
  laws of \<open>store_view\<close> give the read-after-write behaviour once for every representation.
\<close>

locale byte_array =
  fixes invar :: "'s \<Rightarrow> bool"
    and view :: "'s \<Rightarrow> byte list"
    and load :: "'s \<Rightarrow> nat \<Rightarrow> byte result"
    and store :: "'s \<Rightarrow> nat \<Rightarrow> byte \<Rightarrow> 's result"
  assumes load_view: "invar a \<Longrightarrow> i < length (view a) \<Longrightarrow> load a i = Inr (view a ! i)"
    and store_view: "invar a \<Longrightarrow> i < length (view a) \<Longrightarrow>
      \<exists>a'. store a i b = Inr a' \<and> invar a' \<and> view a' = (view a)[i := b]"
begin

lemma load_after_store:
  assumes "invar a" "i < length (view a)" "j < length (view a)"
  shows "bind_result (store a i b) (\<lambda>a'. load a' j) = (if j = i then Inr b else load a j)"
proof -
  from store_view [OF assms(1,2), of b] obtain a' where
    a': "store a i b = Inr a'" "invar a'" "view a' = (view a)[i := b]" by auto
  have "load a' j = Inr ((view a)[i := b] ! j)" using load_view [OF a'(2), of j] assms(3) a'(3) by simp
  then show ?thesis using a'(1) load_view [OF assms(1,3)] assms(3) by (simp add: nth_list_update)
qed

end

interpretation sa: byte_array sa_wf sa_list sa_load sa_store
proof
  fix a i b assume a: "sa_wf a" "i < length (sa_list a)"
  then show "sa_load a i = Inr (sa_list a ! i)" by (simp add: sa_load_list)
  show "\<exists>a'. sa_store a i b = Inr a' \<and> sa_wf a' \<and> sa_list a' = (sa_list a)[i := b]"
    using sa_store_list [of a i b] a by auto
qed

text \<open>Histories of an array: what a client can do with one handle.\<close>

datatype sa_op = Store_At nat byte | Take_Copy | Keep_Source | Flatten

definition sa_step :: "shared_array \<Rightarrow> sa_op \<Rightarrow> shared_array result" where
  "sa_step a c =
     (case c of
        Store_At i b \<Rightarrow> sa_store a i b
      | Take_Copy \<Rightarrow> Inr (snd (sa_copy a))
      | Keep_Source \<Rightarrow> Inr (fst (sa_copy a))
      | Flatten \<Rightarrow> sa_flatten a)"

fun sa_run :: "shared_array \<Rightarrow> sa_op list \<Rightarrow> shared_array result" where
  "sa_run a [] = Inr a"
| "sa_run a (c # cs) = bind_result (sa_step a c) (\<lambda>a'. sa_run a' cs)"

fun list_step :: "sa_op \<Rightarrow> byte list \<Rightarrow> byte list" where
  "list_step (Store_At i b) xs = xs[i := b]"
| "list_step _ xs = xs"

fun in_range :: "nat \<Rightarrow> sa_op \<Rightarrow> bool" where
  "in_range n (Store_At i b) \<longleftrightarrow> i < n"
| "in_range n _ \<longleftrightarrow> True"

lemma sa_step_list:
  assumes "sa_wf a" "in_range (sa_size a) c"
  shows "\<exists>a'. sa_step a c = Inr a' \<and> sa_wf a' \<and> sa_size a' = sa_size a \<and> sa_list a' = list_step c (sa_list a)"
proof (cases c)
  case (Store_At i b)
  then show ?thesis using sa_store_list [of a i b] assms by (auto simp: sa_step_def)
next
  case Flatten
  then show ?thesis using sa_flatten_list [of a] assms by (auto simp: sa_step_def)
qed (use sa_copy_list [OF assms(1), of "fst (sa_copy a)" "snd (sa_copy a)"] in \<open>simp_all add: sa_step_def\<close>)

text \<open>
  C19: any history of stores, copies and flattenings of a well-formed \<^verbatim>\<open>SharedArray\<close>, whatever mixture of
  flat and shared representations it goes through, ends with exactly the bytes that the same
  stores produce on a plain vector.
\<close>

theorem shared_array_history:
  assumes "sa_wf a" "list_all (in_range (sa_size a)) cs"
  shows "\<exists>a'. sa_run a cs = Inr a' \<and> sa_wf a' \<and> sa_size a' = sa_size a \<and> sa_list a' = fold list_step cs (sa_list a)"
  using assms
proof (induction cs arbitrary: a)
  case Nil
  then show ?case by simp
next
  case (Cons c cs)
  from sa_step_list [of a c] Cons.prems obtain b where
    b: "sa_step a c = Inr b" "sa_wf b" "sa_size b = sa_size a" "sa_list b = list_step c (sa_list a)" by auto
  then show ?case using Cons.IH [of b] Cons.prems by simp
qed

lemma shared_array_history_witness:
  "\<exists>a'. sa_run (sa_of_vector [1, 2, 3]) [Take_Copy, Store_At 1 7, Flatten] = Inr a' \<and> sa_wf a'
     \<and> sa_size a' = sa_size (sa_of_vector [1, 2, 3])
     \<and> sa_list a' = fold list_step [Take_Copy, Store_At 1 7, Flatten] (sa_list (sa_of_vector [1, 2, 3]))"
  by (rule shared_array_history) (simp_all add: sa_wf_def sa_of_vector_def)

text \<open>
  C31: \<^verbatim>\<open>operator==\<close> on two well-formed arrays compares their contents, independently of how each of
  them is represented.
\<close>

theorem shared_array_equality:
  assumes "sa_wf a" "sa_wf b"
  shows "sa_equal a b = Inr (sa_list a = sa_list b)"
proof (cases "sa_size a = sa_size b")
  case True
  have "(\<forall>i\<in>set [0..<sa_size a]. sa_list a ! i = sa_list b ! i) \<longleftrightarrow> sa_list a = sa_list b"
    using assms True by (auto simp: list_eq_iff_nth_eq)
  then show ?thesis
    using True equal_from_list [OF assms True, of "[0..<sa_size a]"] by (simp add: sa_equal_def list_all_iff)
next
  case False
  then have "sa_list a \<noteq> sa_list b" using assms [THEN sa_list_length] by auto
  then show ?thesis using False by (simp add: sa_equal_def)
qed

lemma shared_array_equality_witness:
  "sa_equal \<lparr>sa_data = Modified (Flat [1, 2]) [(0, 5)], modcnt = 1, sa_size = 2\<rparr> (sa_of_vector [5, 2])
   = Inr (sa_list \<lparr>sa_data = Modified (Flat [1, 2]) [(0, 5)], modcnt = 1, sa_size = 2\<rparr> = sa_list (sa_of_vector [5, 2]))"
  by (rule shared_array_equality) (simp_all add: sa_wf_def sa_of_vector_def)

text \<open>
  An array built by the iterator-range constructor reports size 0, so that every load from it
  stops at the bounds assertion although the bytes were copied.
\<close>

theorem range_constructor_unreadable:
  "sa_load (sa_of_range bytes) i = Inl Assertion_Failure"
  by (simp add: sa_load_def sa_of_range_def)

end
