(* ===== verification/Llvm_Params.thy ===== *)
theory Llvm_Params
  imports Prelude "HOL-Library.Signed_Division"
begin

text \<open>
  The operations of LLVM that the expression layer calls. \<^verbatim>\<open>llvm::APInt\<close> and \<^verbatim>\<open>llvm::APFloat\<close> are not part
  of the repository: their types are type variables, their operations are the fields of the record
  \<open>llvm\<close>, which every definition that uses them takes as an argument, and \<open>apint_laws\<close> states what
  the LLVM documentation promises of the integer operations. \<open>ref_llvm\<close> is a concrete instance that
  satisfies the laws, on which the witnesses run.
\<close>

section \<open>Parameters\<close>

datatype flt_semantics = IEEEhalf | IEEEsingle | IEEEdouble | IEEEquad | X87DoubleExtended | BFloat

datatype cmp_result = CmpLessThan | CmpEqual | CmpGreaterThan | CmpUnordered

record ('i, 'f) llvm =
  ap_width :: "'i \<Rightarrow> nat"
  ap_val :: "'i \<Rightarrow> nat"
  ap_make :: "nat \<Rightarrow> nat \<Rightarrow> 'i"
  ap_make_signed :: "nat \<Rightarrow> int \<Rightarrow> 'i"
  ap_max :: "nat \<Rightarrow> 'i"
  ap_smax :: "nat \<Rightarrow> 'i"
  ap_bits_from :: "nat \<Rightarrow> nat \<Rightarrow> 'i"
  ap_low_bits :: "nat \<Rightarrow> nat \<Rightarrow> 'i"
  ap_add :: "'i \<Rightarrow> 'i \<Rightarrow> 'i"
  ap_sub :: "'i \<Rightarrow> 'i \<Rightarrow> 'i"
  ap_mul :: "'i \<Rightarrow> 'i \<Rightarrow> 'i"
  ap_udiv :: "'i \<Rightarrow> 'i \<Rightarrow> 'i"
  ap_sdiv :: "'i \<Rightarrow> 'i \<Rightarrow> 'i"
  ap_urem :: "'i \<Rightarrow> 'i \<Rightarrow> 'i"
  ap_srem :: "'i \<Rightarrow> 'i \<Rightarrow> 'i"
  ap_and :: "'i \<Rightarrow> 'i \<Rightarrow> 'i"
  ap_or :: "'i \<Rightarrow> 'i \<Rightarrow> 'i"
  ap_xor :: "'i \<Rightarrow> 'i \<Rightarrow> 'i"
  ap_shl :: "'i \<Rightarrow> 'i \<Rightarrow> 'i"
  ap_lshr :: "'i \<Rightarrow> 'i \<Rightarrow> 'i"
  ap_ashr :: "'i \<Rightarrow> 'i \<Rightarrow> 'i"
  ap_not :: "'i \<Rightarrow> 'i"
  ap_trunc :: "'i \<Rightarrow> nat \<Rightarrow> 'i"
  ap_zext :: "'i \<Rightarrow> nat \<Rightarrow> 'i"
  ap_sext :: "'i \<Rightarrow> nat \<Rightarrow> 'i"
  ap_sext_or_trunc :: "'i \<Rightarrow> nat \<Rightarrow> 'i"
  ap_eq :: "'i \<Rightarrow> 'i \<Rightarrow> bool"
  ap_ult :: "'i \<Rightarrow> 'i \<Rightarrow> bool"
  ap_ule :: "'i \<Rightarrow> 'i \<Rightarrow> bool"
  ap_ugt :: "'i \<Rightarrow> 'i \<Rightarrow> bool"
  ap_uge :: "'i \<Rightarrow> 'i \<Rightarrow> bool"
  ap_slt :: "'i \<Rightarrow> 'i \<Rightarrow> bool"
  ap_sle :: "'i \<Rightarrow> 'i \<Rightarrow> bool"
  ap_sgt :: "'i \<Rightarrow> 'i \<Rightarrow> bool"
  ap_sge :: "'i \<Rightarrow> 'i \<Rightarrow> bool"
  ap_eq_u64 :: "'i \<Rightarrow> nat \<Rightarrow> bool"
  ap_ult_u64 :: "'i \<Rightarrow> nat \<Rightarrow> bool"
  ap_limited :: "'i \<Rightarrow> nat \<Rightarrow> nat"
  ap_is_null :: "'i \<Rightarrow> bool"
  ap_is_all_ones :: "'i \<Rightarrow> bool"
  ap_is_min_signed :: "'i \<Rightarrow> bool"
  count_leading_zeros :: "nat \<Rightarrow> nat"
  sem_size :: "flt_semantics \<Rightarrow> nat"
  sem_precision :: "flt_semantics \<Rightarrow> nat"
  fl_sem :: "'f \<Rightarrow> flt_semantics"
  fl_zero :: "flt_semantics \<Rightarrow> 'f"
  fl_of_double :: "nat \<Rightarrow> 'f"
  fl_of_bits :: "flt_semantics \<Rightarrow> 'i \<Rightarrow> 'f"
  fl_to_bits :: "'f \<Rightarrow> 'i"
  fl_add :: "'f \<Rightarrow> 'f \<Rightarrow> 'f"
  fl_sub :: "'f \<Rightarrow> 'f \<Rightarrow> 'f"
  fl_mul :: "'f \<Rightarrow> 'f \<Rightarrow> 'f"
  fl_div :: "'f \<Rightarrow> 'f \<Rightarrow> 'f"
  fl_remainder :: "'f \<Rightarrow> 'f \<Rightarrow> 'f \<times> nat"
  fl_is_nan :: "'f \<Rightarrow> bool"
  fl_compare :: "'f \<Rightarrow> 'f \<Rightarrow> cmp_result"
  fl_bitwise_eq :: "'f \<Rightarrow> 'f \<Rightarrow> bool"

text \<open>
  The correspondence with LLVM: \<open>ap_val\<close> is the unsigned reading of an \<^verbatim>\<open>APInt\<close>, \<open>ap_make w v\<close> is
  \<^verbatim>\<open>APInt(w, v)\<close> (also \<^verbatim>\<open>getNullValue(w)\<close> with \<open>v = 0\<close>), \<open>ap_make_signed w v\<close> is \<^verbatim>\<open>APInt(w, v, true)\<close>,
  \<open>ap_max\<close>, \<open>ap_smax\<close>, \<open>ap_bits_from\<close> and \<open>ap_low_bits\<close> are \<^verbatim>\<open>getMaxValue\<close>, \<^verbatim>\<open>getSignedMaxValue\<close>,
  \<^verbatim>\<open>getBitsSetFrom\<close> and \<^verbatim>\<open>getLowBitsSet\<close>; \<open>ap_eq_u64\<close> and \<open>ap_ult_u64\<close> are the overloads that take a
  \<^verbatim>\<open>uint64_t\<close>; \<open>ap_limited\<close> is \<^verbatim>\<open>getLimitedValue\<close>; \<open>fl_of_double\<close> is the \<^verbatim>\<open>APFloat\<close> of an integral
  \<^verbatim>\<open>double\<close>; \<open>fl_remainder a b\<close> is the value that \<^verbatim>\<open>a.remainder(b)\<close> leaves in \<open>a\<close> together with the
  \<^verbatim>\<open>opStatus\<close> the call returns; \<open>count_leading_zeros\<close> is \<^verbatim>\<open>llvm::countLeadingZeros\<close> on a \<^verbatim>\<open>uint64_t\<close>. The other fields have the name of the method they stand for.
\<close>

section \<open>Documented behaviour of the integers\<close>

definition to_signed :: "nat \<Rightarrow> nat \<Rightarrow> int" where
  "to_signed w n = (if n < 2 ^ (w - 1) then int n else int n - 2 ^ w)"

definition of_signed :: "nat \<Rightarrow> int \<Rightarrow> nat" where
  "of_signed w z = nat (z mod 2 ^ w)"

text \<open>
  A law of a binary operation holds for operands of one width, as LLVM requires it. Division laws
  exclude the operands for which division faults, \<^verbatim>\<open>trunc\<close> and the extensions the widths LLVM rejects.
\<close>

definition binop_law :: "('i, 'f, 'z) llvm_scheme \<Rightarrow> ('i \<Rightarrow> 'i \<Rightarrow> 'i) \<Rightarrow> (nat \<Rightarrow> nat \<Rightarrow> nat \<Rightarrow> bool) \<Rightarrow>
    (nat \<Rightarrow> nat \<Rightarrow> nat \<Rightarrow> nat) \<Rightarrow> bool" where
  "binop_law L f p g \<longleftrightarrow>
     (\<forall>a b. ap_width L a = ap_width L b \<longrightarrow> p (ap_width L a) (ap_val L a) (ap_val L b) \<longrightarrow>
        ap_width L (f a b) = ap_width L a \<and> ap_val L (f a b) = g (ap_width L a) (ap_val L a) (ap_val L b))"

definition cast_law :: "('i, 'f, 'z) llvm_scheme \<Rightarrow> ('i \<Rightarrow> nat \<Rightarrow> 'i) \<Rightarrow> (nat \<Rightarrow> nat \<Rightarrow> bool) \<Rightarrow>
    (nat \<Rightarrow> nat \<Rightarrow> nat \<Rightarrow> nat) \<Rightarrow> bool" where
  "cast_law L f p g \<longleftrightarrow>
     (\<forall>a n. p (ap_width L a) n \<longrightarrow> ap_width L (f a n) = n \<and> ap_val L (f a n) = g (ap_width L a) n (ap_val L a))"

definition cmp_law :: "('i, 'f, 'z) llvm_scheme \<Rightarrow> ('i \<Rightarrow> 'i \<Rightarrow> bool) \<Rightarrow> (nat \<Rightarrow> nat \<Rightarrow> nat \<Rightarrow> bool) \<Rightarrow> bool" where
  "cmp_law L f p \<longleftrightarrow>
     (\<forall>a b. ap_width L a = ap_width L b \<longrightarrow> f a b = p (ap_width L a) (ap_val L a) (ap_val L b))"

definition make_law :: "('i, 'f, 'z) llvm_scheme \<Rightarrow> (nat \<Rightarrow> 'a \<Rightarrow> 'i) \<Rightarrow> (nat \<Rightarrow> 'a \<Rightarrow> bool) \<Rightarrow> (nat \<Rightarrow> 'a \<Rightarrow> nat) \<Rightarrow> bool" where
  "make_law L f p g \<longleftrightarrow> (\<forall>w x. 0 < w \<longrightarrow> p w x \<longrightarrow> ap_width L (f w x) = w \<and> ap_val L (f w x) = g w x)"

definition sdiv_faults :: "nat \<Rightarrow> nat \<Rightarrow> nat \<Rightarrow> bool" where
  "sdiv_faults w a b \<longleftrightarrow> b = 0 \<or> a = 2 ^ (w - 1) \<and> b = 2 ^ w - 1"

definition sdiv_val :: "nat \<Rightarrow> nat \<Rightarrow> nat \<Rightarrow> nat" where
  "sdiv_val w a b = of_signed w (to_signed w a sdiv to_signed w b)"

definition srem_val :: "nat \<Rightarrow> nat \<Rightarrow> nat \<Rightarrow> nat" where
  "srem_val w a b = of_signed w (to_signed w a smod to_signed w b)"

definition shl_val :: "nat \<Rightarrow> nat \<Rightarrow> nat \<Rightarrow> nat" where
  "shl_val w a b = (if b < w then push_bit b a mod 2 ^ w else 0)"

definition ashr_val :: "nat \<Rightarrow> nat \<Rightarrow> nat \<Rightarrow> nat" where
  "ashr_val w a b = of_signed w (to_signed w a div 2 ^ min b w)"

definition apint_laws :: "('i, 'f, 'z) llvm_scheme \<Rightarrow> bool" where
  "apint_laws L \<longleftrightarrow>
     (\<forall>a. ap_val L a < 2 ^ ap_width L a)
   \<and> make_law L (ap_make L) (\<lambda>w v. True) (\<lambda>w v. v mod 2 ^ w)
   \<and> make_law L (ap_make_signed L) (\<lambda>w v. True) (\<lambda>w v. of_signed w v)
   \<and> make_law L (\<lambda>w u. ap_max L w) (\<lambda>w (u :: unit). True) (\<lambda>w u. 2 ^ w - 1)
   \<and> make_law L (\<lambda>w u. ap_smax L w) (\<lambda>w (u :: unit). True) (\<lambda>w u. 2 ^ (w - 1) - 1)
   \<and> make_law L (ap_bits_from L) (\<lambda>w n. n \<le> w) (\<lambda>w n. 2 ^ w - 2 ^ n)
   \<and> make_law L (ap_low_bits L) (\<lambda>w n. n \<le> w) (\<lambda>w n. 2 ^ n - 1)
   \<and> binop_law L (ap_add L) (\<lambda>w a b. True) (\<lambda>w a b. (a + b) mod 2 ^ w)
   \<and> binop_law L (ap_sub L) (\<lambda>w a b. True) (\<lambda>w a b. (a + (2 ^ w - b)) mod 2 ^ w)
   \<and> binop_law L (ap_mul L) (\<lambda>w a b. True) (\<lambda>w a b. (a * b) mod 2 ^ w)
   \<and> binop_law L (ap_udiv L) (\<lambda>w a b. b \<noteq> 0) (\<lambda>w a b. a div b)
   \<and> binop_law L (ap_urem L) (\<lambda>w a b. b \<noteq> 0) (\<lambda>w a b. a mod b)
   \<and> binop_law L (ap_sdiv L) (\<lambda>w a b. \<not> sdiv_faults w a b) sdiv_val
   \<and> binop_law L (ap_srem L) (\<lambda>w a b. b \<noteq> 0) srem_val
   \<and> binop_law L (ap_and L) (\<lambda>w a b. True) (\<lambda>w a b. and a b)
   \<and> binop_law L (ap_or L) (\<lambda>w a b. True) (\<lambda>w a b. or a b)
   \<and> binop_law L (ap_xor L) (\<lambda>w a b. True) (\<lambda>w a b. xor a b)
   \<and> binop_law L (ap_shl L) (\<lambda>w a b. True) shl_val
   \<and> binop_law L (ap_lshr L) (\<lambda>w a b. True) (\<lambda>w a b. drop_bit b a)
   \<and> binop_law L (ap_ashr L) (\<lambda>w a b. True) ashr_val
   \<and> (\<forall>a. ap_width L (ap_not L a) = ap_width L a \<and> ap_val L (ap_not L a) = 2 ^ ap_width L a - 1 - ap_val L a)
   \<and> cast_law L (ap_trunc L) (\<lambda>w n. 0 < n \<and> n < w) (\<lambda>w n a. a mod 2 ^ n)
   \<and> cast_law L (ap_zext L) (\<lambda>w n. w < n) (\<lambda>w n a. a)
   \<and> cast_law L (ap_sext L) (\<lambda>w n. w < n) (\<lambda>w n a. of_signed n (to_signed w a))
   \<and> cast_law L (ap_sext_or_trunc L) (\<lambda>w n. 0 < n) (\<lambda>w n a. of_signed n (to_signed w a))
   \<and> cmp_law L (ap_eq L) (\<lambda>w a b. a = b)
   \<and> cmp_law L (ap_ult L) (\<lambda>w a b. a < b) \<and> cmp_law L (ap_ule L) (\<lambda>w a b. a \<le> b)
   \<and> cmp_law L (ap_ugt L) (\<lambda>w a b. a > b) \<and> cmp_law L (ap_uge L) (\<lambda>w a b. a \<ge> b)
   \<and> cmp_law L (ap_slt L) (\<lambda>w a b. to_signed w a < to_signed w b)
   \<and> cmp_law L (ap_sle L) (\<lambda>w a b. to_signed w a \<le> to_signed w b)
   \<and> cmp_law L (ap_sgt L) (\<lambda>w a b. to_signed w a > to_signed w b)
   \<and> cmp_law L (ap_sge L) (\<lambda>w a b. to_signed w a \<ge> to_signed w b)
   \<and> (\<forall>a n. ap_eq_u64 L a n \<longleftrightarrow> ap_val L a = n) \<and> (\<forall>a n. ap_ult_u64 L a n \<longleftrightarrow> ap_val L a < n)
   \<and> (\<forall>a n. ap_limited L a n = min (ap_val L a) n)
   \<and> (\<forall>a. ap_is_null L a \<longleftrightarrow> ap_val L a = 0)
   \<and> (\<forall>a. ap_is_all_ones L a \<longleftrightarrow> ap_val L a = 2 ^ ap_width L a - 1)
   \<and> (\<forall>a. ap_is_min_signed L a \<longleftrightarrow> ap_val L a = 2 ^ (ap_width L a - 1))"

definition clz_law :: "('i, 'f, 'z) llvm_scheme \<Rightarrow> bool" where
  "clz_law L \<longleftrightarrow> count_leading_zeros L 0 = 64
   \<and> (\<forall>x. 0 < x \<longrightarrow> x < 2 ^ 64 \<longrightarrow> count_leading_zeros L x < 64
        \<and> 2 ^ (63 - count_leading_zeros L x) \<le> x \<and> x < 2 ^ (64 - count_leading_zeros L x))"

lemma apint_lawsD [ap_laws]:
  assumes "apint_laws L"
  shows "ap_val L a < 2 ^ ap_width L a"
    and "0 < w \<Longrightarrow> ap_width L (ap_make L w v) = w" and "0 < w \<Longrightarrow> ap_val L (ap_make L w v) = v mod 2 ^ w"
    and "0 < w \<Longrightarrow> ap_width L (ap_make_signed L w z) = w"
    and "0 < w \<Longrightarrow> ap_val L (ap_make_signed L w z) = of_signed w z"
    and "0 < w \<Longrightarrow> ap_width L (ap_max L w) = w" and "0 < w \<Longrightarrow> ap_val L (ap_max L w) = 2 ^ w - 1"
    and "0 < w \<Longrightarrow> ap_width L (ap_smax L w) = w" and "0 < w \<Longrightarrow> ap_val L (ap_smax L w) = 2 ^ (w - 1) - 1"
    and "0 < w \<Longrightarrow> n \<le> w \<Longrightarrow> ap_width L (ap_bits_from L w n) = w"
    and "0 < w \<Longrightarrow> n \<le> w \<Longrightarrow> ap_val L (ap_bits_from L w n) = 2 ^ w - 2 ^ n"
    and "0 < w \<Longrightarrow> n \<le> w \<Longrightarrow> ap_width L (ap_low_bits L w n) = w"
    and "0 < w \<Longrightarrow> n \<le> w \<Longrightarrow> ap_val L (ap_low_bits L w n) = 2 ^ n - 1"
    and "ap_width L (ap_not L a) = ap_width L a" and "ap_val L (ap_not L a) = 2 ^ ap_width L a - 1 - ap_val L a"
    and "0 < n \<Longrightarrow> n < ap_width L a \<Longrightarrow> ap_width L (ap_trunc L a n) = n"
    and "0 < n \<Longrightarrow> n < ap_width L a \<Longrightarrow> ap_val L (ap_trunc L a n) = ap_val L a mod 2 ^ n"
    and "ap_width L a < n \<Longrightarrow> ap_width L (ap_zext L a n) = n" and "ap_width L a < n \<Longrightarrow> ap_val L (ap_zext L a n) = ap_val L a"
    and "ap_width L a < n \<Longrightarrow> ap_width L (ap_sext L a n) = n"
    and "ap_width L a < n \<Longrightarrow> ap_val L (ap_sext L a n) = of_signed n (to_signed (ap_width L a) (ap_val L a))"
    and "0 < n \<Longrightarrow> ap_width L (ap_sext_or_trunc L a n) = n"
    and "0 < n \<Longrightarrow> ap_val L (ap_sext_or_trunc L a n) = of_signed n (to_signed (ap_width L a) (ap_val L a))"
    and "ap_eq_u64 L a k \<longleftrightarrow> ap_val L a = k" and "ap_ult_u64 L a k \<longleftrightarrow> ap_val L a < k"
    and "ap_limited L a k = min (ap_val L a) k"
    and "ap_is_null L a \<longleftrightarrow> ap_val L a = 0" and "ap_is_all_ones L a \<longleftrightarrow> ap_val L a = 2 ^ ap_width L a - 1"
    and "ap_is_min_signed L a \<longleftrightarrow> ap_val L a = 2 ^ (ap_width L a - 1)"
  using assms unfolding apint_laws_def make_law_def cast_law_def by simp_all

lemma apint_binopD [ap_laws]:
  assumes "apint_laws L" "ap_width L a = ap_width L b"
  shows "ap_width L (ap_add L a b) = ap_width L b" "ap_val L (ap_add L a b) = (ap_val L a + ap_val L b) mod 2 ^ ap_width L b"
    and "ap_width L (ap_sub L a b) = ap_width L b"
    and "ap_val L (ap_sub L a b) = (ap_val L a + (2 ^ ap_width L b - ap_val L b)) mod 2 ^ ap_width L b"
    and "ap_width L (ap_mul L a b) = ap_width L b" "ap_val L (ap_mul L a b) = (ap_val L a * ap_val L b) mod 2 ^ ap_width L b"
    and "ap_width L (ap_and L a b) = ap_width L b" "ap_val L (ap_and L a b) = and (ap_val L a) (ap_val L b)"
    and "ap_width L (ap_or L a b) = ap_width L b" "ap_val L (ap_or L a b) = or (ap_val L a) (ap_val L b)"
    and "ap_width L (ap_xor L a b) = ap_width L b" "ap_val L (ap_xor L a b) = xor (ap_val L a) (ap_val L b)"
    and "ap_width L (ap_shl L a b) = ap_width L b" "ap_val L (ap_shl L a b) = shl_val (ap_width L b) (ap_val L a) (ap_val L b)"
    and "ap_width L (ap_lshr L a b) = ap_width L b" "ap_val L (ap_lshr L a b) = drop_bit (ap_val L b) (ap_val L a)"
    and "ap_width L (ap_ashr L a b) = ap_width L b" "ap_val L (ap_ashr L a b) = ashr_val (ap_width L b) (ap_val L a) (ap_val L b)"
    and "ap_val L b \<noteq> 0 \<Longrightarrow> ap_width L (ap_udiv L a b) = ap_width L b"
    and "ap_val L b \<noteq> 0 \<Longrightarrow> ap_val L (ap_udiv L a b) = ap_val L a div ap_val L b"
    and "ap_val L b \<noteq> 0 \<Longrightarrow> ap_width L (ap_urem L a b) = ap_width L b"
    and "ap_val L b \<noteq> 0 \<Longrightarrow> ap_val L (ap_urem L a b) = ap_val L a mod ap_val L b"
    and "ap_val L b \<noteq> 0 \<Longrightarrow> ap_width L (ap_srem L a b) = ap_width L b"
    and "ap_val L b \<noteq> 0 \<Longrightarrow> ap_val L (ap_srem L a b) = srem_val (ap_width L b) (ap_val L a) (ap_val L b)"
    and "\<not> sdiv_faults (ap_width L b) (ap_val L a) (ap_val L b) \<Longrightarrow> ap_width L (ap_sdiv L a b) = ap_width L b"
    and "\<not> sdiv_faults (ap_width L b) (ap_val L a) (ap_val L b) \<Longrightarrow>
      ap_val L (ap_sdiv L a b) = sdiv_val (ap_width L b) (ap_val L a) (ap_val L b)"
  using assms unfolding apint_laws_def binop_law_def by simp_all

lemma apint_cmpD [ap_laws]:
  assumes "apint_laws L" "ap_width L a = ap_width L b"
  shows "ap_eq L a b \<longleftrightarrow> ap_val L a = ap_val L b"
    and "ap_ult L a b \<longleftrightarrow> ap_val L a < ap_val L b" and "ap_ule L a b \<longleftrightarrow> ap_val L a \<le> ap_val L b"
    and "ap_ugt L a b \<longleftrightarrow> ap_val L a > ap_val L b" and "ap_uge L a b \<longleftrightarrow> ap_val L a \<ge> ap_val L b"
    and "ap_slt L a b \<longleftrightarrow> to_signed (ap_width L b) (ap_val L a) < to_signed (ap_width L b) (ap_val L b)"
    and "ap_sle L a b \<longleftrightarrow> to_signed (ap_width L b) (ap_val L a) \<le> to_signed (ap_width L b) (ap_val L b)"
    and "ap_sgt L a b \<longleftrightarrow> to_signed (ap_width L b) (ap_val L a) > to_signed (ap_width L b) (ap_val L b)"
    and "ap_sge L a b \<longleftrightarrow> to_signed (ap_width L b) (ap_val L a) \<ge> to_signed (ap_width L b) (ap_val L b)"
  using assms unfolding apint_laws_def cmp_law_def by simp_all

section \<open>An instance of the parameters\<close>

datatype ref_float = RNaN (ref_sem: flt_semantics) | RInt (ref_sem: flt_semantics) int

type_synonym ref_int = "nat \<times> nat"

definition rv :: "ref_int \<Rightarrow> nat" where
  "rv a = snd a mod 2 ^ fst a"

definition rbin :: "(nat \<Rightarrow> nat \<Rightarrow> nat \<Rightarrow> nat) \<Rightarrow> ref_int \<Rightarrow> ref_int \<Rightarrow> ref_int" where
  "rbin g a b = (fst a, g (fst a) (rv a) (rv b))"

definition rs :: "ref_int \<Rightarrow> int" where
  "rs a = to_signed (fst a) (rv a)"

fun ref_arith :: "(int \<Rightarrow> int \<Rightarrow> int) \<Rightarrow> ref_float \<Rightarrow> ref_float \<Rightarrow> ref_float" where
  "ref_arith g (RInt s a) (RInt s' b) = RInt s (g a b)"
| "ref_arith g x y = RNaN (ref_sem y)"

fun ref_compare :: "ref_float \<Rightarrow> ref_float \<Rightarrow> cmp_result" where
  "ref_compare (RInt s a) (RInt s' b) = (if a < b then CmpLessThan else if a = b then CmpEqual else CmpGreaterThan)"
| "ref_compare _ _ = CmpUnordered"

fun ref_sem_size :: "flt_semantics \<Rightarrow> nat" where
  "ref_sem_size IEEEhalf = 16" | "ref_sem_size IEEEsingle = 32" | "ref_sem_size IEEEdouble = 64"
| "ref_sem_size IEEEquad = 128" | "ref_sem_size X87DoubleExtended = 80" | "ref_sem_size BFloat = 16"

fun ref_sem_precision :: "flt_semantics \<Rightarrow> nat" where
  "ref_sem_precision IEEEhalf = 11" | "ref_sem_precision IEEEsingle = 24" | "ref_sem_precision IEEEdouble = 53"
| "ref_sem_precision IEEEquad = 113" | "ref_sem_precision X87DoubleExtended = 64" | "ref_sem_precision BFloat = 8"

fun ref_bits :: "nat \<Rightarrow> nat" where
  "ref_bits x = (if x = 0 then 0 else Suc (ref_bits (x div 2)))"

declare ref_bits.simps [simp del]

definition ref_clz :: "nat \<Rightarrow> nat" where
  "ref_clz x = 64 - ref_bits x"

definition ref_llvm :: "(ref_int, ref_float) llvm" where
  "ref_llvm = \<lparr>
     ap_width = fst, ap_val = rv, ap_make = Pair, ap_make_signed = (\<lambda>w z. (w, of_signed w z)),
     ap_max = (\<lambda>w. (w, 2 ^ w - 1)), ap_smax = (\<lambda>w. (w, 2 ^ (w - 1) - 1)),
     ap_bits_from = (\<lambda>w n. (w, 2 ^ w - 2 ^ n)), ap_low_bits = (\<lambda>w n. (w, 2 ^ n - 1)),
     ap_add = rbin (\<lambda>w a b. a + b), ap_sub = rbin (\<lambda>w a b. a + (2 ^ w - b)), ap_mul = rbin (\<lambda>w a b. a * b),
     ap_udiv = rbin (\<lambda>w a b. a div b), ap_sdiv = rbin sdiv_val,
     ap_urem = rbin (\<lambda>w a b. a mod b), ap_srem = rbin srem_val,
     ap_and = rbin (\<lambda>w. and), ap_or = rbin (\<lambda>w. or), ap_xor = rbin (\<lambda>w. xor),
     ap_shl = rbin shl_val, ap_lshr = rbin (\<lambda>w a b. drop_bit b a), ap_ashr = rbin ashr_val,
     ap_not = (\<lambda>a. (fst a, 2 ^ fst a - 1 - rv a)),
     ap_trunc = (\<lambda>a n. (n, rv a)), ap_zext = (\<lambda>a n. (n, rv a)), ap_sext = (\<lambda>a n. (n, of_signed n (rs a))),
     ap_sext_or_trunc = (\<lambda>a n. (n, of_signed n (rs a))),
     ap_eq = (\<lambda>a b. rv a = rv b), ap_ult = (\<lambda>a b. rv a < rv b), ap_ule = (\<lambda>a b. rv a \<le> rv b),
     ap_ugt = (\<lambda>a b. rv a > rv b), ap_uge = (\<lambda>a b. rv a \<ge> rv b),
     ap_slt = (\<lambda>a b. rs a < rs b), ap_sle = (\<lambda>a b. rs a \<le> rs b),
     ap_sgt = (\<lambda>a b. rs a > rs b), ap_sge = (\<lambda>a b. rs a \<ge> rs b),
     ap_eq_u64 = (\<lambda>a n. rv a = n), ap_ult_u64 = (\<lambda>a n. rv a < n), ap_limited = (\<lambda>a n. min (rv a) n),
     ap_is_null = (\<lambda>a. rv a = 0), ap_is_all_ones = (\<lambda>a. rv a = 2 ^ fst a - 1),
     ap_is_min_signed = (\<lambda>a. rv a = 2 ^ (fst a - 1)),
     count_leading_zeros = ref_clz,
     sem_size = ref_sem_size, sem_precision = ref_sem_precision,
     fl_sem = ref_sem, fl_zero = (\<lambda>s. RInt s 0), fl_of_double = (\<lambda>n. RInt IEEEdouble (int n)),
     fl_of_bits = (\<lambda>s a. RInt s (rs a)),
     fl_to_bits = (\<lambda>f. case f of RNaN s \<Rightarrow> (ref_sem_size s, 0) | RInt s n \<Rightarrow> (ref_sem_size s, of_signed (ref_sem_size s) n)),
     fl_add = ref_arith (+), fl_sub = ref_arith (-), fl_mul = ref_arith (*), fl_div = ref_arith (div),
     fl_remainder = (\<lambda>a b. (ref_arith (mod) a b, 0)),
     fl_is_nan = (\<lambda>f. case f of RNaN _ \<Rightarrow> True | RInt _ _ \<Rightarrow> False), fl_compare = ref_compare, fl_bitwise_eq = (=)\<rparr>"

lemma ref_fields [simp]:
  "ap_width ref_llvm = fst" "ap_val ref_llvm = rv" "ap_make ref_llvm = Pair"
  "fl_sem ref_llvm = ref_sem" "fl_zero ref_llvm s = RInt s 0" "sem_size ref_llvm = ref_sem_size" "sem_precision ref_llvm = ref_sem_precision"
  "fl_is_nan ref_llvm (RNaN s)" "\<not> fl_is_nan ref_llvm (RInt s k)" "fl_compare ref_llvm = ref_compare" "fl_remainder ref_llvm a b = (ref_arith (mod) a b, 0)"
  "fl_add ref_llvm = ref_arith (+)" "fl_sub ref_llvm = ref_arith (-)" "fl_mul ref_llvm = ref_arith (*)" "fl_div ref_llvm = ref_arith (div)"
  "fl_of_double ref_llvm n = RInt IEEEdouble (int n)" "count_leading_zeros ref_llvm = ref_clz"
  by (simp_all add: ref_llvm_def)

lemma ref_arith_sem [simp]: "ref_sem a = ref_sem b \<Longrightarrow> ref_sem (ref_arith g a b) = ref_sem b"
  by (cases a; cases b) simp_all

lemma rv_pair [simp]: "rv (w, n) = n mod 2 ^ w"
  by (simp add: rv_def)

lemma of_signed_less [simp]: "of_signed w z < 2 ^ w"
  by (simp add: of_signed_def nat_less_iff)

lemma of_signed_mod [simp]: "of_signed w z mod 2 ^ w = of_signed w z"
  by simp

lemma and_less_power: "a < 2 ^ w \<Longrightarrow> and a b < (2 :: nat) ^ w"
proof -
  assume "a < 2 ^ w"
  moreover have "take_bit w (and a b) = and (take_bit w a) b" by (rule bit_eqI) (auto simp: bit_simps)
  ultimately show ?thesis by (metis take_bit_nat_eq_self_iff)
qed

lemma or_less_power: "a < 2 ^ w \<Longrightarrow> b < 2 ^ w \<Longrightarrow> or a b < (2 :: nat) ^ w"
  by (metis take_bit_nat_eq_self_iff take_bit_or)

lemma xor_less_power: "a < 2 ^ w \<Longrightarrow> b < 2 ^ w \<Longrightarrow> xor a b < (2 :: nat) ^ w"
  by (metis take_bit_nat_eq_self_iff take_bit_xor)

lemma rv_less: "fst a \<le> w \<Longrightarrow> rv a < 2 ^ w"
  by (rule less_le_trans [of _ "2 ^ fst a"]) (simp_all add: rv_def)

lemma rv_div_less: "fst a \<le> w \<Longrightarrow> rv a div k < 2 ^ w"
  by (rule le_less_trans [OF div_le_dividend rv_less])

lemma pow_minus_1_less: "n \<le> w \<Longrightarrow> 2 ^ n - Suc 0 < (2 :: nat) ^ w"
  by (rule less_le_trans [of _ "2 ^ n"]) simp_all

lemma ref_laws: "apint_laws ref_llvm"
proof -
  have rv_mod: "rv (w, n) = n mod 2 ^ w" for w n by (simp add: rv_def)
  have vals: "sdiv_val w a b < 2 ^ w" "srem_val w a b < 2 ^ w" "shl_val w a b < 2 ^ w" "ashr_val w a b < 2 ^ w" for w a b
    by (simp_all add: sdiv_val_def srem_val_def shl_val_def ashr_val_def)
  show ?thesis
    unfolding apint_laws_def make_law_def binop_law_def cast_law_def cmp_law_def ref_llvm_def llvm.simps rbin_def rs_def fst_conv rv_mod
    by (intro conjI allI impI)
      (simp_all add: rv_less rv_div_less vals and_less_power or_less_power xor_less_power
        pow_minus_1_less drop_bit_eq_div le_less_trans [OF mod_less_eq_dividend rv_less])
qed

lemma ref_bits_bounds: "0 < x \<Longrightarrow> 2 ^ (ref_bits x - 1) \<le> x \<and> x < 2 ^ ref_bits x \<and> 0 < ref_bits x"
proof (induction x rule: ref_bits.induct)
  case (1 x)
  show ?case
  proof (cases "x div 2 = 0")
    case True
    then have "x = 1" using 1 by simp
    then show ?thesis by (simp add: ref_bits.simps)
  next
    case False
    define k where "k = ref_bits (x div 2)"
    have IH: "2 ^ (k - 1) \<le> x div 2" "x div 2 < 2 ^ k" "0 < k" using 1 False unfolding k_def by auto
    have k: "ref_bits x = Suc k" using 1 unfolding k_def by (simp add: ref_bits.simps [of x])
    have "2 ^ k = 2 * (2 :: nat) ^ (k - 1)" using IH(3) by (metis Suc_pred' power_Suc)
    then show ?thesis using k IH by simp linarith
  qed
qed

lemma ref_clz_law: "clz_law ref_llvm"
proof -
  have "ref_clz x < 64 \<and> 2 ^ (63 - ref_clz x) \<le> x \<and> x < 2 ^ (64 - ref_clz x)" if "0 < x" "x < 2 ^ 64" for x
  proof -
    note b = ref_bits_bounds [OF that(1)]
    have "2 ^ (ref_bits x - 1) < (2 :: nat) ^ 64" using b that(2) by linarith
    then have "ref_bits x - 1 < 64" by (simp only: power_strict_increasing_iff)
    then have "64 - ref_clz x = ref_bits x" "63 - ref_clz x = ref_bits x - 1" "ref_clz x < 64"
      using b by (simp_all add: ref_clz_def)
    then show ?thesis using b by simp
  qed
  moreover have "ref_clz 0 = 64" by (simp add: ref_clz_def ref_bits.simps)
  ultimately show ?thesis by (simp add: clz_law_def)
qed

end
