(* ===== verification/IR_Type.thy ===== *)
theory IR_Type
  imports Llvm_Params
begin

text \<open>
  Expression types: \<^verbatim>\<open>caffeine::Type\<close> of \<^verbatim>\<open>include/caffeine/IR/Type.h\<close>, \<^verbatim>\<open>Type.inl\<close> and \<^verbatim>\<open>src/IR/Type.cpp\<close>.
  A type is a kind and a 24-bit descriptor; the \<^verbatim>\<open>llvm_\<close> pointer of the class is null in every
  type the code constructs and has no counterpart. \<open>None\<close> is a failed assertion or an abort.
\<close>

section \<open>Representation\<close>

datatype kind = Void | Integer | FloatingPoint | Pointer | Function | Array | Vector

datatype ty = Type (kind: kind) (desc: nat)

definition mk_type :: "kind \<Rightarrow> nat \<Rightarrow> ty option" where
  "mk_type k d = do { ensure (d < 2 ^ 24); Some (Type k d) }"

definition is_void :: "ty \<Rightarrow> bool" where "is_void t \<longleftrightarrow> kind t = Void"
definition is_int :: "ty \<Rightarrow> bool" where "is_int t \<longleftrightarrow> kind t = Integer"
definition is_float :: "ty \<Rightarrow> bool" where "is_float t \<longleftrightarrow> kind t = FloatingPoint"
definition is_pointer :: "ty \<Rightarrow> bool" where "is_pointer t \<longleftrightarrow> kind t = Pointer"
definition is_function :: "ty \<Rightarrow> bool" where "is_function t \<longleftrightarrow> kind t = Function"
definition is_array :: "ty \<Rightarrow> bool" where "is_array t \<longleftrightarrow> kind t = Array"
definition is_vector :: "ty \<Rightarrow> bool" where "is_vector t \<longleftrightarrow> kind t = Vector"

definition bitwidth :: "ty \<Rightarrow> nat option" where
  "bitwidth t = do { ensure (is_int t \<or> is_array t); Some (desc t) }"

definition mantissa_bits :: "ty \<Rightarrow> nat option" where
  "mantissa_bits t = do { ensure (is_float t); Some (and (desc t) 0xFFF) }"

definition exponent_bits :: "ty \<Rightarrow> nat option" where
  "exponent_bits t = do { ensure (is_float t); Some (drop_bit 12 (desc t)) }"

definition int_ty :: "nat \<Rightarrow> ty option" where
  "int_ty w = do { ensure (w \<noteq> 0 \<and> w < 2 ^ 24); mk_type Integer w }"

definition void_ty :: "ty option" where "void_ty = mk_type Void 0"
definition bool_ty :: "ty option" where "bool_ty = int_ty 1"

definition float_ty :: "nat \<Rightarrow> nat \<Rightarrow> ty option" where
  "float_ty e m = do {
     ensure (e \<noteq> 0 \<and> e < 2 ^ 12);
     ensure (m \<noteq> 0 \<and> m < 2 ^ 12);
     mk_type FloatingPoint (or (push_bit 12 e) m) }"

definition pointer_ty :: "ty option" where "pointer_ty = mk_type Pointer 0"
definition array_ty :: "nat \<Rightarrow> ty option" where "array_ty w = mk_type Array w"
definition vector_ty :: "ty option" where "vector_ty = mk_type Vector 0"

text \<open>\<^verbatim>\<open>divceil\<close> in 32-bit unsigned arithmetic.\<close>

definition divceil :: "nat \<Rightarrow> nat \<Rightarrow> nat" where
  "divceil x y = ((x + (y - 1)) mod 2 ^ 32) div y"

text \<open>The size of a pointer is \<^verbatim>\<open>layout.getPointerSize()\<close>, an argument here.\<close>

definition byte_size :: "nat \<Rightarrow> ty \<Rightarrow> nat option" where
  "byte_size pointer_size t =
     (case kind t of
        Void \<Rightarrow> Some 0
      | Integer \<Rightarrow> do { w \<leftarrow> bitwidth t; Some (divceil w 8) }
      | FloatingPoint \<Rightarrow> do { m \<leftarrow> mantissa_bits t; e \<leftarrow> exponent_bits t; Some (divceil (m + e) 8) }
      | Pointer \<Rightarrow> Some pointer_size
      | Function \<Rightarrow> None
      | Array \<Rightarrow> None
      | Vector \<Rightarrow> None)"

section \<open>Types of LLVM values\<close>

text \<open>The kinds of an \<^verbatim>\<open>llvm::Type\<close> that \<^verbatim>\<open>from_llvm\<close> asks for.\<close>

datatype llvm_type =
    LVector | LToken | LMetadata | LLabel | LStruct | LFunction | LArray
  | LVoid | LHalf | LFloat | LDouble | LFP128 | LX86_FP80 | LPPC_FP128
  | LInteger nat | LPointer | LOther

fun from_llvm :: "llvm_type \<Rightarrow> ty option" where
  "from_llvm LVector = None"
| "from_llvm LToken = None"
| "from_llvm LMetadata = None"
| "from_llvm LLabel = None"
| "from_llvm LStruct = None"
| "from_llvm LFunction = None"
| "from_llvm LArray = None"
| "from_llvm LVoid = void_ty"
| "from_llvm LHalf = float_ty 5 11"
| "from_llvm LFloat = float_ty 8 24"
| "from_llvm LDouble = float_ty 11 53"
| "from_llvm LFP128 = float_ty 15 113"
| "from_llvm LX86_FP80 = float_ty 15 64"
| "from_llvm LPPC_FP128 = None"
| "from_llvm (LInteger w) = int_ty w"
| "from_llvm LPointer = mk_type Pointer 0"
| "from_llvm LOther = None"

definition type_of_apint :: "('i, 'f, 'z) llvm_scheme \<Rightarrow> 'i \<Rightarrow> ty option" where
  "type_of_apint L i = int_ty (ap_width L i)"

definition semantics_sizes :: "('i, 'f, 'z) llvm_scheme \<Rightarrow> flt_semantics \<Rightarrow> nat \<times> nat" where
  "semantics_sizes L s = (sem_size L s - sem_precision L s, sem_precision L s)"

definition type_of_apfloat :: "('i, 'f, 'z) llvm_scheme \<Rightarrow> 'f \<Rightarrow> ty option" where
  "type_of_apfloat L f = (case semantics_sizes L (fl_sem L f) of (e, m) \<Rightarrow> float_ty e m)"

definition type_of_double :: "ty option" where "type_of_double = float_ty 11 53"
definition type_of_float :: "ty option" where "type_of_float = float_ty 8 24"

text \<open>A null result is the inner \<open>None\<close>.\<close>

definition llvm_flt_semantics :: "('i, 'f, 'z) llvm_scheme \<Rightarrow> ty \<Rightarrow> flt_semantics option option" where
  "llvm_flt_semantics L t = do {
     ensure (is_float t);
     d \<leftarrow> type_of_double;
     f \<leftarrow> type_of_float;
     e \<leftarrow> exponent_bits t;
     m \<leftarrow> mantissa_bits t;
     Some (if t = d then Some IEEEdouble
           else if t = f then Some IEEEsingle
           else if (e, m) = semantics_sizes L IEEEhalf then Some IEEEhalf
           else if (e, m) = semantics_sizes L IEEEquad then Some IEEEquad
           else if (e, m) = semantics_sizes L X87DoubleExtended then Some X87DoubleExtended
           else if (e, m) = semantics_sizes L BFloat then Some BFloat
           else None) }"

text \<open>\<^verbatim>\<open>operator<<\<close>, with the decimal printer of the standard library as an argument.\<close>

definition print_type :: "(nat \<Rightarrow> string) \<Rightarrow> ty \<Rightarrow> string option" where
  "print_type dec t =
     (if is_void t then Some ''void''
      else if is_int t then do { w \<leftarrow> bitwidth t; Some (''i'' @ dec w) }
      else if is_float t then do { m \<leftarrow> mantissa_bits t; e \<leftarrow> exponent_bits t; Some (''f'' @ dec (m + e)) }
      else if is_pointer t then Some ''void*''
      else if is_array t then Some ''array''
      else if is_vector t then Some ''vector''
      else Some ''<unimplemented>'')"

section \<open>Lemmas\<close>

lemmas kind_defs = is_void_def is_int_def is_float_def is_pointer_def is_function_def is_array_def is_vector_def

lemma int_ty_eq_Some [ir_simps]: "int_ty w = Some t \<longleftrightarrow> 0 < w \<and> w < 2 ^ 24 \<and> t = Type Integer w"
  by (auto simp: int_ty_def mk_type_def Option.bind_eq_Some_conv)

lemma int_ty_Some [ir_simps]: "0 < w \<Longrightarrow> w < 2 ^ 24 \<Longrightarrow> int_ty w = Some (Type Integer w)"
  by (simp add: int_ty_eq_Some)

lemma array_ty_eq_Some [ir_simps]: "array_ty w = Some t \<longleftrightarrow> w < 2 ^ 24 \<and> t = Type Array w"
  by (auto simp: array_ty_def mk_type_def Option.bind_eq_Some_conv)

lemma bool_ty_Some [ir_simps]: "bool_ty = Some (Type Integer 1)"
  by (simp add: bool_ty_def int_ty_Some)

lemma void_ty_Some [ir_simps]: "void_ty = Some (Type Void 0)"
  by (simp add: void_ty_def mk_type_def)

lemma bitwidth_int [ir_simps]: "bitwidth (Type Integer w) = Some w" "bitwidth (Type Array w) = Some w"
  by (simp_all add: bitwidth_def is_int_def is_array_def)

lemma bitwidth_eq_Some: "bitwidth t = Some w \<longleftrightarrow> t = Type Integer w \<or> t = Type Array w"
  by (cases t) (auto simp: bitwidth_def is_int_def is_array_def Option.bind_eq_Some_conv)

lemma is_int_iff: "is_int t \<longleftrightarrow> t = Type Integer (desc t)"
  by (cases t) (simp add: is_int_def)

lemma float_ty_eq_Some:
  "float_ty e m = Some t \<longleftrightarrow>
     0 < e \<and> e < 2 ^ 12 \<and> 0 < m \<and> m < 2 ^ 12 \<and> t = Type FloatingPoint (e * 2 ^ 12 + m)"
  by (auto simp: float_ty_def mk_type_def push_or_add Option.bind_eq_Some_conv)

lemma and_mask_12: "and n 0xFFF = n mod 2 ^ 12" for n :: nat
  using and_low_mask [of n 12] by simp

text \<open>
  The descriptor of a floating-point type loses nothing: both sizes given to \<^verbatim>\<open>float_ty\<close> are
  read back by \<^verbatim>\<open>exponent_bits\<close> and \<^verbatim>\<open>mantissa_bits\<close>, so different sizes give different types.
\<close>

theorem float_type_roundtrip:
  assumes "float_ty e m = Some t"
  shows "exponent_bits t = Some e \<and> mantissa_bits t = Some m \<and> is_float t \<and> desc t < 2 ^ 24"
proof -
  have t: "0 < e" "e < 2 ^ 12" "m < 2 ^ 12" "t = Type FloatingPoint (e * 2 ^ 12 + m)"
    using assms by (simp_all add: float_ty_eq_Some)
  have "(e * 2 ^ 12 + m) mod 2 ^ 12 = m" "(e * 2 ^ 12 + m) div 2 ^ 12 = e" using t(3) by simp_all
  moreover have "e * 2 ^ 12 + m < 2 ^ 24" using t(2,3) by simp
  ultimately show ?thesis
    by (simp add: t(4) exponent_bits_def mantissa_bits_def is_float_def and_mask_12 drop_bit_eq_div)
qed

lemma float_type_roundtrip_witness:
  "\<exists>t. float_ty 11 53 = Some t \<and> exponent_bits t = Some 11 \<and> mantissa_bits t = Some 53 \<and> is_float t \<and> desc t < 2 ^ 24"
  using float_type_roundtrip [of 11 53 "Type FloatingPoint (11 * 2 ^ 12 + 53)"] by (simp add: float_ty_eq_Some)

text \<open>What LLVM documents about its formats.\<close>

definition float_laws :: "('i, 'f, 'z) llvm_scheme \<Rightarrow> bool" where
  "float_laws L \<longleftrightarrow>
     sem_size L IEEEhalf = 16 \<and> sem_precision L IEEEhalf = 11
   \<and> sem_size L IEEEsingle = 32 \<and> sem_precision L IEEEsingle = 24
   \<and> sem_size L IEEEdouble = 64 \<and> sem_precision L IEEEdouble = 53
   \<and> sem_size L IEEEquad = 128 \<and> sem_precision L IEEEquad = 113
   \<and> sem_size L X87DoubleExtended = 80 \<and> sem_precision L X87DoubleExtended = 64
   \<and> sem_size L BFloat = 16 \<and> sem_precision L BFloat = 8"

text \<open>
  The type of an \<^verbatim>\<open>APFloat\<close> determines its format: \<^verbatim>\<open>llvm_flt_semantics\<close> of \<^verbatim>\<open>type_of\<close> is the
  semantics of the value, for each of the six formats.
\<close>

theorem float_semantics_recovered:
  assumes "float_laws L"
  shows "\<exists>t. type_of_apfloat L f = Some t \<and> llvm_flt_semantics L t = Some (Some (fl_sem L f))"
proof -
  have sizes: "semantics_sizes L IEEEhalf = (5, 11)" "semantics_sizes L IEEEsingle = (8, 24)"
    "semantics_sizes L IEEEdouble = (11, 53)" "semantics_sizes L IEEEquad = (15, 113)"
    "semantics_sizes L X87DoubleExtended = (16, 64)" "semantics_sizes L BFloat = (8, 8)"
    using assms by (simp_all add: float_laws_def semantics_sizes_def)
  have ft: "float_ty e m = Some (Type FloatingPoint (e * 2 ^ 12 + m))" if "0 < e" "e < 2 ^ 12" "0 < m" "m < 2 ^ 12" for e m
    using that by (simp add: float_ty_eq_Some)
  show ?thesis
    by (cases "fl_sem L f")
      (simp_all add: type_of_apfloat_def sizes ft llvm_flt_semantics_def type_of_double_def type_of_float_def
        exponent_bits_def mantissa_bits_def is_float_def and_mask_12 drop_bit_eq_div)
qed

lemma float_semantics_recovered_witness:
  "float_laws ref_llvm \<and> (\<exists>t. type_of_apfloat ref_llvm (RInt IEEEdouble 3) = Some t
     \<and> llvm_flt_semantics ref_llvm t = Some (Some (fl_sem ref_llvm (RInt IEEEdouble 3))))"
proof -
  have "float_laws ref_llvm" by (simp add: float_laws_def)
  then show ?thesis using float_semantics_recovered [of ref_llvm "RInt IEEEdouble 3"] by blast
qed



text \<open>
  \<^verbatim>\<open>byte_size\<close> of every integer type is the number of bytes that its bits need, rounded up: the
  32-bit addition inside \<^verbatim>\<open>divceil\<close> never wraps.
\<close>

theorem int_byte_size:
  assumes "int_ty w = Some t"
  shows "\<exists>n. byte_size ptr t = Some n \<and> w \<le> 8 * n \<and> 8 * n < w + 8"
proof -
  have w: "w < 2 ^ 24" "t = Type Integer w" using assms by (simp_all add: ir_simps)
  then have "byte_size ptr t = Some ((w + 7) div 8)" by (simp add: byte_size_def bitwidth_int divceil_def)
  moreover have "w \<le> 8 * ((w + 7) div 8)" "8 * ((w + 7) div 8) < w + 8" by linarith+
  ultimately show ?thesis by blast
qed

lemma int_byte_size_witness: "\<exists>n. byte_size 8 (Type Integer 33) = Some n \<and> 33 \<le> 8 * n \<and> 8 * n < 33 + 8"
  by (rule int_byte_size) (simp add: ir_simps)

end
