(* ===== verification/IR_Value.thy ===== *)
theory IR_Value
  imports IR_Type Shared_Array
begin

text \<open>
  Concrete values: \<^verbatim>\<open>caffeine::Value\<close> of \<^verbatim>\<open>include/caffeine/IR/Value.h\<close> and \<^verbatim>\<open>src/IR/Value.cpp\<close>. The variant
  becomes a datatype; every operation returns \<open>None\<close> where the code stops at an assertion.
\<close>

section \<open>Values\<close>

datatype ('i, 'f) ir_value =
    Empty_Value
  | Int_Value 'i
  | Float_Value 'f
  | Array_Value shared_array nat
  | Vector_Value "('i, 'f) ir_value list"

text \<open>\<^verbatim>\<open>Value(bool)\<close> calls \<^verbatim>\<open>APInt((uint64_t)ival, 1)\<close>: the boolean is the width.\<close>

definition value_of_bool :: "('i, 'f, 'z) llvm_scheme \<Rightarrow> bool \<Rightarrow> ('i, 'f) ir_value" where
  "value_of_bool L b = Int_Value (ap_make L (if b then 1 else 0) 1)"

definition value_of_array :: "shared_array \<Rightarrow> ty \<Rightarrow> ('i, 'f) ir_value option" where
  "value_of_array a index_ty = do { ensure (is_int index_ty); w \<leftarrow> bitwidth index_ty; Some (Array_Value a w) }"

definition value_type :: "('i, 'f, 'z) llvm_scheme \<Rightarrow> ('i, 'f) ir_value \<Rightarrow> ty option" where
  "value_type L v =
     (case v of
        Empty_Value \<Rightarrow> void_ty
      | Int_Value i \<Rightarrow> type_of_apint L i
      | Float_Value f \<Rightarrow> type_of_apfloat L f
      | Array_Value _ w \<Rightarrow> array_ty w
      | Vector_Value _ \<Rightarrow> vector_ty)"

definition apint :: "('i, 'f) ir_value \<Rightarrow> 'i option" where
  "apint v = (case v of Int_Value i \<Rightarrow> Some i | _ \<Rightarrow> None)"

definition apfloat :: "('i, 'f) ir_value \<Rightarrow> 'f option" where
  "apfloat v = (case v of Float_Value f \<Rightarrow> Some f | _ \<Rightarrow> None)"

definition array_of :: "('i, 'f) ir_value \<Rightarrow> shared_array option" where
  "array_of v = (case v of Array_Value a _ \<Rightarrow> Some a | _ \<Rightarrow> None)"

definition vector_of :: "('i, 'f) ir_value \<Rightarrow> ('i, 'f) ir_value list option" where
  "vector_of v = (case v of Vector_Value vs \<Rightarrow> Some vs | _ \<Rightarrow> None)"

definition result_option :: "'a result \<Rightarrow> 'a option" where
  "result_option r = (case r of Inl _ \<Rightarrow> None | Inr x \<Rightarrow> Some x)"

lemma result_option_simps [simp]: "result_option (Inr x) = Some x" "result_option (Inl e) = None"
  by (simp_all add: result_option_def)

text \<open>\<^verbatim>\<open>operator==\<close>; vectors are compared with \<^verbatim>\<open>std::vector\<close>'s equality, element by element.\<close>

fun value_eq :: "('i, 'f, 'z) llvm_scheme \<Rightarrow> ('i, 'f) ir_value \<Rightarrow> ('i, 'f) ir_value \<Rightarrow> bool option"
  and values_eq :: "('i, 'f, 'z) llvm_scheme \<Rightarrow> ('i, 'f) ir_value list \<Rightarrow> ('i, 'f) ir_value list \<Rightarrow> bool option" where
  "value_eq L Empty_Value Empty_Value = Some True"
| "value_eq L (Int_Value a) (Int_Value b) = Some (ap_eq L a b)"
| "value_eq L (Float_Value a) (Float_Value b) = Some (fl_bitwise_eq L a b)"
| "value_eq L (Array_Value a _) (Array_Value b _) = result_option (sa_equal a b)"
| "value_eq L (Vector_Value as) (Vector_Value bs) =
     (if length as \<noteq> length bs then Some False else values_eq L as bs)"
| "value_eq L _ _ = Some False"
| "values_eq L (a # as) (b # bs) = do { e \<leftarrow> value_eq L a b; if e then values_eq L as bs else Some False }"
| "values_eq L _ _ = Some True"

section \<open>Integer operations\<close>

definition int_binop :: "('i \<Rightarrow> 'i \<Rightarrow> 'i) \<Rightarrow> ('i, 'f) ir_value \<Rightarrow> ('i, 'f) ir_value \<Rightarrow> ('i, 'f) ir_value option" where
  "int_binop f lhs rhs = do { a \<leftarrow> apint lhs; b \<leftarrow> apint rhs; Some (Int_Value (f a b)) }"

definition bvadd where "bvadd L = int_binop (ap_add L)"
definition bvsub where "bvsub L = int_binop (ap_sub L)"
definition bvmul where "bvmul L = int_binop (ap_mul L)"
definition bvand where "bvand L = int_binop (ap_and L)"
definition bvor where "bvor L = int_binop (ap_or L)"
definition bvxor where "bvxor L = int_binop (ap_xor L)"
definition bvshl where "bvshl L = int_binop (ap_shl L)"
definition bvlshr where "bvlshr L = int_binop (ap_lshr L)"
definition bvashr where "bvashr L = int_binop (ap_ashr L)"

definition value_bitwidth :: "('i, 'f, 'z) llvm_scheme \<Rightarrow> ('i, 'f) ir_value \<Rightarrow> nat option" where
  "value_bitwidth L v = do { t \<leftarrow> value_type L v; bitwidth t }"

definition bvudiv :: "('i, 'f, 'z) llvm_scheme \<Rightarrow> ('i, 'f) ir_value \<Rightarrow> ('i, 'f) ir_value \<Rightarrow> ('i, 'f) ir_value option" where
  "bvudiv L lhs rhs = do {
     b \<leftarrow> apint rhs;
     if ap_is_null L b then do { w \<leftarrow> value_bitwidth L lhs; Some (Int_Value (ap_max L w)) }
     else do { a \<leftarrow> apint lhs; Some (Int_Value (ap_udiv L a b)) } }"

definition bvsdiv :: "('i, 'f, 'z) llvm_scheme \<Rightarrow> ('i, 'f) ir_value \<Rightarrow> ('i, 'f) ir_value \<Rightarrow> ('i, 'f) ir_value option" where
  "bvsdiv L lhs rhs = do {
     b \<leftarrow> apint rhs;
     if ap_is_null L b then do { w \<leftarrow> value_bitwidth L lhs; Some (Int_Value (ap_smax L w)) }
     else do {
       a \<leftarrow> apint lhs;
       if ap_is_min_signed L a \<and> ap_is_all_ones L b
       then do { w \<leftarrow> value_bitwidth L lhs; Some (Int_Value (ap_smax L w)) }
       else Some (Int_Value (ap_sdiv L a b)) } }"

definition bvurem :: "('i, 'f, 'z) llvm_scheme \<Rightarrow> ('i, 'f) ir_value \<Rightarrow> ('i, 'f) ir_value \<Rightarrow> ('i, 'f) ir_value option" where
  "bvurem L lhs rhs = do {
     b \<leftarrow> apint rhs;
     if ap_is_null L b then Some lhs else do { a \<leftarrow> apint lhs; Some (Int_Value (ap_urem L a b)) } }"

definition bvsrem :: "('i, 'f, 'z) llvm_scheme \<Rightarrow> ('i, 'f) ir_value \<Rightarrow> ('i, 'f) ir_value \<Rightarrow> ('i, 'f) ir_value option" where
  "bvsrem L lhs rhs = do {
     b \<leftarrow> apint rhs;
     if ap_is_null L b then Some lhs else do { a \<leftarrow> apint lhs; Some (Int_Value (ap_srem L a b)) } }"

definition bvnot :: "('i, 'f, 'z) llvm_scheme \<Rightarrow> ('i, 'f) ir_value \<Rightarrow> ('i, 'f) ir_value option" where
  "bvnot L v = do { a \<leftarrow> apint v; Some (Int_Value (ap_not L a)) }"

section \<open>Floating-point operations\<close>

definition float_binop :: "('f \<Rightarrow> 'f \<Rightarrow> 'f) \<Rightarrow> ('i, 'f) ir_value \<Rightarrow> ('i, 'f) ir_value \<Rightarrow> ('i, 'f) ir_value option" where
  "float_binop f lhs rhs = do { a \<leftarrow> apfloat lhs; b \<leftarrow> apfloat rhs; Some (Float_Value (f a b)) }"

definition fadd where "fadd L = float_binop (fl_add L)"
definition fsub where "fsub L = float_binop (fl_sub L)"
definition fmul where "fmul L = float_binop (fl_mul L)"
definition fdiv where "fdiv L = float_binop (fl_div L)"
definition frem where "frem L = float_binop (\<lambda>a b. fst (fl_remainder L a b))"

definition fneg :: "('i, 'f, 'z) llvm_scheme \<Rightarrow> ('i, 'f) ir_value \<Rightarrow> ('i, 'f) ir_value option" where
  "fneg L v = do { a \<leftarrow> apfloat v; Some (Float_Value (fl_sub L (fl_zero L (fl_sem L a)) a)) }"

definition FIsNaN_value :: "('i, 'f, 'z) llvm_scheme \<Rightarrow> ('i, 'f) ir_value \<Rightarrow> ('i, 'f) ir_value option" where
  "FIsNaN_value L v = do { a \<leftarrow> apfloat v; Some (Int_Value (ap_make L 1 (if fl_is_nan L a then 1 else 0))) }"

section \<open>Selection and conversion\<close>

definition select_value :: "('i, 'f, 'z) llvm_scheme \<Rightarrow> ('i, 'f) ir_value \<Rightarrow> ('i, 'f) ir_value \<Rightarrow> ('i, 'f) ir_value \<Rightarrow> ('i, 'f) ir_value option" where
  "select_value L cond t f = do {
     ct \<leftarrow> value_type L cond;
     bt \<leftarrow> bool_ty;
     ensure (ct = bt);
     tt \<leftarrow> value_type L t;
     ft \<leftarrow> value_type L f;
     ensure (tt = ft);
     c \<leftarrow> apint cond;
     Some (if ap_eq_u64 L c 1 then t else f) }"

definition trunc_value :: "('i, 'f, 'z) llvm_scheme \<Rightarrow> ('i, 'f) ir_value \<Rightarrow> nat \<Rightarrow> ('i, 'f) ir_value option" where
  "trunc_value L v n = do {
     a \<leftarrow> apint v; w \<leftarrow> value_bitwidth L v; ensure (w > n); Some (Int_Value (ap_trunc L a n)) }"

definition sext_value :: "('i, 'f, 'z) llvm_scheme \<Rightarrow> ('i, 'f) ir_value \<Rightarrow> nat \<Rightarrow> ('i, 'f) ir_value option" where
  "sext_value L v n = do {
     a \<leftarrow> apint v; w \<leftarrow> value_bitwidth L v; ensure (w < n); Some (Int_Value (ap_sext L a n)) }"

definition zext_value :: "('i, 'f, 'z) llvm_scheme \<Rightarrow> ('i, 'f) ir_value \<Rightarrow> nat \<Rightarrow> ('i, 'f) ir_value option" where
  "zext_value L v n = do {
     a \<leftarrow> apint v; w \<leftarrow> value_bitwidth L v; ensure (w < n); Some (Int_Value (ap_zext L a n)) }"

definition bitcast_value :: "('i, 'f, 'z) llvm_scheme \<Rightarrow> ('i, 'f) ir_value \<Rightarrow> ty \<Rightarrow> ('i, 'f) ir_value option" where
  "bitcast_value L v tgt =
     (case v of
        Int_Value a \<Rightarrow> do {
          ensure (is_float tgt);
          w \<leftarrow> value_bitwidth L v;
          m \<leftarrow> mantissa_bits tgt;
          e \<leftarrow> exponent_bits tgt;
          ensure (w = m + e);
          if Some tgt = type_of_float then Some (Float_Value (fl_of_bits L IEEEsingle a))
          else if Some tgt = type_of_double then Some (Float_Value (fl_of_bits L IEEEdouble a))
          else if Some tgt = float_ty 5 11 then Some (Float_Value (fl_of_bits L IEEEhalf a))
          else if Some tgt = float_ty 15 113 then Some (Float_Value (fl_of_bits L IEEEquad a))
          else if Some tgt = float_ty 15 64 then Some (Float_Value (fl_of_bits L X87DoubleExtended a))
          else None }
      | _ \<Rightarrow> do {
          ensure (is_int tgt);
          w \<leftarrow> bitwidth tgt;
          t \<leftarrow> value_type L v;
          m \<leftarrow> mantissa_bits t;
          e \<leftarrow> exponent_bits t;
          ensure (w = m + e);
          f \<leftarrow> apfloat v;
          Some (Int_Value (fl_to_bits L f)) })"

section \<open>Arrays\<close>

definition load_value :: "('i, 'f, 'z) llvm_scheme \<Rightarrow> ('i, 'f) ir_value \<Rightarrow> ('i, 'f) ir_value \<Rightarrow> ('i, 'f) ir_value option" where
  "load_value L data index = do {
     arr \<leftarrow> array_of data;
     i \<leftarrow> apint index;
     dw \<leftarrow> value_bitwidth L data;
     iw \<leftarrow> value_bitwidth L index;
     ensure (dw = iw);
     ensure (ap_ult_u64 L i (sa_size arr));
     b \<leftarrow> result_option (sa_load arr (ap_limited L i size_max));
     Some (Int_Value (ap_make L 8 (unat b))) }"

definition store_value :: "('i, 'f, 'z) llvm_scheme \<Rightarrow> ('i, 'f) ir_value \<Rightarrow> ('i, 'f) ir_value \<Rightarrow> ('i, 'f) ir_value \<Rightarrow> ('i, 'f) ir_value option" where
  "store_value L data index byte = do {
     arr \<leftarrow> array_of data;
     i \<leftarrow> apint index;
     dw \<leftarrow> value_bitwidth L data;
     iw \<leftarrow> value_bitwidth L index;
     ensure (dw = iw);
     bt \<leftarrow> value_type L byte;
     t8 \<leftarrow> int_ty 8;
     ensure (bt = t8);
     ensure (ap_ult_u64 L i (sa_size arr));
     b \<leftarrow> apint byte;
     arr' \<leftarrow> result_option (sa_store (snd (sa_copy arr)) (ap_limited L i size_max) (word_of_nat (ap_limited L b size_max)));
     it \<leftarrow> value_type L index;
     value_of_array arr' it }"

section \<open>Properties\<close>

definition int_value_ok :: "('i, 'f, 'z) llvm_scheme \<Rightarrow> nat \<Rightarrow> 'i \<Rightarrow> bool" where
  "int_value_ok L w i \<longleftrightarrow> ap_width L i = w \<and> 0 < w \<and> w < 2 ^ 24"

lemma value_bitwidth_int: "int_value_ok L w i \<Longrightarrow> value_bitwidth L (Int_Value i) = Some w"
  by (simp add: int_value_ok_def value_bitwidth_def value_type_def type_of_apint_def ir_simps)

lemma value_type_int: "int_value_ok L w i \<Longrightarrow> value_type L (Int_Value i) = Some (Type Integer w)"
  by (simp add: int_value_ok_def value_type_def type_of_apint_def ir_simps)

lemma value_type_array: "w < 2 ^ 24 \<Longrightarrow> value_type L (Array_Value a w) = Some (Type Array w)"
  by (simp add: value_type_def array_ty_def mk_type_def)

lemma apint_Int [simp]: "apint (Int_Value i) = Some i"
  by (simp add: apint_def)

lemma array_of_Array [simp]: "array_of (Array_Value a w) = Some a"
  by (simp add: array_of_def)

lemma division_values:
  assumes L: "apint_laws L" and ok: "int_value_ok L w a" "int_value_ok L w b"
  shows "\<exists>u s r t. bvudiv L (Int_Value a) (Int_Value b) = Some (Int_Value u)
    \<and> bvsdiv L (Int_Value a) (Int_Value b) = Some (Int_Value s)
    \<and> bvurem L (Int_Value a) (Int_Value b) = Some (Int_Value r)
    \<and> bvsrem L (Int_Value a) (Int_Value b) = Some (Int_Value t)
    \<and> (\<forall>x\<in>{u, s, r, t}. ap_width L x = w)
    \<and> ap_val L u = (if ap_val L b = 0 then 2 ^ w - 1 else ap_val L a div ap_val L b)
    \<and> ap_val L s = (if sdiv_faults w (ap_val L a) (ap_val L b) then 2 ^ (w - 1) - 1 else sdiv_val w (ap_val L a) (ap_val L b))
    \<and> ap_val L r = (if ap_val L b = 0 then ap_val L a else ap_val L a mod ap_val L b)
    \<and> ap_val L t = (if ap_val L b = 0 then ap_val L a else srem_val w (ap_val L a) (ap_val L b))"
proof -
  have w: "ap_width L a = w" "ap_width L b = w" "0 < w" using ok by (simp_all add: int_value_ok_def)
  note simps = w L ap_laws value_bitwidth_int [OF ok(1)] sdiv_faults_def
  show ?thesis
  proof (cases "ap_val L b = 0")
    case True
    then show ?thesis by (simp add: bvudiv_def bvsdiv_def bvurem_def bvsrem_def simps)
  next
    case False
    then show ?thesis
      by (cases "sdiv_faults w (ap_val L a) (ap_val L b)")
        (auto simp: bvudiv_def bvsdiv_def bvurem_def bvsrem_def simps)
  qed
qed

text \<open>
  The division operations of \<^verbatim>\<open>Value\<close> never fault: on two integers of one width they return
  an integer of that width, the quotient or remainder where it exists, and the value the code
  fixes for it where the machine would trap (zero divisor, overflowing signed quotient).
\<close>

theorem value_division_total:
  assumes L: "apint_laws L" and ok: "int_value_ok L w a" "int_value_ok L w b"
  shows "\<exists>u s r t. bvudiv L (Int_Value a) (Int_Value b) = Some (Int_Value u)
    \<and> bvsdiv L (Int_Value a) (Int_Value b) = Some (Int_Value s)
    \<and> bvurem L (Int_Value a) (Int_Value b) = Some (Int_Value r)
    \<and> bvsrem L (Int_Value a) (Int_Value b) = Some (Int_Value t)
    \<and> (\<forall>x\<in>{u, s, r, t}. ap_width L x = w)
    \<and> ap_val L u = (if ap_val L b = 0 then 2 ^ w - 1 else ap_val L a div ap_val L b)
    \<and> ap_val L s = (if sdiv_faults w (ap_val L a) (ap_val L b) then 2 ^ (w - 1) - 1 else sdiv_val w (ap_val L a) (ap_val L b))
    \<and> ap_val L r = (if ap_val L b = 0 then ap_val L a else ap_val L a mod ap_val L b)
    \<and> ap_val L t = (if ap_val L b = 0 then ap_val L a else srem_val w (ap_val L a) (ap_val L b))"
  by (rule division_values [OF assms])

lemma value_division_total_witness:
  "\<exists>u s r t. bvudiv ref_llvm (Int_Value (8, 200)) (Int_Value (8, 0)) = Some (Int_Value u)
    \<and> bvsdiv ref_llvm (Int_Value (8, 200)) (Int_Value (8, 0)) = Some (Int_Value s)
    \<and> bvurem ref_llvm (Int_Value (8, 200)) (Int_Value (8, 0)) = Some (Int_Value r)
    \<and> bvsrem ref_llvm (Int_Value (8, 200)) (Int_Value (8, 0)) = Some (Int_Value t)
    \<and> ap_val ref_llvm u = 255 \<and> ap_val ref_llvm s = 127 \<and> ap_val ref_llvm r = 200 \<and> ap_val ref_llvm t = 200"
proof -
  have "int_value_ok ref_llvm 8 (8, 200)" "int_value_ok ref_llvm 8 (8, 0)"
    by (simp_all add: int_value_ok_def)
  from value_division_total [OF ref_laws this] obtain u s r t where
    "bvudiv ref_llvm (Int_Value (8, 200)) (Int_Value (8, 0)) = Some (Int_Value u)"
    "bvsdiv ref_llvm (Int_Value (8, 200)) (Int_Value (8, 0)) = Some (Int_Value s)"
    "bvurem ref_llvm (Int_Value (8, 200)) (Int_Value (8, 0)) = Some (Int_Value r)"
    "bvsrem ref_llvm (Int_Value (8, 200)) (Int_Value (8, 0)) = Some (Int_Value t)"
    "ap_val ref_llvm u = 255" "ap_val ref_llvm s = 127" "ap_val ref_llvm r = 200" "ap_val ref_llvm t = 200"
    by (auto simp: sdiv_faults_def)
  then show ?thesis by blast
qed

text \<open>
  C33: loading from an array value after a store in range returns the stored byte at the stored
  index and the old byte at every other index, and the store keeps the array well formed.
\<close>

theorem value_load_store:
  assumes L: "apint_laws L" and wf: "sa_wf arr" "sa_size arr \<le> size_max"
    and ok: "int_value_ok L w i" "int_value_ok L w j" "int_value_ok L 8 b"
    and rng: "ap_val L i < sa_size arr" "ap_val L j < sa_size arr"
  shows "\<exists>arr'. store_value L (Array_Value arr w) (Int_Value i) (Int_Value b) = Some (Array_Value arr' w)
    \<and> sa_wf arr'
    \<and> (\<exists>c. load_value L (Array_Value arr' w) (Int_Value j) = Some (Int_Value c) \<and> ap_width L c = 8
         \<and> ap_val L c = (if ap_val L j = ap_val L i then ap_val L b else unat (sa_list arr ! ap_val L j)))"
proof -
  have w: "0 < w" "w < 2 ^ 24" "ap_width L b = 8" using ok by (simp_all add: int_value_ok_def)
  have lim: "ap_limited L k size_max = ap_val L k" if "ap_val L k < sa_size arr" for k
    using that wf(2) L by (simp add: ap_laws)
  have "ap_val L b < 2 ^ 8" using apint_lawsD(1) [OF L, of b] w(3) by simp
  then have lb: "ap_limited L b size_max = ap_val L b" "unat (word_of_nat (ap_val L b) :: byte) = ap_val L b"
    using L by (simp_all add: ap_laws size_max_def unat_of_nat)
  obtain src cp where cp: "sa_copy arr = (src, cp)" by force
  note c = sa_copy_list [OF wf(1) cp]
  obtain arr' where a': "sa_store cp (ap_val L i) (word_of_nat (ap_val L b)) = Inr arr'" "sa_wf arr'"
    "sa_list arr' = (sa_list arr)[ap_val L i := word_of_nat (ap_val L b)]" "sa_size arr' = sa_size arr"
    using sa_store_list [OF c(2), of "ap_val L i" "word_of_nat (ap_val L b)"] c rng by auto
  have vt: "value_bitwidth L (Array_Value x w) = Some w" for x
    using w(2) by (simp add: value_bitwidth_def value_type_array ir_simps)
  have st: "store_value L (Array_Value arr w) (Int_Value i) (Int_Value b) = Some (Array_Value arr' w)"
    using rng(1) L lb lim [OF rng(1)] a'(1)
    by (simp add: store_value_def vt value_bitwidth_int [OF ok(1)] value_type_int [OF ok(1)] value_type_int [OF ok(3)]
        cp value_of_array_def is_int_def apint_lawsD ir_simps)
  have "sa_load arr' (ap_val L j) = Inr (sa_list arr' ! ap_val L j)"
    using sa_load_list [OF a'(2)] a'(4) rng(2) by simp
  then have ld: "load_value L (Array_Value arr' w) (Int_Value j) = Some (Int_Value (ap_make L 8 (unat (sa_list arr' ! ap_val L j))))"
    using rng(2) L lim [OF rng(2)] a'(4) by (simp add: load_value_def vt value_bitwidth_int [OF ok(2)] apint_lawsD)
  have "unat (sa_list arr' ! ap_val L j) < 2 ^ 8" using unsigned_less [of "sa_list arr' ! ap_val L j"] by simp
  moreover have "sa_list arr' ! ap_val L j = (if ap_val L j = ap_val L i then word_of_nat (ap_val L b) else sa_list arr ! ap_val L j)"
    using a'(3) rng wf(1) by (simp add: nth_list_update)
  ultimately show ?thesis using st ld a'(2) lb(2) L by (simp add: apint_lawsD)
qed

lemma value_load_store_witness:
  "\<exists>arr'. store_value ref_llvm (Array_Value (sa_of_vector [1, 2]) 32) (Int_Value (32, 1)) (Int_Value (8, 9)) = Some (Array_Value arr' 32)
    \<and> sa_wf arr'
    \<and> (\<exists>c. load_value ref_llvm (Array_Value arr' 32) (Int_Value (32, 1)) = Some (Int_Value c) \<and> ap_width ref_llvm c = 8
         \<and> ap_val ref_llvm c = (if ap_val ref_llvm (32, 1) = ap_val ref_llvm (32, 1) then ap_val ref_llvm (8, 9)
              else unat (sa_list (sa_of_vector [1, 2]) ! ap_val ref_llvm (32, 1))))"
  by (rule value_load_store [OF ref_laws])
    (simp_all add: sa_wf_def sa_of_vector_def size_max_def int_value_ok_def)

text \<open>
  \<^verbatim>\<open>Value(false)\<close> is not a one-bit integer: the constructor passes the boolean as the width, so
  the type of the result cannot be formed, while \<^verbatim>\<open>Value(true)\<close> has the boolean type.
\<close>

theorem value_of_bool_width:
  assumes "apint_laws L" "ap_width L (ap_make L 0 1) = 0"
  shows "value_type L (value_of_bool L False) = None \<and> value_type L (value_of_bool L True) = bool_ty"
  using assms by (simp add: value_of_bool_def value_type_def type_of_apint_def bool_ty_def int_ty_def ap_laws)

lemma value_of_bool_width_witness:
  "value_type ref_llvm (value_of_bool ref_llvm False) = None \<and> value_type ref_llvm (value_of_bool ref_llvm True) = bool_ty"
  by (rule value_of_bool_width [OF ref_laws]) simp

end
