(* ===== verification/IR_Operation.thy ===== *)
theory IR_Operation
  imports IR_Value
begin

text \<open>
  Expression nodes: the opcodes of \<^verbatim>\<open>include/caffeine/IR/Operation.def\<close>, the node classes of
  \<^verbatim>\<open>OperationBase.h\<close>, \<^verbatim>\<open>OperationData.h\<close> and \<^verbatim>\<open>Operation.h\<close>, and the \<^verbatim>\<open>Create\<close> functions of \<^verbatim>\<open>src/IR/Operation.cpp\<close>.
  A node is its data and its operands; \<^verbatim>\<open>OpRef\<close> is the node itself, with pointer equality kept apart
  as the field \<open>same_ref\<close> of the context record. Every \<^verbatim>\<open>Create\<close> function ends in \<^verbatim>\<open>constant_fold\<close>, which
  is the argument \<open>cf\<close> here and is tied to the simplifier in \<open>IR_Simplifier\<close>. Null operands do not
  exist in the model; \<open>None\<close> is a failed assertion.
\<close>

section \<open>Symbols and opcodes\<close>

datatype symbol = Named string | Numbered nat

definition is_named :: "symbol \<Rightarrow> bool" where "is_named s = (case s of Named _ \<Rightarrow> True | Numbered _ \<Rightarrow> False)"
definition is_numbered :: "symbol \<Rightarrow> bool" where "is_numbered s = (case s of Named _ \<Rightarrow> False | Numbered _ \<Rightarrow> True)"

text \<open>The constructor from a character array of \<open>N\<close> characters takes all of them, the final NUL included.\<close>

definition symbol_of_literal :: "string \<Rightarrow> symbol" where
  "symbol_of_literal s = Named (s @ [CHR 0x00])"

datatype icmp_opcode = ICmp_EQ | ICmp_NE | ICmp_UGT | ICmp_UGE | ICmp_ULT | ICmp_ULE | ICmp_SGT | ICmp_SGE | ICmp_SLT | ICmp_SLE

datatype fcmp_opcode = FCmp_EQ | FCmp_GT | FCmp_GE | FCmp_LT | FCmp_LE | FCmp_NE

datatype opcode =
    Invalid
  | ConstantNamed | ConstantNumbered | ConstantInt | ConstantFloat | ConstantArray | FunctionObject | EGraphNode | Undef
  | Add | Sub | Mul | UDiv | SDiv | URem | SRem | And | Or | Xor | Shl | LShr | AShr
  | FAdd | FSub | FMul | FDiv | FRem
  | ICmp icmp_opcode | FCmp fcmp_opcode
  | Not | FNeg | FIsNaN
  | Trunc | SExt | ZExt | FpTrunc | FpExt | FpToUI | FpToSI | UIToFp | SIToFp | Bitcast
  | Select | FixedArray | Alloc | Store | Load

fun icmp_aux :: "icmp_opcode \<Rightarrow> nat" where
  "icmp_aux ICmp_EQ = 0x8" | "icmp_aux ICmp_NE = 0x9"
| "icmp_aux ICmp_UGT = 0" | "icmp_aux ICmp_UGE = 1" | "icmp_aux ICmp_ULT = 2" | "icmp_aux ICmp_ULE = 3"
| "icmp_aux ICmp_SGT = 4" | "icmp_aux ICmp_SGE = 5" | "icmp_aux ICmp_SLT = 6" | "icmp_aux ICmp_SLE = 7"

fun fcmp_aux :: "fcmp_opcode \<Rightarrow> nat" where
  "fcmp_aux FCmp_EQ = 0" | "fcmp_aux FCmp_GT = 1" | "fcmp_aux FCmp_GE = 2"
| "fcmp_aux FCmp_LT = 3" | "fcmp_aux FCmp_LE = 4" | "fcmp_aux FCmp_NE = 5"

text \<open>The table of \<^verbatim>\<open>Operation.def\<close>: base, number of arguments, auxiliary bits.\<close>

fun opcode_parts :: "opcode \<Rightarrow> nat \<times> nat \<times> nat" where
  "opcode_parts Invalid = (0, 0, 0)"
| "opcode_parts ConstantNamed = (1, 0, 0)" | "opcode_parts ConstantNumbered = (1, 0, 1)"
| "opcode_parts ConstantInt = (1, 0, 5)" | "opcode_parts ConstantFloat = (1, 0, 6)"
| "opcode_parts ConstantArray = (1, 1, 7)" | "opcode_parts FunctionObject = (1, 0, 8)"
| "opcode_parts EGraphNode = (1, 0, 9)" | "opcode_parts Undef = (1, 0, 15)"
| "opcode_parts Add = (2, 2, 0)" | "opcode_parts Sub = (2, 2, 1)" | "opcode_parts Mul = (2, 2, 2)"
| "opcode_parts UDiv = (2, 2, 3)" | "opcode_parts SDiv = (2, 2, 4)" | "opcode_parts URem = (2, 2, 5)"
| "opcode_parts SRem = (2, 2, 6)" | "opcode_parts And = (2, 2, 7)" | "opcode_parts Or = (2, 2, 8)"
| "opcode_parts Xor = (2, 2, 9)" | "opcode_parts Shl = (2, 2, 10)" | "opcode_parts LShr = (2, 2, 11)"
| "opcode_parts AShr = (2, 2, 12)"
| "opcode_parts FAdd = (3, 2, 0)" | "opcode_parts FSub = (3, 2, 1)" | "opcode_parts FMul = (3, 2, 2)"
| "opcode_parts FDiv = (3, 2, 3)" | "opcode_parts FRem = (3, 2, 4)"
| "opcode_parts (ICmp c) = (5, 2, icmp_aux c)" | "opcode_parts (FCmp c) = (4, 2, fcmp_aux c)"
| "opcode_parts Not = (10, 1, 0)" | "opcode_parts FNeg = (10, 1, 1)" | "opcode_parts FIsNaN = (10, 1, 2)"
| "opcode_parts Trunc = (11, 1, 0)" | "opcode_parts SExt = (11, 1, 1)" | "opcode_parts ZExt = (11, 1, 2)"
| "opcode_parts FpTrunc = (11, 1, 3)" | "opcode_parts FpExt = (11, 1, 4)" | "opcode_parts FpToUI = (11, 1, 5)"
| "opcode_parts FpToSI = (11, 1, 6)" | "opcode_parts UIToFp = (11, 1, 7)" | "opcode_parts SIToFp = (11, 1, 8)"
| "opcode_parts Bitcast = (11, 1, 9)"
| "opcode_parts Select = (20, 3, 0)" | "opcode_parts FixedArray = (21, 4, 0)"
| "opcode_parts Alloc = (21, 2, 0)" | "opcode_parts Store = (21, 3, 1)" | "opcode_parts Load = (21, 2, 2)"

text \<open>\<^verbatim>\<open>detail::opcode\<close> and its projections, in 16-bit arithmetic.\<close>

definition detail_opcode :: "nat \<Rightarrow> nat \<Rightarrow> nat \<Rightarrow> nat option" where
  "detail_opcode base nargs aux = do {
     ensure (nargs < 8); ensure (aux < 0x10);
     Some (or (or (push_bit 7 base) (push_bit 3 aux)) nargs mod 2 ^ 16) }"

definition opcode_nargs :: "nat \<Rightarrow> nat" where "opcode_nargs c = and c 0x7"
definition opcode_aux :: "nat \<Rightarrow> nat" where "opcode_aux c = and (drop_bit 3 c) 0xF"
definition opcode_base :: "nat \<Rightarrow> nat" where "opcode_base c = drop_bit 7 c"

text \<open>The value of an enumerator; every table entry passes the checks of \<^verbatim>\<open>detail::opcode\<close>.\<close>

definition opcode_num :: "opcode \<Rightarrow> nat" where
  "opcode_num c = (case opcode_parts c of (b, n, a) \<Rightarrow> the (detail_opcode b n a))"

definition binary_op_first :: nat where "binary_op_first = opcode_num Add"
definition binary_op_last :: nat where "binary_op_last = opcode_num (FCmp FCmp_NE) + 1"
definition unary_op_first :: nat where "unary_op_first = opcode_num Not"
definition unary_op_last :: nat where "unary_op_last = opcode_num Bitcast + 1"

section \<open>Nodes\<close>

datatype ('i, 'f) opdata =
    OperationData opcode ty
  | ConstantData opcode ty symbol
  | ConstantIntData ty 'i
  | ConstantFloatData ty 'f
  | FunctionObjectData ty nat
  | EGraphNodeData ty nat

fun data_opcode :: "('i, 'f) opdata \<Rightarrow> opcode" where
  "data_opcode (OperationData c t) = c"
| "data_opcode (ConstantData c t s) = c"
| "data_opcode (ConstantIntData t i) = ConstantInt"
| "data_opcode (ConstantFloatData t f) = ConstantFloat"
| "data_opcode (FunctionObjectData t f) = FunctionObject"
| "data_opcode (EGraphNodeData t n) = EGraphNode"

fun data_type :: "('i, 'f) opdata \<Rightarrow> ty" where
  "data_type (OperationData c t) = t"
| "data_type (ConstantData c t s) = t"
| "data_type (ConstantIntData t i) = t"
| "data_type (ConstantFloatData t f) = t"
| "data_type (FunctionObjectData t f) = t"
| "data_type (EGraphNodeData t n) = t"

definition mk_constant_data :: "ty \<Rightarrow> symbol \<Rightarrow> ('i, 'f) opdata" where
  "mk_constant_data t s =
     ConstantData (if is_array t then ConstantArray else if is_named s then ConstantNamed else ConstantNumbered) t s"

definition mk_constant_int_data :: "('i, 'f, 'z) llvm_scheme \<Rightarrow> 'i \<Rightarrow> ('i, 'f) opdata option" where
  "mk_constant_int_data L i = do { t \<leftarrow> type_of_apint L i; Some (ConstantIntData t i) }"

definition mk_constant_float_data :: "('i, 'f, 'z) llvm_scheme \<Rightarrow> 'f \<Rightarrow> ('i, 'f) opdata option" where
  "mk_constant_float_data L f = do { t \<leftarrow> type_of_apfloat L f; Some (ConstantFloatData t f) }"

definition mk_function_data :: "nat \<Rightarrow> ('i, 'f) opdata option" where
  "mk_function_data f = do { t \<leftarrow> from_llvm LPointer; Some (FunctionObjectData t f) }"

datatype ('i, 'f) op = Operation (op_data: "('i, 'f) opdata") (operands: "('i, 'f) op list")

type_synonym ('i, 'f) folder = "('i, 'f) op \<Rightarrow> ('i, 'f) op option"

record ('i, 'f) ctx = "('i, 'f) llvm" +
  same_ref :: "('i, 'f) op \<Rightarrow> ('i, 'f) op \<Rightarrow> bool"

definition op_type :: "('i, 'f) op \<Rightarrow> ty" where "op_type op = data_type (op_data op)"
definition op_opcode :: "('i, 'f) op \<Rightarrow> opcode" where "op_opcode op = data_opcode (op_data op)"
definition num_operands :: "('i, 'f) op \<Rightarrow> nat" where "num_operands op = length (operands op)"
definition op_valid :: "('i, 'f) op \<Rightarrow> bool" where "op_valid op \<longleftrightarrow> op_opcode op \<noteq> Invalid"
definition is_constant :: "('i, 'f) op \<Rightarrow> bool" where "is_constant op \<longleftrightarrow> opcode_base (opcode_num (op_opcode op)) = 1"

text \<open>The constructor of \<^verbatim>\<open>Operation\<close>: the operand count is checked unless the opcode says 4.\<close>

definition mk_operation :: "('i, 'f) opdata \<Rightarrow> ('i, 'f) op list \<Rightarrow> ('i, 'f) op option" where
  "mk_operation d ops = do {
     let n = opcode_nargs (opcode_num (data_opcode d));
     ensure (n \<noteq> 4 \<longrightarrow> n = length ops);
     Some (Operation d ops) }"

definition operand_at :: "('i, 'f) op \<Rightarrow> nat \<Rightarrow> ('i, 'f) op option" where
  "operand_at op i = do { ensure (i < num_operands op); Some (operands op ! i) }"

definition aux_data :: "('i, 'f) op \<Rightarrow> nat" where
  "aux_data op = opcode_aux (opcode_num (op_opcode op))"

section \<open>Class tests\<close>

definition isa_binary :: "('i, 'f) op \<Rightarrow> bool" where
  "isa_binary op \<longleftrightarrow> binary_op_first \<le> opcode_num (op_opcode op) \<and> opcode_num (op_opcode op) \<le> binary_op_last"

definition isa_unary :: "('i, 'f) op \<Rightarrow> bool" where
  "isa_unary op \<longleftrightarrow> unary_op_first \<le> opcode_num (op_opcode op) \<and> opcode_num (op_opcode op) \<le> unary_op_last"

definition isa_icmp :: "('i, 'f) op \<Rightarrow> bool" where
  "isa_icmp op \<longleftrightarrow> the (detail_opcode 5 0 0) \<le> opcode_num (op_opcode op) \<and> opcode_num (op_opcode op) \<le> the (detail_opcode 5 3 0xF)"

definition isa_fcmp :: "('i, 'f) op \<Rightarrow> bool" where
  "isa_fcmp op \<longleftrightarrow> the (detail_opcode 4 0 0) \<le> opcode_num (op_opcode op) \<and> opcode_num (op_opcode op) \<le> the (detail_opcode 4 3 0xF)"

definition isa_constant :: "('i, 'f) op \<Rightarrow> bool" where
  "isa_constant op \<longleftrightarrow> op_opcode op = ConstantNamed \<or> op_opcode op = ConstantNumbered"

definition isa_array_base :: "('i, 'f) op \<Rightarrow> bool" where
  "isa_array_base op \<longleftrightarrow> op_opcode op = Alloc \<or> op_opcode op = Store \<or> op_opcode op = FixedArray"

definition icmp_is_signed :: "('i, 'f) op \<Rightarrow> bool" where
  "icmp_is_signed op \<longleftrightarrow> aux_data op < icmp_aux ICmp_EQ \<and> and (aux_data op) (push_bit 2 1) \<noteq> 0"

definition icmp_is_unsigned :: "('i, 'f) op \<Rightarrow> bool" where
  "icmp_is_unsigned op \<longleftrightarrow> aux_data op < icmp_aux ICmp_EQ \<and> \<not> and (aux_data op) (push_bit 2 1) \<noteq> 0"

definition fcmp_is_ordered :: "('i, 'f) op \<Rightarrow> bool" where
  "fcmp_is_ordered op \<longleftrightarrow> and (aux_data op) 8 \<noteq> 0"

text \<open>\<^verbatim>\<open>dyn_cast<ConstantInt>\<close> and \<^verbatim>\<open>dyn_cast<ConstantFloat>\<close>, with the payload.\<close>

definition as_const_int :: "('i, 'f) op \<Rightarrow> 'i option" where
  "as_const_int op = (case op_data op of ConstantIntData _ i \<Rightarrow> Some i | _ \<Rightarrow> None)"

definition as_const_float :: "('i, 'f) op \<Rightarrow> 'f option" where
  "as_const_float op = (case op_data op of ConstantFloatData _ f \<Rightarrow> Some f | _ \<Rightarrow> None)"

section \<open>The opcode encoding\<close>

lemma detail_opcode_value:
  assumes "base < 512" "nargs < 8" "aux < 16"
  shows "detail_opcode base nargs aux = Some (base * 128 + aux * 8 + nargs)"
proof -
  have a: "or (push_bit 7 base) (push_bit 3 aux) = push_bit 3 (base * 16 + aux)"
    using push_or_add [of "push_bit 3 aux" 7 base] assms(3) by (simp add: push_bit_eq_mult)
  have "or (push_bit 3 (base * 16 + aux)) nargs = base * 128 + aux * 8 + nargs"
    using push_or_add [of nargs 3 "base * 16 + aux"] assms(2) by (simp add: algebra_simps)
  then show ?thesis using assms by (simp add: detail_opcode_def a)
qed

lemma opcode_decode:
  assumes "nargs < 8" "aux < 16"
  shows "opcode_nargs (base * 128 + aux * 8 + nargs) = nargs"
    and "opcode_aux (base * 128 + aux * 8 + nargs) = aux"
    and "opcode_base (base * 128 + aux * 8 + nargs) = base"
proof -
  have e: "base * 128 + aux * 8 + nargs = nargs + 8 * (aux + 16 * base)" by simp
  have d: "(base * 128 + aux * 8 + nargs) div 8 = aux + 16 * base" unfolding e using assms(1) by simp
  have "(base * 128 + aux * 8 + nargs) div 128 = (base * 128 + aux * 8 + nargs) div 8 div 16"
    by (simp only: div_mult2_eq [symmetric]) simp
  also have "\<dots> = base" unfolding d using assms(2) by simp
  finally have "(base * 128 + aux * 8 + nargs) div 128 = base" .
  moreover have "(base * 128 + aux * 8 + nargs) mod 8 = nargs"
    unfolding e using assms(1) by (simp only: mod_mult_self2 mod_less)
  moreover have "(base * 128 + aux * 8 + nargs) div 8 mod 16 = aux"
    unfolding d using assms(2) by (simp only: mod_mult_self2 mod_less)
  ultimately show "opcode_nargs (base * 128 + aux * 8 + nargs) = nargs"
    and "opcode_aux (base * 128 + aux * 8 + nargs) = aux"
    and "opcode_base (base * 128 + aux * 8 + nargs) = base"
    using and_low_mask [of _ 3] and_low_mask [of _ 4]
    by (simp_all add: opcode_nargs_def opcode_aux_def opcode_base_def drop_bit_eq_div)
qed

lemma opcode_parts_bounds:
  "opcode_parts c = (b, n, a) \<Longrightarrow> b < 512 \<and> n < 8 \<and> a < 16"
proof (cases c)
  case (ICmp p)
  then show "opcode_parts c = (b, n, a) \<Longrightarrow> ?thesis" by (cases p) auto
next
  case (FCmp p)
  then show "opcode_parts c = (b, n, a) \<Longrightarrow> ?thesis" by (cases p) auto
qed auto

lemma opcode_num_value:
  "opcode_parts c = (b, n, a) \<Longrightarrow> opcode_num c = b * 128 + a * 8 + n"
  using opcode_parts_bounds [of c b n a] by (simp add: opcode_num_def detail_opcode_value)

lemma opcode_num_nargs [ir_simps]: "opcode_nargs (opcode_num c) = fst (snd (opcode_parts c))"
proof -
  obtain b n a where p: "opcode_parts c = (b, n, a)" by (metis prod_cases3)
  then show ?thesis using opcode_parts_bounds [OF p] by (simp add: opcode_num_value [OF p] opcode_decode)
qed

text \<open>The test \<^verbatim>\<open>(op & 0x3) == n\<close> of the \<^verbatim>\<open>Create\<close> functions.\<close>

lemma opcode_num_low: "and (opcode_num c) 0x3 = fst (snd (opcode_parts c)) mod 4"
proof -
  obtain b n a where p: "opcode_parts c = (b, n, a)" by (metis prod_cases3)
  have e: "b * 128 + a * 8 + n = n + 4 * (32 * b + 2 * a)" by simp
  have "and (opcode_num c) 0x3 = (b * 128 + a * 8 + n) mod 4"
    using and_low_mask [of "opcode_num c" 2] by (simp add: opcode_num_value [OF p])
  also have "\<dots> = n mod 4" unfolding e by (rule mod_mult_self2)
  finally show ?thesis using p by simp
qed

lemma mk_operation_Some [ir_simps]:
  "mk_operation d ops = Some x \<longleftrightarrow>
     (fst (snd (opcode_parts (data_opcode d))) \<noteq> 4 \<longrightarrow> fst (snd (opcode_parts (data_opcode d))) = length ops)
   \<and> x = Operation d ops"
  by (auto simp: mk_operation_def Let_def Option.bind_eq_Some_conv opcode_num_nargs)

definition icmp_opcodes :: "icmp_opcode list" where
  "icmp_opcodes = [ICmp_EQ, ICmp_NE, ICmp_UGT, ICmp_UGE, ICmp_ULT, ICmp_ULE, ICmp_SGT, ICmp_SGE, ICmp_SLT, ICmp_SLE]"

definition fcmp_opcodes :: "fcmp_opcode list" where
  "fcmp_opcodes = [FCmp_EQ, FCmp_GT, FCmp_GE, FCmp_LT, FCmp_LE, FCmp_NE]"

definition all_opcodes :: "opcode list" where
  "all_opcodes =
     [Invalid, ConstantNamed, ConstantNumbered, ConstantInt, ConstantFloat, ConstantArray, FunctionObject, EGraphNode, Undef,
      Add, Sub, Mul, UDiv, SDiv, URem, SRem, And, Or, Xor, Shl, LShr, AShr, FAdd, FSub, FMul, FDiv, FRem]
     @ map ICmp icmp_opcodes @ map FCmp fcmp_opcodes
     @ [Not, FNeg, FIsNaN, Trunc, SExt, ZExt, FpTrunc, FpExt, FpToUI, FpToSI, UIToFp, SIToFp, Bitcast,
        Select, FixedArray, Alloc, Store, Load]"

lemma in_all_opcodes: "c \<in> set all_opcodes"
proof (cases c)
  case (ICmp p)
  then show ?thesis by (cases p) (simp_all add: all_opcodes_def icmp_opcodes_def)
next
  case (FCmp p)
  then show ?thesis by (cases p) (simp_all add: all_opcodes_def fcmp_opcodes_def)
qed (simp_all add: all_opcodes_def)

lemma distinct_opcode_parts: "distinct (map opcode_parts all_opcodes)"
  by (simp add: all_opcodes_def icmp_opcodes_def fcmp_opcodes_def)

text \<open>
  The 16-bit opcode of every operation determines the operation, and its bit fields give back
  the argument count, the auxiliary data and the base that \<^verbatim>\<open>Operation.def\<close> lists for it.
\<close>

theorem opcode_encoding:
  "inj opcode_num \<and> (\<forall>c. opcode_num c < 2 ^ 16
     \<and> (opcode_base (opcode_num c), opcode_nargs (opcode_num c), opcode_aux (opcode_num c)) = opcode_parts c)"
proof -
  have dec: "(opcode_base (opcode_num c), opcode_nargs (opcode_num c), opcode_aux (opcode_num c)) = opcode_parts c
      \<and> opcode_num c < 2 ^ 16" for c
  proof -
    obtain b n a where p: "opcode_parts c = (b, n, a)" by (metis prod_cases3)
    then show ?thesis using opcode_parts_bounds [OF p] by (simp add: opcode_num_value [OF p] opcode_decode)
  qed
  have "inj_on opcode_parts (set all_opcodes)" using distinct_opcode_parts by (simp add: distinct_map)
  then have "opcode_parts c = opcode_parts c' \<Longrightarrow> c = c'" for c c'
    using in_all_opcodes by (meson inj_onD)
  then have "inj opcode_num" using dec by (intro injI) metis
  then show ?thesis using dec by blast
qed

text \<open>
  C34: \<^verbatim>\<open>BinaryOp::classof\<close> accepts exactly the arithmetic, bitwise and floating-point operations: it
  rejects every integer comparison although \<^verbatim>\<open>ICmpOp\<close> is derived from \<^verbatim>\<open>BinaryOp\<close>, because the range
  ends at the last floating-point comparison and integer comparisons are numbered above it.
\<close>

theorem binary_classof_rejects_icmp:
  "isa_binary (Operation (OperationData (FCmp q) t) ops) \<and> \<not> isa_binary (Operation (OperationData (ICmp p) t) ops)"
proof -
  have f: "binary_op_first = 258" "binary_op_last = 555"
    by (simp_all add: binary_op_first_def binary_op_last_def opcode_num_def detail_opcode_value)
  have "opcode_num (ICmp p) \<ge> 642" by (simp add: opcode_num_value)
  moreover have "258 \<le> opcode_num (FCmp q) \<and> opcode_num (FCmp q) \<le> 554"
    by (cases q) (simp_all add: opcode_num_value)
  ultimately show ?thesis by (simp add: isa_binary_def op_opcode_def f)
qed

end
