(* ===== verification/IR_Create.thy ===== *)
theory IR_Create
  imports IR_Operation
begin

text \<open>
  The \<^verbatim>\<open>Create\<close> functions of \<^verbatim>\<open>src/IR/Operation.cpp\<close>, the helpers of \<^verbatim>\<open>src/IR/Operation.h\<close> and of
  \<^verbatim>\<open>src/IR/Operations\<close>, and the node operations of \<^verbatim>\<open>src/IR/OperationBase.cpp\<close> that build new nodes. The argument
  \<open>cf\<close> is \<^verbatim>\<open>constant_fold\<close>.
\<close>

section \<open>Leaves\<close>

definition CreateConstant :: "('i, 'f) folder \<Rightarrow> ty \<Rightarrow> symbol \<Rightarrow> ('i, 'f) op option" where
  "CreateConstant cf t s = do { n \<leftarrow> mk_operation (mk_constant_data t s) []; cf n }"

definition CreateConstantInt :: "('i, 'f, 'z) llvm_scheme \<Rightarrow> ('i, 'f) folder \<Rightarrow> 'i \<Rightarrow> ('i, 'f) op option" where
  "CreateConstantInt L cf i = do { d \<leftarrow> mk_constant_int_data L i; n \<leftarrow> mk_operation d []; cf n }"

definition CreateBool :: "('i, 'f, 'z) llvm_scheme \<Rightarrow> ('i, 'f) folder \<Rightarrow> bool \<Rightarrow> ('i, 'f) op option" where
  "CreateBool L cf b = CreateConstantInt L cf (ap_make L 1 (if b then 1 else 0))"

definition CreateIntOfValue :: "('i, 'f, 'z) llvm_scheme \<Rightarrow> ('i, 'f) folder \<Rightarrow> ('i, 'f) ir_value \<Rightarrow> ('i, 'f) op option" where
  "CreateIntOfValue L cf v = do { i \<leftarrow> apint v; CreateConstantInt L cf i }"

definition CreateZero :: "('i, 'f, 'z) llvm_scheme \<Rightarrow> ('i, 'f) folder \<Rightarrow> nat \<Rightarrow> ('i, 'f) op option" where
  "CreateZero L cf w = CreateConstantInt L cf (ap_make L w 0)"

definition CreateConstantFloat :: "('i, 'f, 'z) llvm_scheme \<Rightarrow> ('i, 'f) folder \<Rightarrow> 'f \<Rightarrow> ('i, 'f) op option" where
  "CreateConstantFloat L cf f = do { d \<leftarrow> mk_constant_float_data L f; n \<leftarrow> mk_operation d []; cf n }"

definition CreateDouble :: "('i, 'f, 'z) llvm_scheme \<Rightarrow> ('i, 'f) folder \<Rightarrow> nat \<Rightarrow> ('i, 'f) op option" where
  "CreateDouble L cf x = CreateConstantFloat L cf (fl_of_double L x)"

definition CreateConstantArray :: "('i, 'f) folder \<Rightarrow> symbol \<Rightarrow> ('i, 'f) op \<Rightarrow> ('i, 'f) op option" where
  "CreateConstantArray cf s sz = do {
     ensure (is_int (op_type sz));
     w \<leftarrow> bitwidth (op_type sz);
     t \<leftarrow> array_ty w;
     n \<leftarrow> mk_operation (mk_constant_data t s) [sz];
     cf n }"

definition CreateUndef :: "('i, 'f) folder \<Rightarrow> ty \<Rightarrow> ('i, 'f) op option" where
  "CreateUndef cf t = do { n \<leftarrow> mk_operation (OperationData Undef t) []; cf n }"

definition CreateFunctionObject :: "('i, 'f) folder \<Rightarrow> nat \<Rightarrow> ('i, 'f) op option" where
  "CreateFunctionObject cf f = do { d \<leftarrow> mk_function_data f; n \<leftarrow> mk_operation d []; cf n }"

definition CreateEGraphNode :: "('i, 'f) folder \<Rightarrow> ty \<Rightarrow> nat \<Rightarrow> ('i, 'f) op option" where
  "CreateEGraphNode cf t n = do { x \<leftarrow> mk_operation (EGraphNodeData t n) []; cf x }"

section \<open>Binary operations\<close>

definition CreateBinary :: "('i, 'f) folder \<Rightarrow> opcode \<Rightarrow> ('i, 'f) op \<Rightarrow> ('i, 'f) op \<Rightarrow> ('i, 'f) op option" where
  "CreateBinary cf c lhs rhs = do {
     ensure (and (opcode_num c) 0x3 = 2);
     ensure (op_type lhs = op_type rhs);
     n \<leftarrow> mk_operation (OperationData c (op_type lhs)) [lhs, rhs];
     cf n }"

text \<open>The macro \<^verbatim>\<open>DECL_BINOP_CREATE\<close> for the opcodes on integers and on floats.\<close>

definition create_int_binop :: "('i, 'f) folder \<Rightarrow> opcode \<Rightarrow> ('i, 'f) op \<Rightarrow> ('i, 'f) op \<Rightarrow> ('i, 'f) op option" where
  "create_int_binop cf c lhs rhs = do {
     ensure (is_int (op_type lhs)); ensure (is_int (op_type rhs)); CreateBinary cf c lhs rhs }"

definition create_float_binop :: "('i, 'f) folder \<Rightarrow> opcode \<Rightarrow> ('i, 'f) op \<Rightarrow> ('i, 'f) op \<Rightarrow> ('i, 'f) op option" where
  "create_float_binop cf c lhs rhs = do {
     ensure (is_float (op_type lhs)); ensure (is_float (op_type rhs)); CreateBinary cf c lhs rhs }"

definition CreateAdd where "CreateAdd cf = create_int_binop cf Add"
definition CreateSub where "CreateSub cf = create_int_binop cf Sub"
definition CreateMul where "CreateMul cf = create_int_binop cf Mul"
definition CreateUDiv where "CreateUDiv cf = create_int_binop cf UDiv"
definition CreateSDiv where "CreateSDiv cf = create_int_binop cf SDiv"
definition CreateURem where "CreateURem cf = create_int_binop cf URem"
definition CreateSRem where "CreateSRem cf = create_int_binop cf SRem"
definition CreateAnd where "CreateAnd cf = create_int_binop cf And"
definition CreateOr where "CreateOr cf = create_int_binop cf Or"
definition CreateXor where "CreateXor cf = create_int_binop cf Xor"
definition CreateShl where "CreateShl cf = create_int_binop cf Shl"
definition CreateLShr where "CreateLShr cf = create_int_binop cf LShr"
definition CreateAShr where "CreateAShr cf = create_int_binop cf AShr"
definition CreateFAdd where "CreateFAdd cf = create_float_binop cf FAdd"
definition CreateFSub where "CreateFSub cf = create_float_binop cf FSub"
definition CreateFMul where "CreateFMul cf = create_float_binop cf FMul"
definition CreateFDiv where "CreateFDiv cf = create_float_binop cf FDiv"
definition CreateFRem where "CreateFRem cf = create_float_binop cf FRem"

text \<open>\<^verbatim>\<open>DEF_INT_BINOP_CONST_CREATE\<close>: one operand is an \<^verbatim>\<open>int64_t\<close>.\<close>

definition create_binop_const_rhs ::
  "('i, 'f, 'z) llvm_scheme \<Rightarrow> ('i, 'f) folder \<Rightarrow> opcode \<Rightarrow> ('i, 'f) op \<Rightarrow> int \<Rightarrow> ('i, 'f) op option" where
  "create_binop_const_rhs L cf c lhs rhs = do {
     ensure (is_int (op_type lhs));
     w \<leftarrow> bitwidth (op_type lhs);
     k \<leftarrow> CreateConstantInt L cf (ap_make_signed L w rhs);
     create_int_binop cf c lhs k }"

definition create_binop_const_lhs ::
  "('i, 'f, 'z) llvm_scheme \<Rightarrow> ('i, 'f) folder \<Rightarrow> opcode \<Rightarrow> int \<Rightarrow> ('i, 'f) op \<Rightarrow> ('i, 'f) op option" where
  "create_binop_const_lhs L cf c lhs rhs = do {
     ensure (is_int (op_type rhs));
     w \<leftarrow> bitwidth (op_type rhs);
     k \<leftarrow> CreateConstantInt L cf (ap_make_signed L w lhs);
     create_int_binop cf c k rhs }"

section \<open>Unary operations\<close>

definition CreateUnary :: "('i, 'f) folder \<Rightarrow> opcode \<Rightarrow> ('i, 'f) op \<Rightarrow> ty \<Rightarrow> ('i, 'f) op option" where
  "CreateUnary cf c x t = do {
     ensure (and (opcode_num c) 0x3 = 1);
     n \<leftarrow> mk_operation (OperationData c t) [x];
     cf n }"

definition CreateNot :: "('i, 'f) folder \<Rightarrow> ('i, 'f) op \<Rightarrow> ('i, 'f) op option" where
  "CreateNot cf x = do { ensure (is_int (op_type x)); CreateUnary cf Not x (op_type x) }"

definition CreateFNeg :: "('i, 'f) folder \<Rightarrow> ('i, 'f) op \<Rightarrow> ('i, 'f) op option" where
  "CreateFNeg cf x = do { ensure (is_float (op_type x)); CreateUnary cf FNeg x (op_type x) }"

definition CreateFIsNaN :: "('i, 'f) folder \<Rightarrow> ('i, 'f) op \<Rightarrow> ('i, 'f) op option" where
  "CreateFIsNaN cf x = do { ensure (is_float (op_type x)); t \<leftarrow> int_ty 1; CreateUnary cf FIsNaN x t }"

definition CreateTrunc :: "('i, 'f) folder \<Rightarrow> ty \<Rightarrow> ('i, 'f) op \<Rightarrow> ('i, 'f) op option" where
  "CreateTrunc cf tgt x = do {
     ensure (is_int tgt); ensure (is_int (op_type x));
     n \<leftarrow> bitwidth tgt; w \<leftarrow> bitwidth (op_type x);
     ensure (n \<le> w);
     CreateUnary cf Trunc x tgt }"

definition CreateZExt :: "('i, 'f) folder \<Rightarrow> ty \<Rightarrow> ('i, 'f) op \<Rightarrow> ('i, 'f) op option" where
  "CreateZExt cf tgt x = do {
     ensure (is_int tgt); ensure (is_int (op_type x));
     n \<leftarrow> bitwidth tgt; w \<leftarrow> bitwidth (op_type x);
     ensure (n \<ge> w);
     CreateUnary cf ZExt x tgt }"

definition CreateSExt :: "('i, 'f) folder \<Rightarrow> ty \<Rightarrow> ('i, 'f) op \<Rightarrow> ('i, 'f) op option" where
  "CreateSExt cf tgt x = do {
     ensure (is_int tgt); ensure (is_int (op_type x));
     n \<leftarrow> bitwidth tgt; w \<leftarrow> bitwidth (op_type x);
     ensure (n \<ge> w);
     CreateUnary cf SExt x tgt }"

definition CreateFpTrunc :: "('i, 'f) folder \<Rightarrow> ty \<Rightarrow> ('i, 'f) op \<Rightarrow> ('i, 'f) op option" where
  "CreateFpTrunc cf tgt x = do {
     ensure (is_float tgt); ensure (is_float (op_type x));
     e \<leftarrow> exponent_bits tgt; e' \<leftarrow> exponent_bits (op_type x);
     m \<leftarrow> mantissa_bits tgt; m' \<leftarrow> mantissa_bits (op_type x);
     ensure (e < e' \<and> m < m');
     CreateUnary cf FpTrunc x tgt }"

definition CreateFpExt :: "('i, 'f) folder \<Rightarrow> ty \<Rightarrow> ('i, 'f) op \<Rightarrow> ('i, 'f) op option" where
  "CreateFpExt cf tgt x = do {
     ensure (is_float tgt); ensure (is_float (op_type x));
     e \<leftarrow> exponent_bits tgt; e' \<leftarrow> exponent_bits (op_type x);
     m \<leftarrow> mantissa_bits tgt; m' \<leftarrow> mantissa_bits (op_type x);
     ensure (e > e' \<and> m > m');
     CreateUnary cf FpExt x tgt }"

definition CreateFpToUI :: "('i, 'f) folder \<Rightarrow> ty \<Rightarrow> ('i, 'f) op \<Rightarrow> ('i, 'f) op option" where
  "CreateFpToUI cf tgt x = do { ensure (is_int tgt); ensure (is_float (op_type x)); CreateUnary cf FpToUI x tgt }"

definition CreateFpToSI :: "('i, 'f) folder \<Rightarrow> ty \<Rightarrow> ('i, 'f) op \<Rightarrow> ('i, 'f) op option" where
  "CreateFpToSI cf tgt x = do { ensure (is_int tgt); ensure (is_float (op_type x)); CreateUnary cf FpToSI x tgt }"

definition CreateUIToFp :: "('i, 'f) folder \<Rightarrow> ty \<Rightarrow> ('i, 'f) op \<Rightarrow> ('i, 'f) op option" where
  "CreateUIToFp cf tgt x = do { ensure (is_float tgt); ensure (is_int (op_type x)); CreateUnary cf UIToFp x tgt }"

definition CreateSIToFp :: "('i, 'f) folder \<Rightarrow> ty \<Rightarrow> ('i, 'f) op \<Rightarrow> ('i, 'f) op option" where
  "CreateSIToFp cf tgt x = do { ensure (is_float tgt); ensure (is_int (op_type x)); CreateUnary cf SIToFp x tgt }"

definition CreateBitcast :: "('i, 'f) folder \<Rightarrow> ty \<Rightarrow> ('i, 'f) op \<Rightarrow> ('i, 'f) op option" where
  "CreateBitcast cf tgt x = CreateUnary cf Bitcast x tgt"

definition CreateTruncOrZExt :: "('i, 'f) folder \<Rightarrow> ty \<Rightarrow> ('i, 'f) op \<Rightarrow> ('i, 'f) op option" where
  "CreateTruncOrZExt cf tgt x = do {
     ensure (is_int (op_type x)); ensure (is_int tgt);
     n \<leftarrow> bitwidth tgt; w \<leftarrow> bitwidth (op_type x);
     if n < w then CreateTrunc cf tgt x else if n > w then CreateZExt cf tgt x else Some x }"

definition CreateTruncOrSExt :: "('i, 'f) folder \<Rightarrow> ty \<Rightarrow> ('i, 'f) op \<Rightarrow> ('i, 'f) op option" where
  "CreateTruncOrSExt cf tgt x = do {
     ensure (is_int (op_type x)); ensure (is_int tgt);
     n \<leftarrow> bitwidth tgt; w \<leftarrow> bitwidth (op_type x);
     if n < w then CreateTrunc cf tgt x else if n > w then CreateSExt cf tgt x else Some x }"

section \<open>Selection and comparison\<close>

definition CreateSelect :: "('i, 'f) folder \<Rightarrow> ('i, 'f) op \<Rightarrow> ('i, 'f) op \<Rightarrow> ('i, 'f) op \<Rightarrow> ('i, 'f) op option" where
  "CreateSelect cf c t f = do {
     b \<leftarrow> int_ty 1;
     ensure (op_type c = b);
     ensure (op_type t = op_type f);
     n \<leftarrow> mk_operation (OperationData Select (op_type t)) [c, t, f];
     cf n }"

definition CreateICmp :: "('i, 'f) folder \<Rightarrow> icmp_opcode \<Rightarrow> ('i, 'f) op \<Rightarrow> ('i, 'f) op \<Rightarrow> ('i, 'f) op option" where
  "CreateICmp cf c lhs rhs = do {
     ensure (op_type rhs = op_type lhs);
     ensure (is_int (op_type lhs));
     b \<leftarrow> int_ty 1;
     n \<leftarrow> mk_operation (OperationData (ICmp c) b) [lhs, rhs];
     cf n }"

text \<open>The literal is read as a 64-bit integer and resized to the width of the other operand.\<close>

definition CreateICmp_rhs ::
  "('i, 'f, 'z) llvm_scheme \<Rightarrow> ('i, 'f) folder \<Rightarrow> icmp_opcode \<Rightarrow> ('i, 'f) op \<Rightarrow> int \<Rightarrow> ('i, 'f) op option" where
  "CreateICmp_rhs L cf c lhs rhs = do {
     ensure (is_int (op_type lhs));
     w \<leftarrow> bitwidth (op_type lhs);
     k \<leftarrow> CreateConstantInt L cf (ap_sext_or_trunc L (ap_make L 64 (nat (rhs mod 2 ^ 64))) w);
     CreateICmp cf c lhs k }"

definition CreateICmp_lhs ::
  "('i, 'f, 'z) llvm_scheme \<Rightarrow> ('i, 'f) folder \<Rightarrow> icmp_opcode \<Rightarrow> int \<Rightarrow> ('i, 'f) op \<Rightarrow> ('i, 'f) op option" where
  "CreateICmp_lhs L cf c lhs rhs = do {
     ensure (is_int (op_type rhs));
     w \<leftarrow> bitwidth (op_type rhs);
     k \<leftarrow> CreateConstantInt L cf (ap_sext_or_trunc L (ap_make L 64 (nat (lhs mod 2 ^ 64))) w);
     CreateICmp cf c k rhs }"

definition CreateFCmp :: "('i, 'f) folder \<Rightarrow> fcmp_opcode \<Rightarrow> ('i, 'f) op \<Rightarrow> ('i, 'f) op \<Rightarrow> ('i, 'f) op option" where
  "CreateFCmp cf c lhs rhs = do {
     ensure (op_type rhs = op_type lhs);
     ensure (is_float (op_type lhs));
     b \<leftarrow> int_ty 1;
     n \<leftarrow> mk_operation (OperationData (FCmp c) b) [lhs, rhs];
     cf n }"

section \<open>Arrays\<close>

definition CreateAlloc :: "('i, 'f) folder \<Rightarrow> ('i, 'f) op \<Rightarrow> ('i, 'f) op \<Rightarrow> ('i, 'f) op option" where
  "CreateAlloc cf sz defaultval = do {
     ensure (is_int (op_type sz));
     b \<leftarrow> int_ty 8;
     ensure (op_type defaultval = b);
     w \<leftarrow> bitwidth (op_type sz);
     t \<leftarrow> array_ty w;
     n \<leftarrow> mk_operation (OperationData Alloc t) [sz, defaultval];
     cf n }"

definition CreateLoad :: "('i, 'f) folder \<Rightarrow> ('i, 'f) op \<Rightarrow> ('i, 'f) op \<Rightarrow> ('i, 'f) op option" where
  "CreateLoad cf data offset = do {
     ensure (is_int (op_type offset));
     b \<leftarrow> int_ty 8;
     n \<leftarrow> mk_operation (OperationData Load b) [data, offset];
     cf n }"

definition CreateStore :: "('i, 'f) folder \<Rightarrow> ('i, 'f) op \<Rightarrow> ('i, 'f) op \<Rightarrow> ('i, 'f) op \<Rightarrow> ('i, 'f) op option" where
  "CreateStore cf data offset val = do {
     ensure (is_int (op_type offset));
     b \<leftarrow> int_ty 8;
     ensure (op_type val = b);
     n \<leftarrow> mk_operation (OperationData Store (op_type data)) [data, offset, val];
     cf n }"

text \<open>\<^verbatim>\<open>ilog2\<close> of \<^verbatim>\<open>src/IR/Operation.h\<close>, in 64-bit unsigned arithmetic.\<close>

definition ilog2 :: "('i, 'f, 'z) llvm_scheme \<Rightarrow> nat \<Rightarrow> nat" where
  "ilog2 L x =
     (let ispow2 = (and x ((x + (2 ^ 64 - 1)) mod 2 ^ 64) = 0) in
      (2 ^ 64 + 64 - count_leading_zeros L x - (if ispow2 then 1 else 0)) mod 2 ^ 64)"

definition CreateFixedArray :: "('i, 'f, 'z) llvm_scheme \<Rightarrow> ('i, 'f) folder \<Rightarrow> ty \<Rightarrow> ('i, 'f) op list \<Rightarrow> ('i, 'f) op option" where
  "CreateFixedArray L cf index_ty data = do {
     ensure (is_int index_ty);
     w \<leftarrow> bitwidth index_ty;
     ensure (w \<ge> ilog2 L (length data));
     t \<leftarrow> array_ty w;
     n \<leftarrow> mk_operation (OperationData FixedArray t) data;
     cf n }"

definition CreateFixedArrayFill ::
  "('i, 'f, 'z) llvm_scheme \<Rightarrow> ('i, 'f) folder \<Rightarrow> ty \<Rightarrow> ('i, 'f) op \<Rightarrow> nat \<Rightarrow> ('i, 'f) op option" where
  "CreateFixedArrayFill L cf index_ty val n = CreateFixedArray L cf index_ty (replicate n val)"

text \<open>\<^verbatim>\<open>ArrayBase::size\<close>; below a store the operand must pass \<^verbatim>\<open>llvm::cast<ArrayBase>\<close>.\<close>

fun array_size :: "('i, 'f, 'z) llvm_scheme \<Rightarrow> ('i, 'f) folder \<Rightarrow> ('i, 'f) op \<Rightarrow> ('i, 'f) op option" where
  "array_size L cf (Operation d ops) =
     (case data_opcode d of
        Alloc \<Rightarrow> (case ops of x # _ \<Rightarrow> Some x | [] \<Rightarrow> None)
      | ConstantArray \<Rightarrow> (case ops of x # _ \<Rightarrow> Some x | [] \<Rightarrow> None)
      | Store \<Rightarrow> (case ops of x # _ \<Rightarrow> if isa_array_base x then array_size L cf x else None | [] \<Rightarrow> None)
      | FixedArray \<Rightarrow> do { w \<leftarrow> bitwidth (data_type d); CreateConstantInt L cf (ap_make L w (length ops)) }
      | _ \<Rightarrow> None)"

section \<open>Rebuilding nodes\<close>

definition with_new_operands :: "('i, 'f, 'z) ctx_scheme \<Rightarrow> ('i, 'f) folder \<Rightarrow> ('i, 'f) op \<Rightarrow> ('i, 'f) op list \<Rightarrow> ('i, 'f) op option" where
  "with_new_operands S cf op ops = do {
     ensure (length ops = num_operands op);
     if num_operands op = 0 then Some op
     else if list_all2 (same_ref S) (operands op) ops then Some op
     else do { n \<leftarrow> mk_operation (op_data op) ops; cf n } }"

definition CreateRaw :: "('i, 'f) folder \<Rightarrow> ('i, 'f) opdata \<Rightarrow> ('i, 'f) op list \<Rightarrow> ('i, 'f) op option" where
  "CreateRaw cf d ops = do {
     (if binary_op_first \<le> opcode_num (data_opcode d) \<and> opcode_num (data_opcode d) \<le> binary_op_last
      then case ops of x # y # _ \<Rightarrow> ensure (op_type x = op_type y) | _ \<Rightarrow> None
      else Some ());
     n \<leftarrow> mk_operation d ops;
     cf n }"

section \<open>Overflow circuits\<close>

definition extract_bit :: "('i, 'f, 'z) llvm_scheme \<Rightarrow> ('i, 'f) folder \<Rightarrow> ('i, 'f) op \<Rightarrow> nat \<Rightarrow> ('i, 'f) op option" where
  "extract_bit L cf x bt = do {
     ensure (is_int (op_type x));
     w \<leftarrow> bitwidth (op_type x);
     ensure (bt < w);
     t \<leftarrow> int_ty 1;
     s \<leftarrow> create_binop_const_rhs L cf LShr x (int bt);
     CreateTrunc cf t s }"

text \<open>The loop of \<^verbatim>\<open>CreateUMulOverflow\<close> over the indices still to do, with \<open>o\<close> and \<open>v\<close> as in the source.\<close>

fun umul_loop :: "('i, 'f, 'z) llvm_scheme \<Rightarrow> ('i, 'f) folder \<Rightarrow> ('i, 'f) op \<Rightarrow> ('i, 'f) op \<Rightarrow> nat \<Rightarrow> nat list \<Rightarrow>
    ('i, 'f) op \<Rightarrow> ('i, 'f) op \<Rightarrow> ('i, 'f) op option" where
  "umul_loop L cf a b w [] ov v = Some v"
| "umul_loop L cf a b w (i # is) ov v = do {
     ai \<leftarrow> extract_bit L cf a (w - i);
     ov' \<leftarrow> CreateOr cf ov ai;
     bi \<leftarrow> extract_bit L cf b i;
     c \<leftarrow> CreateAnd cf ov' bi;
     v' \<leftarrow> CreateOr cf v c;
     umul_loop L cf a b w is ov' v' }"

definition CreateUMulOverflow :: "('i, 'f, 'z) llvm_scheme \<Rightarrow> ('i, 'f) folder \<Rightarrow> ('i, 'f) op \<Rightarrow> ('i, 'f) op \<Rightarrow> ('i, 'f) op option" where
  "CreateUMulOverflow L cf a b = do {
     ensure (op_type a = op_type b);
     ensure (is_int (op_type a)); ensure (is_int (op_type b));
     w \<leftarrow> bitwidth (op_type a);
     if w < 2 then CreateBool L cf False
     else do {
       ov \<leftarrow> extract_bit L cf a (w - 1);
       top \<leftarrow> extract_bit L cf a (w - 1);
       b1 \<leftarrow> extract_bit L cf b 1;
       v \<leftarrow> CreateAnd cf top b1;
       v' \<leftarrow> umul_loop L cf a b w [2..<w] ov v;
       t \<leftarrow> int_ty (w + 1);
       za \<leftarrow> CreateZExt cf t a;
       zb \<leftarrow> CreateZExt cf t b;
       mult \<leftarrow> CreateMul cf za zb;
       mb \<leftarrow> extract_bit L cf mult w;
       CreateOr cf v' mb } }"

text \<open>The loop of \<^verbatim>\<open>CreateSMulOverflow\<close>.\<close>

fun smul_loop :: "('i, 'f, 'z) llvm_scheme \<Rightarrow> ('i, 'f) folder \<Rightarrow> ('i, 'f) op \<Rightarrow> ('i, 'f) op \<Rightarrow> nat \<Rightarrow> nat list \<Rightarrow>
    ('i, 'f) op \<Rightarrow> ('i, 'f) op \<Rightarrow> ('i, 'f) op option" where
  "smul_loop L cf ax bx w [] ov v = Some v"
| "smul_loop L cf ax bx w (i # is) ov v = do {
     ai \<leftarrow> extract_bit L cf ax (w - i - 1);
     ov' \<leftarrow> CreateOr cf ov ai;
     bi \<leftarrow> extract_bit L cf bx i;
     c \<leftarrow> CreateAnd cf ov' bi;
     v' \<leftarrow> CreateOr cf v c;
     smul_loop L cf ax bx w is ov' v' }"

definition CreateSMulOverflow :: "('i, 'f, 'z) llvm_scheme \<Rightarrow> ('i, 'f) folder \<Rightarrow> ('i, 'f) op \<Rightarrow> ('i, 'f) op \<Rightarrow> ('i, 'f) op option" where
  "CreateSMulOverflow L cf a b = do {
     ensure (op_type a = op_type b);
     ensure (is_int (op_type a)); ensure (is_int (op_type b));
     w \<leftarrow> bitwidth (op_type a);
     if w < 2 then CreateAnd cf a b
     else do {
       as \<leftarrow> create_binop_const_rhs L cf AShr a (int w - 1);
       ax \<leftarrow> CreateXor cf as a;
       bs \<leftarrow> create_binop_const_rhs L cf AShr b (int w - 1);
       bx \<leftarrow> CreateXor cf bs b;
       ov \<leftarrow> extract_bit L cf ax (w - 2);
       top \<leftarrow> extract_bit L cf ax (w - 2);
       b1 \<leftarrow> extract_bit L cf bx 1;
       v \<leftarrow> CreateAnd cf top b1;
       v' \<leftarrow> smul_loop L cf ax bx w [2..<w - 1] ov v;
       sa \<leftarrow> extract_bit L cf a (w - 1);
       sb \<leftarrow> extract_bit L cf b (w - 1);
       sign \<leftarrow> CreateICmp cf ICmp_EQ sa sb;
       t \<leftarrow> int_ty (w + 1);
       za \<leftarrow> CreateSExt cf t a;
       zb \<leftarrow> CreateSExt cf t b;
       mult \<leftarrow> CreateMul cf za zb;
       m1 \<leftarrow> extract_bit L cf mult w;
       m0 \<leftarrow> extract_bit L cf mult (w - 1);
       overflow1 \<leftarrow> CreateXor cf m1 m0;
       x \<leftarrow> CreateOr cf overflow1 v';
       CreateAnd cf sign x } }"

end
