(* ===== verification/IR_Simplifier.thy ===== *)
theory IR_Simplifier
  imports IR_Create
begin

text \<open>
  The simplifier that every \<^verbatim>\<open>Create\<close> function runs: \<^verbatim>\<open>src/IR/OperationSimplifier.cpp\<close> with the matchers of
  \<^verbatim>\<open>include/caffeine/IR/Matching.h\<close> and the dispatch of \<^verbatim>\<open>Visitor.inl\<close>. The visitors take \<^verbatim>\<open>constant_fold\<close> as the
  argument \<open>cf\<close>, through the \<^verbatim>\<open>Create\<close> functions they call; \<open>fold_depth\<close> closes the recursion with a bound
  on its depth and \<open>constant_fold\<close> fixes a bound that is always enough. The operation cache returns
  a node equal to the one it is asked for, so \<^verbatim>\<open>visitOperation\<close> and \<^verbatim>\<open>intern\<close> are the identity on nodes.
\<close>

section \<open>Matchers\<close>

definition match_binop :: "opcode \<Rightarrow> ('i, 'f) op \<Rightarrow> (('i, 'f) op \<times> ('i, 'f) op) option" where
  "match_binop c x = (if op_opcode x = c then case operands x of [l, r] \<Rightarrow> Some (l, r) | _ \<Rightarrow> None else None)"

definition match_unop :: "opcode \<Rightarrow> ('i, 'f) op \<Rightarrow> ('i, 'f) op option" where
  "match_unop c x = (if op_opcode x = c then case operands x of [y] \<Rightarrow> Some y | _ \<Rightarrow> None else None)"

definition match_const_int :: "('i, 'f) op \<Rightarrow> bool" where
  "match_const_int x \<longleftrightarrow> as_const_int x \<noteq> None"

text \<open>\<^verbatim>\<open>m::LShr(value, m::ConstantInt(shift))\<close>, and the two ways to write \<^verbatim>\<open>And\<close> with a constant mask.\<close>

definition match_lshr_const :: "('i, 'f) op \<Rightarrow> (('i, 'f) op \<times> ('i, 'f) op) option" where
  "match_lshr_const x =
     (case match_binop LShr x of Some (v, s) \<Rightarrow> if match_const_int s then Some (v, s) else None | None \<Rightarrow> None)"

definition match_and_mask :: "('i, 'f) op \<Rightarrow> (('i, 'f) op \<times> ('i, 'f) op) option" where
  "match_and_mask x =
     (case match_binop And x of Some (v, m) \<Rightarrow> if match_const_int m then Some (v, m) else None | None \<Rightarrow> None)"

definition match_mask_and :: "('i, 'f) op \<Rightarrow> (('i, 'f) op \<times> ('i, 'f) op) option" where
  "match_mask_and x =
     (case match_binop And x of Some (m, v) \<Rightarrow> if match_const_int m then Some (v, m) else None | None \<Rightarrow> None)"

definition match_masked :: "('i, 'f) op \<Rightarrow> (('i, 'f) op \<times> ('i, 'f) op) option" where
  "match_masked x = (case match_mask_and x of Some r \<Rightarrow> Some r | None \<Rightarrow> match_and_mask x)"

section \<open>Constants\<close>

definition is_constant_int :: "('i, 'f, 'z) ctx_scheme \<Rightarrow> ('i, 'f) op \<Rightarrow> nat \<Rightarrow> bool" where
  "is_constant_int S x n = (case as_const_int x of Some i \<Rightarrow> ap_eq_u64 S i n | None \<Rightarrow> False)"

definition is_constant_ones :: "('i, 'f, 'z) ctx_scheme \<Rightarrow> ('i, 'f) op \<Rightarrow> bool" where
  "is_constant_ones S x = (case as_const_int x of Some i \<Rightarrow> ap_is_all_ones S i | None \<Rightarrow> False)"

fun constant_int_compare :: "('i, 'f, 'z) ctx_scheme \<Rightarrow> icmp_opcode \<Rightarrow> 'i \<Rightarrow> 'i \<Rightarrow> bool" where
  "constant_int_compare S ICmp_EQ a b = ap_eq S a b"
| "constant_int_compare S ICmp_NE a b = (\<not> ap_eq S a b)"
| "constant_int_compare S ICmp_SGE a b = ap_sge S a b"
| "constant_int_compare S ICmp_SGT a b = ap_sgt S a b"
| "constant_int_compare S ICmp_SLE a b = ap_sle S a b"
| "constant_int_compare S ICmp_SLT a b = ap_slt S a b"
| "constant_int_compare S ICmp_UGE a b = ap_uge S a b"
| "constant_int_compare S ICmp_UGT a b = ap_ugt S a b"
| "constant_int_compare S ICmp_ULE a b = ap_ule S a b"
| "constant_int_compare S ICmp_ULT a b = ap_ult S a b"

fun constant_float_compare :: "('i, 'f, 'z) ctx_scheme \<Rightarrow> fcmp_opcode \<Rightarrow> 'f \<Rightarrow> 'f \<Rightarrow> bool" where
  "constant_float_compare S FCmp_EQ a b = (fl_compare S a b = CmpEqual)"
| "constant_float_compare S FCmp_NE a b = (fl_compare S a b \<noteq> CmpEqual)"
| "constant_float_compare S FCmp_GE a b = (fl_compare S a b = CmpGreaterThan \<or> fl_compare S a b = CmpEqual)"
| "constant_float_compare S FCmp_GT a b = (fl_compare S a b = CmpGreaterThan)"
| "constant_float_compare S FCmp_LE a b = (fl_compare S a b = CmpLessThan \<or> fl_compare S a b = CmpEqual)"
| "constant_float_compare S FCmp_LT a b = (fl_compare S a b = CmpLessThan)"

text \<open>\<^verbatim>\<open>TRY_CONST_INT\<close> and \<^verbatim>\<open>TRY_CONST_FLOAT\<close>: the early return when both operands are constants.\<close>

definition try_const_int :: "('i, 'f) op \<Rightarrow> ('i, 'f) op \<Rightarrow> ('i \<Rightarrow> 'i \<Rightarrow> 'r) \<Rightarrow> 'r \<Rightarrow> 'r" where
  "try_const_int l r func rest = (case (as_const_int l, as_const_int r) of (Some a, Some b) \<Rightarrow> func a b | _ \<Rightarrow> rest)"

definition try_const_float :: "('i, 'f) op \<Rightarrow> ('i, 'f) op \<Rightarrow> ('f \<Rightarrow> 'f \<Rightarrow> 'r) \<Rightarrow> 'r \<Rightarrow> 'r" where
  "try_const_float l r func rest = (case (as_const_float l, as_const_float r) of (Some a, Some b) \<Rightarrow> func a b | _ \<Rightarrow> rest)"

text \<open>\<^verbatim>\<open>op.lhs()\<close>, \<^verbatim>\<open>op.rhs()\<close> and \<^verbatim>\<open>op.operand()\<close>: reading an operand that is not there fails.\<close>

definition with_binary :: "('i, 'f) op \<Rightarrow> (('i, 'f) op \<Rightarrow> ('i, 'f) op \<Rightarrow> 'r option) \<Rightarrow> 'r option" where
  "with_binary x k = (case operands x of [l, r] \<Rightarrow> k l r | _ \<Rightarrow> None)"

definition with_unary :: "('i, 'f) op \<Rightarrow> (('i, 'f) op \<Rightarrow> 'r option) \<Rightarrow> 'r option" where
  "with_unary x k = (case operands x of [y] \<Rightarrow> k y | _ \<Rightarrow> None)"

definition is_undef :: "('i, 'f) op \<Rightarrow> bool" where
  "is_undef x \<longleftrightarrow> op_opcode x = Undef"

definition visitOperation :: "('i, 'f) op \<Rightarrow> ('i, 'f) op option" where
  "visitOperation x = Some x"

section \<open>Integer arithmetic\<close>

definition visitAdd :: "('i, 'f, 'z) ctx_scheme \<Rightarrow> ('i, 'f) folder \<Rightarrow> ('i, 'f) op \<Rightarrow> ('i, 'f) op option" where
  "visitAdd S cf x = with_binary x (\<lambda>l r.
     if is_undef l \<or> is_undef r then CreateUndef cf (op_type x)
     else if is_constant_int S l 0 then Some r
     else if is_constant_int S r 0 then Some l
     else try_const_int l r (\<lambda>a b. CreateConstantInt S cf (ap_add S a b)) (visitOperation x))"

definition visitSub :: "('i, 'f, 'z) ctx_scheme \<Rightarrow> ('i, 'f) folder \<Rightarrow> ('i, 'f) op \<Rightarrow> ('i, 'f) op option" where
  "visitSub S cf x = with_binary x (\<lambda>l r.
     if is_undef l \<or> is_undef r then CreateUndef cf (op_type x)
     else if is_constant_int S r 0 then Some l
     else if same_ref S r l then do { w \<leftarrow> bitwidth (op_type x); CreateConstantInt S cf (ap_make S w 0) }
     else try_const_int l r (\<lambda>a b. CreateConstantInt S cf (ap_sub S a b)) (visitOperation x))"

definition visitMul :: "('i, 'f, 'z) ctx_scheme \<Rightarrow> ('i, 'f) folder \<Rightarrow> ('i, 'f) op \<Rightarrow> ('i, 'f) op option" where
  "visitMul S cf x = with_binary x (\<lambda>l r.
     if is_constant_int S l 0 then Some l
     else if is_constant_int S r 0 then Some r
     else try_const_int l r (\<lambda>a b. CreateConstantInt S cf (ap_mul S a b)) (visitOperation x))"

definition visitUDiv :: "('i, 'f, 'z) ctx_scheme \<Rightarrow> ('i, 'f) folder \<Rightarrow> ('i, 'f) op \<Rightarrow> ('i, 'f) op option" where
  "visitUDiv S cf x = with_binary x (\<lambda>l r.
     if is_constant_int S l 0 \<or> is_constant_int S r 1 then Some l
     else try_const_int l r
       (\<lambda>a b. do { v \<leftarrow> bvudiv S (Int_Value a) (Int_Value b); CreateIntOfValue S cf v }) (visitOperation x))"

definition visitSDiv :: "('i, 'f, 'z) ctx_scheme \<Rightarrow> ('i, 'f) folder \<Rightarrow> ('i, 'f) op \<Rightarrow> ('i, 'f) op option" where
  "visitSDiv S cf x = with_binary x (\<lambda>l r.
     if is_constant_int S l 0 then Some l
     else do {
       w \<leftarrow> (if is_constant_int S r 1 then bitwidth (op_type x) else Some 0);
       if is_constant_int S r 1 \<and> w > 1 then Some l
       else try_const_int l r
         (\<lambda>a b. do { v \<leftarrow> bvsdiv S (Int_Value a) (Int_Value b); CreateIntOfValue S cf v }) (visitOperation x) })"

definition visitURem :: "('i, 'f, 'z) ctx_scheme \<Rightarrow> ('i, 'f) folder \<Rightarrow> ('i, 'f) op \<Rightarrow> ('i, 'f) op option" where
  "visitURem S cf x = with_binary x (\<lambda>l r.
     if is_constant_int S l 0 then Some l
     else if is_constant_int S r 1 then do { w \<leftarrow> bitwidth (op_type x); CreateConstantInt S cf (ap_make S w 0) }
     else try_const_int l r
       (\<lambda>a b. do { v \<leftarrow> bvurem S (Int_Value a) (Int_Value b); CreateIntOfValue S cf v }) (visitOperation x))"

definition visitSRem :: "('i, 'f, 'z) ctx_scheme \<Rightarrow> ('i, 'f) folder \<Rightarrow> ('i, 'f) op \<Rightarrow> ('i, 'f) op option" where
  "visitSRem S cf x = with_binary x (\<lambda>l r.
     if is_constant_int S l 0 then Some l
     else do {
       w \<leftarrow> (if is_constant_int S r 1 then bitwidth (op_type x) else Some 0);
       if is_constant_int S r 1 \<and> w > 1 then CreateConstantInt S cf (ap_make S w 0)
       else try_const_int l r
         (\<lambda>a b. do { v \<leftarrow> bvsrem S (Int_Value a) (Int_Value b); CreateIntOfValue S cf v }) (visitOperation x) })"

section \<open>Bitwise operations\<close>

text \<open>
  The first rewrite of \<^verbatim>\<open>visitAnd\<close>: mask, shifted value and shift amount when one operand is a
  constant and the other one a logical shift by a constant.
\<close>

definition match_and_shift :: "('i, 'f) op \<Rightarrow> ('i, 'f) op \<Rightarrow> (('i, 'f) op \<times> ('i, 'f) op \<times> ('i, 'f) op) option" where
  "match_and_shift l r =
     (case (match_const_int l, match_lshr_const r) of
        (True, Some (v, s)) \<Rightarrow> Some (l, v, s)
      | _ \<Rightarrow> (case (match_const_int r, match_lshr_const l) of
                (True, Some (v, s)) \<Rightarrow> Some (r, v, s)
              | _ \<Rightarrow> None))"

text \<open>The second one: both masks and the value.\<close>

definition match_and_and :: "('i, 'f) op \<Rightarrow> ('i, 'f) op \<Rightarrow> (('i, 'f) op \<times> ('i, 'f) op \<times> ('i, 'f) op) option" where
  "match_and_and l r =
     (if match_const_int l then (case match_masked r of Some (v, m2) \<Rightarrow> Some (l, m2, v) | None \<Rightarrow> None)
      else if match_const_int r then (case match_masked l of Some (v, m2) \<Rightarrow> Some (r, m2, v) | None \<Rightarrow> None)
      else None)"

definition visitAnd :: "('i, 'f, 'z) ctx_scheme \<Rightarrow> ('i, 'f) folder \<Rightarrow> ('i, 'f) op \<Rightarrow> ('i, 'f) op option" where
  "visitAnd S cf x = with_binary x (\<lambda>l r.
     if is_constant_int S l 0 then Some l
     else if is_constant_int S r 0 then Some r
     else if is_constant_ones S l then Some r
     else if is_constant_ones S r then Some l
     else try_const_int l r (\<lambda>a b. CreateConstantInt S cf (ap_and S a b))
       (case match_and_shift l r of
          Some (msk, v, shift) \<Rightarrow> do {
            m \<leftarrow> CreateShl cf msk shift;
            y \<leftarrow> CreateAnd cf v m;
            CreateLShr cf y shift }
        | None \<Rightarrow>
            (case match_and_and l r of
               Some (mask1, mask2, v) \<Rightarrow> do { m \<leftarrow> CreateAnd cf mask1 mask2; CreateAnd cf v m }
             | None \<Rightarrow> visitOperation x)))"

definition visitOr :: "('i, 'f, 'z) ctx_scheme \<Rightarrow> ('i, 'f) folder \<Rightarrow> ('i, 'f) op \<Rightarrow> ('i, 'f) op option" where
  "visitOr S cf x = with_binary x (\<lambda>l r.
     if is_constant_int S l 0 then Some r
     else if is_constant_int S r 0 then Some l
     else if is_constant_ones S l then Some l
     else if is_constant_ones S r then Some r
     else try_const_int l r (\<lambda>a b. CreateConstantInt S cf (ap_or S a b))
       (case (match_and_mask l, match_and_mask r) of
          (Some (v1, m1), Some (v2, m2)) \<Rightarrow>
            if same_ref S v1 v2 then do { m \<leftarrow> CreateOr cf m1 m2; CreateAnd cf v1 m } else visitOperation x
        | _ \<Rightarrow> visitOperation x))"

definition visitXor :: "('i, 'f, 'z) ctx_scheme \<Rightarrow> ('i, 'f) folder \<Rightarrow> ('i, 'f) op \<Rightarrow> ('i, 'f) op option" where
  "visitXor S cf x = with_binary x (\<lambda>l r.
     if is_undef l \<or> is_undef r then CreateUndef cf (op_type x)
     else if is_constant_int S l 0 then Some r
     else if is_constant_int S r 0 then Some l
     else try_const_int l r (\<lambda>a b. CreateConstantInt S cf (ap_xor S a b)) (visitOperation x))"

definition visitShl :: "('i, 'f, 'z) ctx_scheme \<Rightarrow> ('i, 'f) folder \<Rightarrow> ('i, 'f) op \<Rightarrow> ('i, 'f) op option" where
  "visitShl S cf x = with_binary x (\<lambda>l r.
     if is_constant_int S l 0 \<or> is_constant_int S r 0 then Some l
     else try_const_int l r (\<lambda>a b. CreateConstantInt S cf (ap_shl S a b))
       (case (match_lshr_const l, as_const_int r) of
          (Some (v, rshift), Some lv) \<Rightarrow>
            (case as_const_int rshift of
               Some rval \<Rightarrow> do {
                 w \<leftarrow> bitwidth (op_type x);
                 let shift = ap_limited S lv w;
                 if ap_eq S lv rval \<and> shift \<noteq> w
                 then do { mask \<leftarrow> CreateConstantInt S cf (ap_bits_from S w shift); CreateAnd cf v mask }
                 else visitOperation x }
             | None \<Rightarrow> None)
        | _ \<Rightarrow> visitOperation x))"

definition visitLShr :: "('i, 'f, 'z) ctx_scheme \<Rightarrow> ('i, 'f) folder \<Rightarrow> ('i, 'f) op \<Rightarrow> ('i, 'f) op option" where
  "visitLShr S cf x = with_binary x (\<lambda>l r.
     if is_constant_int S l 0 \<or> is_constant_int S r 0 then Some l
     else try_const_int l r (\<lambda>a b. CreateConstantInt S cf (ap_lshr S a b)) (visitOperation x))"

definition visitAShr :: "('i, 'f, 'z) ctx_scheme \<Rightarrow> ('i, 'f) folder \<Rightarrow> ('i, 'f) op \<Rightarrow> ('i, 'f) op option" where
  "visitAShr S cf x = with_binary x (\<lambda>l r.
     if is_constant_int S l 0 \<or> is_constant_int S r 0 then Some l
     else try_const_int l r (\<lambda>a b. CreateConstantInt S cf (ap_ashr S a b)) (visitOperation x))"

section \<open>Floating point\<close>

definition visitFAdd :: "('i, 'f, 'z) ctx_scheme \<Rightarrow> ('i, 'f) folder \<Rightarrow> ('i, 'f) op \<Rightarrow> ('i, 'f) op option" where
  "visitFAdd S cf x = with_binary x (\<lambda>l r.
     try_const_float l r (\<lambda>a b. CreateConstantFloat S cf (fl_add S a b)) (visitOperation x))"

definition visitFSub :: "('i, 'f, 'z) ctx_scheme \<Rightarrow> ('i, 'f) folder \<Rightarrow> ('i, 'f) op \<Rightarrow> ('i, 'f) op option" where
  "visitFSub S cf x = with_binary x (\<lambda>l r.
     try_const_float l r (\<lambda>a b. CreateConstantFloat S cf (fl_sub S a b)) (visitOperation x))"

definition visitFMul :: "('i, 'f, 'z) ctx_scheme \<Rightarrow> ('i, 'f) folder \<Rightarrow> ('i, 'f) op \<Rightarrow> ('i, 'f) op option" where
  "visitFMul S cf x = with_binary x (\<lambda>l r.
     try_const_float l r (\<lambda>a b. CreateConstantFloat S cf (fl_mul S a b)) (visitOperation x))"

definition visitFDiv :: "('i, 'f, 'z) ctx_scheme \<Rightarrow> ('i, 'f) folder \<Rightarrow> ('i, 'f) op \<Rightarrow> ('i, 'f) op option" where
  "visitFDiv S cf x = with_binary x (\<lambda>l r.
     try_const_float l r (\<lambda>a b. CreateConstantFloat S cf (fl_div S a b)) (visitOperation x))"

text \<open>
  \<^verbatim>\<open>ConstantFloat::Create(APFloat(lhs).remainder(rhs))\<close>: \<^verbatim>\<open>remainder\<close> returns the status of the
  operation, an integer enumeration, which the overload for \<^verbatim>\<open>double\<close> accepts.
\<close>

definition visitFRem :: "('i, 'f, 'z) ctx_scheme \<Rightarrow> ('i, 'f) folder \<Rightarrow> ('i, 'f) op \<Rightarrow> ('i, 'f) op option" where
  "visitFRem S cf x = with_binary x (\<lambda>l r.
     try_const_float l r (\<lambda>a b. CreateDouble S cf (snd (fl_remainder S a b))) (visitOperation x))"

definition visitFIsNaN :: "('i, 'f, 'z) ctx_scheme \<Rightarrow> ('i, 'f) folder \<Rightarrow> ('i, 'f) op \<Rightarrow> ('i, 'f) op option" where
  "visitFIsNaN S cf x = with_unary x (\<lambda>y.
     case as_const_float y of Some f \<Rightarrow> CreateBool S cf (fl_is_nan S f) | None \<Rightarrow> visitOperation x)"

section \<open>Unary operations\<close>

definition visitNot :: "('i, 'f, 'z) ctx_scheme \<Rightarrow> ('i, 'f) folder \<Rightarrow> ('i, 'f) op \<Rightarrow> ('i, 'f) op option" where
  "visitNot S cf x = with_unary x (\<lambda>y.
     case as_const_int y of
       Some i \<Rightarrow> CreateConstantInt S cf (ap_not S i)
     | None \<Rightarrow> (case match_unop Not y of Some v \<Rightarrow> Some v | None \<Rightarrow> visitOperation x))"

definition visitTrunc :: "('i, 'f, 'z) ctx_scheme \<Rightarrow> ('i, 'f) folder \<Rightarrow> ('i, 'f) op \<Rightarrow> ('i, 'f) op option" where
  "visitTrunc S cf x = with_unary x (\<lambda>y.
     case as_const_int y of
       Some i \<Rightarrow> do { n \<leftarrow> bitwidth (op_type x); CreateConstantInt S cf (ap_trunc S i n) }
     | None \<Rightarrow> if op_type x = op_type y then Some y else visitOperation x)"

definition visitZExt :: "('i, 'f, 'z) ctx_scheme \<Rightarrow> ('i, 'f) folder \<Rightarrow> ('i, 'f) op \<Rightarrow> ('i, 'f) op option" where
  "visitZExt S cf x = with_unary x (\<lambda>y.
     case as_const_int y of
       Some i \<Rightarrow> do { n \<leftarrow> bitwidth (op_type x); CreateConstantInt S cf (ap_zext S i n) }
     | None \<Rightarrow>
         if op_type x = op_type y then Some y
         else (case match_unop Trunc y of
                 Some inner \<Rightarrow> do {
                   bw1 \<leftarrow> bitwidth (op_type x);
                   bw2 \<leftarrow> bitwidth (op_type inner);
                   tbw \<leftarrow> bitwidth (op_type y);
                   if bw1 = bw2
                   then do { mask \<leftarrow> CreateConstantInt S cf (ap_low_bits S bw1 tbw); CreateAnd cf inner mask }
                   else visitOperation x }
               | None \<Rightarrow> visitOperation x))"

definition visitSExt :: "('i, 'f, 'z) ctx_scheme \<Rightarrow> ('i, 'f) folder \<Rightarrow> ('i, 'f) op \<Rightarrow> ('i, 'f) op option" where
  "visitSExt S cf x = with_unary x (\<lambda>y.
     case as_const_int y of
       Some i \<Rightarrow> do { n \<leftarrow> bitwidth (op_type x); CreateConstantInt S cf (ap_sext S i n) }
     | None \<Rightarrow> if op_type x = op_type y then Some y else visitOperation x)"

definition visitBitcast :: "('i, 'f) op \<Rightarrow> ('i, 'f) op option" where
  "visitBitcast x = with_unary x (\<lambda>y.
     case match_unop Bitcast y of
       Some v \<Rightarrow> if op_type v = op_type x then Some v else visitOperation x
     | None \<Rightarrow> visitOperation x)"

section \<open>Selection and comparison\<close>

definition visitSelectOp :: "('i, 'f, 'z) ctx_scheme \<Rightarrow> ('i, 'f) op \<Rightarrow> ('i, 'f) op option" where
  "visitSelectOp S x =
     (case operands x of
        [c, t, f] \<Rightarrow>
          (case as_const_int c of
             Some i \<Rightarrow> Some (if ap_eq_u64 S i 1 then t else f)
           | None \<Rightarrow> if same_ref S t f then Some t else visitOperation x)
      | _ \<Rightarrow> None)"

fun icmp_reflexive :: "icmp_opcode \<Rightarrow> bool" where
  "icmp_reflexive ICmp_EQ = True" | "icmp_reflexive ICmp_ULE = True" | "icmp_reflexive ICmp_SLE = True"
| "icmp_reflexive ICmp_UGE = True" | "icmp_reflexive ICmp_SGE = True"
| "icmp_reflexive ICmp_NE = False" | "icmp_reflexive ICmp_ULT = False" | "icmp_reflexive ICmp_SLT = False"
| "icmp_reflexive ICmp_UGT = False" | "icmp_reflexive ICmp_SGT = False"

definition visitICmp :: "('i, 'f, 'z) ctx_scheme \<Rightarrow> ('i, 'f) folder \<Rightarrow> icmp_opcode \<Rightarrow> ('i, 'f) op \<Rightarrow> ('i, 'f) op option" where
  "visitICmp S cf c x = with_binary x (\<lambda>l r.
     try_const_int l r (\<lambda>a b. CreateBool S cf (constant_int_compare S c a b))
       (if same_ref S l r
        then if is_undef l then do { t \<leftarrow> int_ty 1; CreateUndef cf t }
             else CreateBool S cf (icmp_reflexive c)
        else visitOperation x))"

fun fcmp_reflexive :: "fcmp_opcode \<Rightarrow> bool" where
  "fcmp_reflexive FCmp_EQ = True" | "fcmp_reflexive FCmp_LE = True" | "fcmp_reflexive FCmp_GE = True"
| "fcmp_reflexive FCmp_NE = False" | "fcmp_reflexive FCmp_LT = False" | "fcmp_reflexive FCmp_GT = False"

definition visitFCmp :: "('i, 'f, 'z) ctx_scheme \<Rightarrow> ('i, 'f) folder \<Rightarrow> fcmp_opcode \<Rightarrow> ('i, 'f) op \<Rightarrow> ('i, 'f) op option" where
  "visitFCmp S cf c x = with_binary x (\<lambda>l r.
     try_const_float l r (\<lambda>a b. CreateBool S cf (constant_float_compare S c a b))
       (if same_ref S l r then CreateBool S cf (fcmp_reflexive c) else visitOperation x))"

section \<open>Arrays\<close>

definition visitAllocOp :: "('i, 'f, 'z) ctx_scheme \<Rightarrow> ('i, 'f) folder \<Rightarrow> ('i, 'f) op \<Rightarrow> ('i, 'f) op option" where
  "visitAllocOp S cf x = with_binary x (\<lambda>sz dflt.
     case as_const_int sz of
       Some i \<Rightarrow> if ap_limited S i size_max < size_max
                 then CreateFixedArrayFill S cf (op_type sz) dflt (ap_limited S i size_max)
                 else visitOperation x
     | None \<Rightarrow> visitOperation x)"

fun load_chain :: "('i, 'f, 'z) ctx_scheme \<Rightarrow> ('i, 'f) folder \<Rightarrow> ('i, 'f) op \<Rightarrow> nat \<Rightarrow> ('i, 'f) op list \<Rightarrow> ('i, 'f) op \<Rightarrow> ('i, 'f) op option" where
  "load_chain S cf offset i [] out = Some out"
| "load_chain S cf offset i (v # vs) out = do {
     c \<leftarrow> CreateICmp_rhs S cf ICmp_EQ offset (int i);
     out' \<leftarrow> CreateSelect cf c v out;
     load_chain S cf offset (i + 1) vs out' }"

definition visitLoadOp :: "('i, 'f, 'z) ctx_scheme \<Rightarrow> ('i, 'f) folder \<Rightarrow> ('i, 'f) op \<Rightarrow> ('i, 'f) op option" where
  "visitLoadOp S cf x = with_binary x (\<lambda>data offset.
     if op_opcode data = FixedArray
     then (case as_const_int offset of
             Some i \<Rightarrow> do {
               let k = ap_limited S i size_max;
               ensure (k < length (operands data));
               Some (operands data ! k) }
           | None \<Rightarrow>
               if length (operands data) < 1024
               then do {
                 t \<leftarrow> int_ty 8;
                 u \<leftarrow> CreateUndef cf t;
                 load_chain S cf offset 0 (operands data) u }
               else visitOperation x)
     else visitOperation x)"

definition visitStoreOp :: "('i, 'f, 'z) ctx_scheme \<Rightarrow> ('i, 'f) folder \<Rightarrow> ('i, 'f) op \<Rightarrow> ('i, 'f) op option" where
  "visitStoreOp S cf x =
     (case operands x of
        [data, offset, val] \<Rightarrow>
          if op_opcode data = FixedArray
          then (case as_const_int offset of
                  Some i \<Rightarrow> do {
                    let k = ap_limited S i size_max;
                    ensure (k < length (operands data));
                    CreateFixedArray S cf (op_type offset) ((operands data)[k := val]) }
                | None \<Rightarrow> visitOperation x)
          else visitOperation x
      | _ \<Rightarrow> None)"

definition visitFixedArray :: "('i, 'f) op \<Rightarrow> ('i, 'f) op option" where
  "visitFixedArray x = Some x"

section \<open>Dispatch and recursion\<close>

definition visit :: "('i, 'f, 'z) ctx_scheme \<Rightarrow> ('i, 'f) folder \<Rightarrow> ('i, 'f) op \<Rightarrow> ('i, 'f) op option" where
  "visit S cf x =
     (case op_opcode x of
        Invalid \<Rightarrow> None
      | Add \<Rightarrow> visitAdd S cf x | Sub \<Rightarrow> visitSub S cf x | Mul \<Rightarrow> visitMul S cf x
      | UDiv \<Rightarrow> visitUDiv S cf x | SDiv \<Rightarrow> visitSDiv S cf x | URem \<Rightarrow> visitURem S cf x | SRem \<Rightarrow> visitSRem S cf x
      | And \<Rightarrow> visitAnd S cf x | Or \<Rightarrow> visitOr S cf x | Xor \<Rightarrow> visitXor S cf x
      | Shl \<Rightarrow> visitShl S cf x | LShr \<Rightarrow> visitLShr S cf x | AShr \<Rightarrow> visitAShr S cf x
      | FAdd \<Rightarrow> visitFAdd S cf x | FSub \<Rightarrow> visitFSub S cf x | FMul \<Rightarrow> visitFMul S cf x
      | FDiv \<Rightarrow> visitFDiv S cf x | FRem \<Rightarrow> visitFRem S cf x | FIsNaN \<Rightarrow> visitFIsNaN S cf x
      | Not \<Rightarrow> visitNot S cf x | Trunc \<Rightarrow> visitTrunc S cf x | ZExt \<Rightarrow> visitZExt S cf x | SExt \<Rightarrow> visitSExt S cf x
      | Bitcast \<Rightarrow> visitBitcast x | Select \<Rightarrow> visitSelectOp S x
      | ICmp c \<Rightarrow> visitICmp S cf c x | FCmp c \<Rightarrow> visitFCmp S cf c x
      | Alloc \<Rightarrow> visitAllocOp S cf x | Load \<Rightarrow> visitLoadOp S cf x | Store \<Rightarrow> visitStoreOp S cf x
      | FixedArray \<Rightarrow> visitFixedArray x
      | _ \<Rightarrow> visitOperation x)"

primrec fold_depth :: "('i, 'f, 'z) ctx_scheme \<Rightarrow> nat \<Rightarrow> ('i, 'f) op \<Rightarrow> ('i, 'f) op option" where
  "fold_depth S 0 x = None"
| "fold_depth S (Suc d) x = visit S (fold_depth S d) x"

fun height :: "('i, 'f) op \<Rightarrow> nat" where
  "height (Operation d ops) = Suc (fold max (map height ops) 0)"

definition constant_fold :: "('i, 'f, 'z) ctx_scheme \<Rightarrow> ('i, 'f) op \<Rightarrow> ('i, 'f) op option" where
  "constant_fold S x = fold_depth S (height x + 4) x"

text \<open>Rewrite rules that run the simplifier on a given node.\<close>

lemmas visitor_defs =
  visitOperation_def visitAdd_def visitSub_def visitMul_def visitUDiv_def visitSDiv_def visitURem_def visitSRem_def
  visitAnd_def visitOr_def visitXor_def visitShl_def visitLShr_def visitAShr_def visitFAdd_def visitFSub_def visitFMul_def
  visitFDiv_def visitFRem_def visitFIsNaN_def visitNot_def visitTrunc_def visitZExt_def visitSExt_def visitBitcast_def
  visitSelectOp_def visitICmp_def visitFCmp_def visitAllocOp_def visitLoadOp_def visitStoreOp_def visitFixedArray_def

lemmas matcher_defs =
  match_binop_def match_unop_def match_const_int_def match_lshr_const_def match_and_mask_def match_mask_and_def
  match_masked_def match_and_shift_def match_and_and_def is_constant_int_def is_constant_ones_def is_undef_def
  try_const_int_def try_const_float_def with_binary_def with_unary_def as_const_int_def as_const_float_def

lemmas create_defs =
  CreateConstantInt_def CreateBool_def CreateConstantFloat_def CreateDouble_def CreateUndef_def CreateBinary_def
  create_int_binop_def CreateAnd_def CreateOr_def CreateShl_def CreateLShr_def mk_constant_int_data_def
  mk_constant_float_data_def mk_operation_def opcode_num_nargs opcode_num_low type_of_apint_def

lemmas fold_eval = visit_def op_opcode_def op_type_def visitor_defs matcher_defs create_defs

end
