(* ===== verification/IR_Semantics.thy ===== *)
theory IR_Semantics
  imports IR_Simplifier
begin

text \<open>
  The reference semantics of expressions, against which the simplifier and the evaluator are
  judged. An expression denotes the set of values it may take: \<^verbatim>\<open>Undef\<close> is any value of its type,
  afresh at each use, as \<^verbatim>\<open>Operation.h\<close> documents it; a division that would trap, and an access out of
  bounds, may give any value. Integers are pairs of a width and an unsigned value.
\<close>

declare One_nat_def [simp del]

section \<open>Semantic values\<close>

datatype 'f sval = SInt nat nat | SFloat 'f | SArr nat "nat list" | SFun nat

fun has_type :: "('i, 'f, 'z) llvm_scheme \<Rightarrow> 'f sval \<Rightarrow> ty \<Rightarrow> bool" where
  "has_type L (SInt w n) t \<longleftrightarrow> t = Type Integer w \<and> 0 < w \<and> w < 2 ^ 24 \<and> n < 2 ^ w"
| "has_type L (SFloat f) t \<longleftrightarrow> type_of_apfloat L f = Some t"
| "has_type L (SArr w bs) t \<longleftrightarrow> t = Type Array w \<and> 0 < w \<and> w < 2 ^ 24 \<and> length bs \<le> 2 ^ w \<and> list_all (\<lambda>b. b < 256) bs"
| "has_type L (SFun f) t \<longleftrightarrow> t = Type Pointer 0"

definition inhabited :: "('i, 'f, 'z) llvm_scheme \<Rightarrow> ty \<Rightarrow> bool" where
  "inhabited L t \<longleftrightarrow> (\<exists>v. has_type L v t)"

text \<open>
  An environment gives the values of the symbolic constants, the bytes of symbolic arrays, the
  values of nodes of an e-graph, and the meaning of the conversions LLVM defines.
\<close>

record 'f senv =
  sym_val :: "ty \<Rightarrow> symbol \<Rightarrow> 'f sval"
  arr_val :: "symbol \<Rightarrow> nat \<Rightarrow> nat"
  node_val :: "ty \<Rightarrow> nat \<Rightarrow> 'f sval"
  conv :: "opcode \<Rightarrow> ty \<Rightarrow> 'f sval \<Rightarrow> 'f sval"

definition senv_ok :: "('i, 'f, 'z) llvm_scheme \<Rightarrow> 'f senv \<Rightarrow> bool" where
  "senv_ok L E \<longleftrightarrow>
     (\<forall>t s. inhabited L t \<longrightarrow> has_type L (sym_val E t s) t)
   \<and> (\<forall>s i. arr_val E s i < 256)
   \<and> (\<forall>t n. inhabited L t \<longrightarrow> has_type L (node_val E t n) t)
   \<and> (\<forall>c t v. inhabited L t \<longrightarrow> has_type L (conv E c t v) t)"

section \<open>Operations on values\<close>

definition upto_pow :: "nat \<Rightarrow> nat set" where
  "upto_pow w = {n. n < 2 ^ w}"

fun int_sem :: "opcode \<Rightarrow> nat \<Rightarrow> nat \<Rightarrow> nat \<Rightarrow> nat set" where
  "int_sem Add w a b = {(a + b) mod 2 ^ w}"
| "int_sem Sub w a b = {(a + (2 ^ w - b)) mod 2 ^ w}"
| "int_sem Mul w a b = {(a * b) mod 2 ^ w}"
| "int_sem UDiv w a b = (if b = 0 then upto_pow w else {a div b})"
| "int_sem SDiv w a b = (if sdiv_faults w a b then upto_pow w else {sdiv_val w a b})"
| "int_sem URem w a b = (if b = 0 then upto_pow w else {a mod b})"
| "int_sem SRem w a b = (if b = 0 then upto_pow w else {srem_val w a b})"
| "int_sem And w a b = {and a b}"
| "int_sem Or w a b = {or a b}"
| "int_sem Xor w a b = {xor a b}"
| "int_sem Shl w a b = {shl_val w a b}"
| "int_sem LShr w a b = {drop_bit b a}"
| "int_sem AShr w a b = {ashr_val w a b}"
| "int_sem _ w a b = {}"

fun icmp_sem :: "icmp_opcode \<Rightarrow> nat \<Rightarrow> nat \<Rightarrow> nat \<Rightarrow> bool" where
  "icmp_sem ICmp_EQ w a b = (a = b)"
| "icmp_sem ICmp_NE w a b = (a \<noteq> b)"
| "icmp_sem ICmp_UGT w a b = (a > b)"
| "icmp_sem ICmp_UGE w a b = (a \<ge> b)"
| "icmp_sem ICmp_ULT w a b = (a < b)"
| "icmp_sem ICmp_ULE w a b = (a \<le> b)"
| "icmp_sem ICmp_SGT w a b = (to_signed w a > to_signed w b)"
| "icmp_sem ICmp_SGE w a b = (to_signed w a \<ge> to_signed w b)"
| "icmp_sem ICmp_SLT w a b = (to_signed w a < to_signed w b)"
| "icmp_sem ICmp_SLE w a b = (to_signed w a \<le> to_signed w b)"

fun float_sem :: "('i, 'f, 'z) llvm_scheme \<Rightarrow> opcode \<Rightarrow> 'f \<Rightarrow> 'f \<Rightarrow> 'f set" where
  "float_sem L FAdd a b = {fl_add L a b}"
| "float_sem L FSub a b = {fl_sub L a b}"
| "float_sem L FMul a b = {fl_mul L a b}"
| "float_sem L FDiv a b = {fl_div L a b}"
| "float_sem L FRem a b = {fst (fl_remainder L a b)}"
| "float_sem L _ a b = {}"

fun fcmp_sem :: "fcmp_opcode \<Rightarrow> cmp_result \<Rightarrow> bool" where
  "fcmp_sem FCmp_EQ r = (r = CmpEqual)"
| "fcmp_sem FCmp_NE r = (r \<noteq> CmpEqual)"
| "fcmp_sem FCmp_GT r = (r = CmpGreaterThan)"
| "fcmp_sem FCmp_GE r = (r = CmpGreaterThan \<or> r = CmpEqual)"
| "fcmp_sem FCmp_LT r = (r = CmpLessThan)"
| "fcmp_sem FCmp_LE r = (r = CmpLessThan \<or> r = CmpEqual)"

definition int_ops :: "opcode set" where
  "int_ops = {Add, Sub, Mul, UDiv, SDiv, URem, SRem, And, Or, Xor, Shl, LShr, AShr}"

definition float_ops :: "opcode set" where
  "float_ops = {FAdd, FSub, FMul, FDiv, FRem}"

definition conv_ops :: "opcode set" where
  "conv_ops = {FpTrunc, FpExt, FpToUI, FpToSI, UIToFp, SIToFp, Bitcast}"

definition of_bool1 :: "bool \<Rightarrow> 'f sval" where
  "of_bool1 b = SInt 1 (if b then 1 else 0)"

section \<open>Denotation\<close>

definition unary_beh :: "('i, 'f, 'z) llvm_scheme \<Rightarrow> 'f senv \<Rightarrow> opcode \<Rightarrow> ty \<Rightarrow> 'f sval \<Rightarrow> 'f sval set" where
  "unary_beh L E c t v =
     (if c \<in> conv_ops then {conv E c t v}
      else case v of
             SInt w a \<Rightarrow>
               if c = Not then {SInt w (2 ^ w - 1 - a)}
               else if c = Trunc then {SInt (desc t) (a mod 2 ^ desc t)}
               else if c = ZExt then {SInt (desc t) a}
               else if c = SExt then {SInt (desc t) (of_signed (desc t) (to_signed w a))}
               else {}
           | SFloat f \<Rightarrow>
               if c = FNeg then {SFloat (fl_sub L (fl_zero L (fl_sem L f)) f)}
               else if c = FIsNaN then {of_bool1 (fl_is_nan L f)}
               else {}
           | _ \<Rightarrow> {})"

definition binary_beh :: "('i, 'f, 'z) llvm_scheme \<Rightarrow> opcode \<Rightarrow> 'f sval \<Rightarrow> 'f sval \<Rightarrow> 'f sval set" where
  "binary_beh L c u v =
     (case (u, v) of
        (SInt w a, SInt w' b) \<Rightarrow>
          if w \<noteq> w' then {}
          else (case c of ICmp p \<Rightarrow> {of_bool1 (icmp_sem p w a b)} | _ \<Rightarrow> SInt w ` int_sem c w a b)
      | (SFloat a, SFloat b) \<Rightarrow>
          (case c of FCmp p \<Rightarrow> {of_bool1 (fcmp_sem p (fl_compare L a b))} | _ \<Rightarrow> SFloat ` float_sem L c a b)
      | (SArr w bs, SInt w' i) \<Rightarrow>
          if c = Load then (if i < length bs then {SInt 8 (bs ! i)} else SInt 8 ` upto_pow 8) else {}
      | _ \<Rightarrow> {})"

definition store_beh :: "'f sval \<Rightarrow> 'f sval \<Rightarrow> 'f sval \<Rightarrow> 'f sval set" where
  "store_beh u v x =
     (case (u, v, x) of
        (SArr w bs, SInt w' i, SInt w'' b) \<Rightarrow>
          if i < length bs then {SArr w (bs[i := b])}
          else {SArr w bs' |bs'. length bs' = length bs \<and> list_all (\<lambda>b. b < 256) bs'}
      | _ \<Rightarrow> {})"

text \<open>
  The meaning of a node from the meanings of its operands. \<^verbatim>\<open>Alloc\<close> fills each byte on its own, so that
  an undefined default leaves the bytes independent of each other.
\<close>

fun node_beh :: "('i, 'f, 'z) llvm_scheme \<Rightarrow> 'f senv \<Rightarrow> ('i, 'f) opdata \<Rightarrow> 'f sval set list \<Rightarrow> 'f sval set" where
  "node_beh L E (ConstantIntData t i) As = {SInt (ap_width L i) (ap_val L i)}"
| "node_beh L E (ConstantFloatData t f) As = {SFloat f}"
| "node_beh L E (FunctionObjectData t f) As = {SFun f}"
| "node_beh L E (EGraphNodeData t n) As = {node_val E t n}"
| "node_beh L E (ConstantData c t s) As =
     (case As of
        [] \<Rightarrow> {sym_val E t s}
      | A # _ \<Rightarrow> {SArr w (map (arr_val E s) [0..<n]) |w n. SInt w n \<in> A})"
| "node_beh L E (OperationData c t) As =
     (if c = Undef then {v. has_type L v t}
      else if c = FixedArray then {SArr (desc t) bs |bs. list_all2 (\<lambda>A b. SInt 8 b \<in> A) As bs}
      else case As of
             [A] \<Rightarrow> (\<Union>a\<in>A. unary_beh L E c t a)
           | [A, B] \<Rightarrow>
               if c = Alloc
               then {SArr w bs |w bs. SInt w (length bs) \<in> A \<and> (\<forall>b\<in>set bs. SInt 8 b \<in> B)}
               else (\<Union>a\<in>A. \<Union>b\<in>B. binary_beh L c a b)
           | [A, B, C] \<Rightarrow>
               if c = Select then (if SInt 1 1 \<in> A then B else {}) \<union> (if SInt 1 0 \<in> A then C else {})
               else if c = Store then (\<Union>a\<in>A. \<Union>b\<in>B. \<Union>x\<in>C. store_beh a b x)
               else {}
           | _ \<Rightarrow> {})"

primrec beh :: "('i, 'f, 'z) llvm_scheme \<Rightarrow> 'f senv \<Rightarrow> ('i, 'f) op \<Rightarrow> 'f sval set" where
  "beh L E (Operation d ops) = node_beh L E d (map (beh L E) ops)"

section \<open>Typing\<close>

definition wt_operation :: "('i, 'f, 'z) llvm_scheme \<Rightarrow> opcode \<Rightarrow> ty \<Rightarrow> ty list \<Rightarrow> bool" where
  "wt_operation L c t ts \<longleftrightarrow>
     (case c of
        Undef \<Rightarrow> ts = [] \<and> inhabited L t
      | ICmp _ \<Rightarrow> t = Type Integer 1 \<and> (\<exists>w. ts = [Type Integer w, Type Integer w])
      | FCmp _ \<Rightarrow> t = Type Integer 1 \<and> (\<exists>u. is_float u \<and> ts = [u, u])
      | Not \<Rightarrow> is_int t \<and> ts = [t]
      | FNeg \<Rightarrow> is_float t \<and> ts = [t]
      | FIsNaN \<Rightarrow> t = Type Integer 1 \<and> (\<exists>u. is_float u \<and> ts = [u])
      | Trunc \<Rightarrow> (\<exists>n w. t = Type Integer n \<and> ts = [Type Integer w] \<and> 0 < n \<and> n \<le> w)
      | ZExt \<Rightarrow> (\<exists>n w. t = Type Integer n \<and> ts = [Type Integer w] \<and> w \<le> n \<and> n < 2 ^ 24)
      | SExt \<Rightarrow> (\<exists>n w. t = Type Integer n \<and> ts = [Type Integer w] \<and> w \<le> n \<and> n < 2 ^ 24)
      | Select \<Rightarrow> ts = [Type Integer 1, t, t]
      | FixedArray \<Rightarrow>
          (\<exists>w. t = Type Array w \<and> 0 < w \<and> w < 2 ^ 24 \<and> length ts \<le> 2 ^ w \<and> length ts \<le> size_max
             \<and> list_all (\<lambda>u. u = Type Integer 8) ts)
      | Alloc \<Rightarrow> (\<exists>w. t = Type Array w \<and> ts = [Type Integer w, Type Integer 8])
      | Load \<Rightarrow> t = Type Integer 8 \<and> (\<exists>w. ts = [Type Array w, Type Integer w])
      | Store \<Rightarrow> (\<exists>w. t = Type Array w \<and> ts = [Type Array w, Type Integer w, Type Integer 8])
      | _ \<Rightarrow> c \<in> int_ops \<and> is_int t \<and> ts = [t, t]
          \<or> c \<in> float_ops \<and> is_float t \<and> ts = [t, t]
          \<or> c \<in> conv_ops \<and> inhabited L t \<and> (\<exists>u. ts = [u]))"

fun wt_node :: "('i, 'f, 'z) llvm_scheme \<Rightarrow> ('i, 'f) opdata \<Rightarrow> ty list \<Rightarrow> bool" where
  "wt_node L (ConstantIntData t i) ts \<longleftrightarrow> ts = [] \<and> type_of_apint L i = Some t"
| "wt_node L (ConstantFloatData t f) ts \<longleftrightarrow> ts = [] \<and> type_of_apfloat L f = Some t"
| "wt_node L (FunctionObjectData t f) ts \<longleftrightarrow> ts = [] \<and> t = Type Pointer 0"
| "wt_node L (EGraphNodeData t n) ts \<longleftrightarrow> ts = [] \<and> inhabited L t"
| "wt_node L (ConstantData c t s) ts \<longleftrightarrow>
     (c = ConstantNamed \<or> c = ConstantNumbered) \<and> ts = [] \<and> inhabited L t
   \<or> c = ConstantArray \<and> (\<exists>w. t = Type Array w \<and> ts = [Type Integer w])"
| "wt_node L (OperationData c t) ts \<longleftrightarrow> wt_operation L c t ts"

primrec wt :: "('i, 'f, 'z) llvm_scheme \<Rightarrow> ('i, 'f) op \<Rightarrow> bool" where
  "wt L (Operation d ops) \<longleftrightarrow> list_all id (map (wt L) ops) \<and> wt_node L d (map op_type ops)"

section \<open>Laws of the floats\<close>

text \<open>Operations on floats of one format keep the format.\<close>

definition float_op_laws :: "('i, 'f, 'z) llvm_scheme \<Rightarrow> bool" where
  "float_op_laws L \<longleftrightarrow>
     (\<forall>a b. fl_sem L a = fl_sem L b \<longrightarrow>
        fl_sem L (fl_add L a b) = fl_sem L b \<and> fl_sem L (fl_sub L a b) = fl_sem L b
      \<and> fl_sem L (fl_mul L a b) = fl_sem L b \<and> fl_sem L (fl_div L a b) = fl_sem L b
      \<and> fl_sem L (fst (fl_remainder L a b)) = fl_sem L b)
   \<and> (\<forall>s. fl_sem L (fl_zero L s) = s)"

definition llvm_laws :: "('i, 'f, 'z) llvm_scheme \<Rightarrow> bool" where
  "llvm_laws L \<longleftrightarrow> apint_laws L \<and> float_laws L \<and> float_op_laws L"

lemma llvm_lawsD: "llvm_laws L \<Longrightarrow> apint_laws L" "llvm_laws L \<Longrightarrow> float_laws L" "llvm_laws L \<Longrightarrow> float_op_laws L"
  by (simp_all add: llvm_laws_def)

lemma float_op_lawsD:
  assumes "float_op_laws L"
  shows "fl_sem L a = fl_sem L b \<Longrightarrow> fl_sem L (fl_add L a b) = fl_sem L b"
    and "fl_sem L a = fl_sem L b \<Longrightarrow> fl_sem L (fl_sub L a b) = fl_sem L b"
    and "fl_sem L a = fl_sem L b \<Longrightarrow> fl_sem L (fl_mul L a b) = fl_sem L b"
    and "fl_sem L a = fl_sem L b \<Longrightarrow> fl_sem L (fl_div L a b) = fl_sem L b"
    and "fl_sem L a = fl_sem L b \<Longrightarrow> fl_sem L (fst (fl_remainder L a b)) = fl_sem L b"
    and "fl_sem L (fl_zero L s) = s"
  using assms unfolding float_op_laws_def by blast+

lemma ref_llvm_laws: "llvm_laws ref_llvm"
  by (simp add: llvm_laws_def ref_laws float_laws_def float_op_laws_def)

lemma semantics_sizes_inj:
  assumes "float_laws L" "semantics_sizes L s = semantics_sizes L s'"
  shows "s = s'"
  using assms unfolding float_laws_def semantics_sizes_def by (cases s; cases s') simp_all

lemma type_of_apfloat_inj:
  assumes "float_laws L" "type_of_apfloat L a = Some t" "type_of_apfloat L b = Some t"
  shows "fl_sem L a = fl_sem L b"
proof -
  obtain e m where s: "semantics_sizes L (fl_sem L a) = (e, m)" by force
  obtain e' m' where s': "semantics_sizes L (fl_sem L b) = (e', m')" by force
  have "float_ty e m = Some t" "float_ty e' m' = Some t"
    using assms(2,3) s s' by (simp_all add: type_of_apfloat_def)
  then have t: "e < 2 ^ 12" "m < 2 ^ 12" "m' < 2 ^ 12" "e * 2 ^ 12 + m = e' * 2 ^ 12 + m'"
    by (auto simp: float_ty_eq_Some)
  have "m = m'" using arg_cong [OF t(4), of "\<lambda>x. x mod 2 ^ 12"] t by simp
  moreover have "e = e'" using arg_cong [OF t(4), of "\<lambda>x. x div 2 ^ 12"] t by simp
  ultimately show ?thesis using semantics_sizes_inj [OF assms(1)] s s' by simp
qed

lemma type_of_apfloat_cong: "fl_sem L a = fl_sem L b \<Longrightarrow> type_of_apfloat L a = type_of_apfloat L b"
  by (simp add: type_of_apfloat_def)

section \<open>Type soundness\<close>

definition typed :: "('i, 'f, 'z) llvm_scheme \<Rightarrow> 'f sval set \<Rightarrow> ty \<Rightarrow> bool" where
  "typed L A t \<longleftrightarrow> A \<noteq> {} \<and> (\<forall>v\<in>A. has_type L v t)"

lemma typed_singleton [simp]: "typed L {v} t \<longleftrightarrow> has_type L v t"
  by (simp add: typed_def)

lemma has_type_int: "has_type L v (Type Integer w) \<Longrightarrow> \<exists>n. v = SInt w n \<and> n < 2 ^ w \<and> 0 < w \<and> w < 2 ^ 24"
  by (cases v) (auto simp: type_of_apfloat_def float_ty_eq_Some split: prod.splits)

lemma has_type_array:
  "has_type L v (Type Array w) \<Longrightarrow> \<exists>bs. v = SArr w bs \<and> length bs \<le> 2 ^ w \<and> list_all (\<lambda>b. b < 256) bs \<and> 0 < w \<and> w < 2 ^ 24"
  by (cases v) (auto simp: type_of_apfloat_def float_ty_eq_Some split: prod.splits)

lemma has_type_float: "has_type L v t \<Longrightarrow> is_float t \<Longrightarrow> \<exists>f. v = SFloat f \<and> type_of_apfloat L f = Some t"
  by (cases v) (auto simp: is_float_def)

lemma typed_intD:
  assumes "typed L A (Type Integer w)"
  shows "0 < w" "w < 2 ^ 24" "\<exists>n. SInt w n \<in> A" "\<And>v. v \<in> A \<Longrightarrow> \<exists>n. v = SInt w n \<and> n < 2 ^ w"
  using assms has_type_int unfolding typed_def by blast+

lemma typed_arrayD:
  assumes "typed L A (Type Array w)"
  shows "0 < w" "w < 2 ^ 24" "\<exists>bs. SArr w bs \<in> A"
    "\<And>v. v \<in> A \<Longrightarrow> \<exists>bs. v = SArr w bs \<and> length bs \<le> 2 ^ w \<and> list_all (\<lambda>b. b < 256) bs"
  using assms has_type_array unfolding typed_def by blast+

lemma typed_floatD:
  assumes "typed L A t" "is_float t"
  shows "\<exists>f. SFloat f \<in> A" "\<And>v. v \<in> A \<Longrightarrow> \<exists>f. v = SFloat f \<and> type_of_apfloat L f = Some t"
  using assms has_type_float unfolding typed_def by blast+

lemma typed_UN: "A \<noteq> {} \<Longrightarrow> (\<And>a. a \<in> A \<Longrightarrow> typed L (F a) t) \<Longrightarrow> typed L (\<Union>a\<in>A. F a) t"
  unfolding typed_def by blast

lemma typed_nonempty: "typed L A t \<Longrightarrow> A \<noteq> {}"
  by (simp add: typed_def)

lemma has_type_bool1 [simp]: "has_type L (of_bool1 b) (Type Integer 1)"
  by (simp add: of_bool1_def)

lemma in_upto_pow [simp]: "n \<in> upto_pow w \<longleftrightarrow> n < 2 ^ w" and upto_pow_ne [simp]: "upto_pow w \<noteq> {}"
  by (auto simp: upto_pow_def intro: exI [of _ 0])

lemma int_sem_bound:
  assumes "c \<in> int_ops" "a < 2 ^ w" "b < 2 ^ w"
  shows "int_sem c w a b \<noteq> {} \<and> int_sem c w a b \<subseteq> upto_pow w"
proof -
  have "a div b < 2 ^ w" "a mod b < 2 ^ w" "drop_bit b a < 2 ^ w"
    using assms(2) by (auto intro: le_less_trans [OF div_le_dividend] le_less_trans [OF mod_less_eq_dividend] simp: drop_bit_eq_div)
  then show ?thesis
    using assms unfolding int_ops_def
    by (elim insertE) (simp_all add: and_less_power or_less_power xor_less_power
        sdiv_val_def srem_val_def shl_val_def ashr_val_def)
qed

lemma binary_beh_int:
  "c \<in> int_ops \<Longrightarrow> binary_beh L c (SInt w a) (SInt w b) = SInt w ` int_sem c w a b"
  unfolding int_ops_def by (elim insertE) (simp_all add: binary_beh_def)

lemma binary_beh_float:
  "c \<in> float_ops \<Longrightarrow> binary_beh L c (SFloat a) (SFloat b) = SFloat ` float_sem L c a b"
  unfolding float_ops_def by (elim insertE) (simp_all add: binary_beh_def)

lemma typed_int_op:
  assumes "c \<in> int_ops" "typed L A (Type Integer w)" "typed L B (Type Integer w)"
  shows "typed L (\<Union>a\<in>A. \<Union>b\<in>B. binary_beh L c a b) (Type Integer w)"
proof (intro typed_UN)
  fix u v assume "u \<in> A" "v \<in> B"
  then obtain a b where "u = SInt w a" "a < 2 ^ w" "v = SInt w b" "b < 2 ^ w"
    using typed_intD(4) [OF assms(2)] typed_intD(4) [OF assms(3)] by blast
  then show "typed L (binary_beh L c u v) (Type Integer w)"
    using int_sem_bound [OF assms(1), of a w b] typed_intD(1,2) [OF assms(2)]
    by (auto simp: binary_beh_int [OF assms(1)] typed_def)
qed (use assms typed_nonempty in blast)+

lemma typed_float_op:
  assumes L: "llvm_laws L" and c: "c \<in> float_ops" and t: "is_float t" "typed L A t" "typed L B t"
  shows "typed L (\<Union>a\<in>A. \<Union>b\<in>B. binary_beh L c a b) t"
proof (intro typed_UN)
  fix u v assume "u \<in> A" "v \<in> B"
  then obtain a b where ab: "u = SFloat a" "type_of_apfloat L a = Some t" "v = SFloat b" "type_of_apfloat L b = Some t"
    using typed_floatD(2) [OF t(2,1)] typed_floatD(2) [OF t(3,1)] by blast
  note same = type_of_apfloat_inj [OF llvm_lawsD(2) [OF L] ab(2,4)]
  have "\<forall>x\<in>float_sem L c a b. fl_sem L x = fl_sem L b" "float_sem L c a b \<noteq> {}"
    using c by (auto simp: float_ops_def float_op_lawsD(1-5) [OF llvm_lawsD(3) [OF L] same])
  moreover have "type_of_apfloat L x = Some t" if "x \<in> float_sem L c a b" for x
    using calculation(1) that ab(4) type_of_apfloat_cong [of L x b] by auto
  ultimately show "typed L (binary_beh L c u v) t"
    using ab(1,3) by (auto simp: binary_beh_float [OF c] typed_def)
qed (use t typed_nonempty in blast)+

lemma typed_cmp:
  assumes "typed L A (Type Integer w)" "typed L B (Type Integer w)"
  shows "typed L (\<Union>a\<in>A. \<Union>b\<in>B. binary_beh L (ICmp p) a b) (Type Integer 1)"
proof (intro typed_UN)
  fix u v assume "u \<in> A" "v \<in> B"
  then obtain a b where "u = SInt w a" "v = SInt w b"
    using typed_intD(4) [OF assms(1)] typed_intD(4) [OF assms(2)] by blast
  then show "typed L (binary_beh L (ICmp p) u v) (Type Integer 1)" by (simp add: binary_beh_def)
qed (use assms typed_nonempty in blast)+

lemma typed_fcmp:
  assumes "is_float t" "typed L A t" "typed L B t"
  shows "typed L (\<Union>a\<in>A. \<Union>b\<in>B. binary_beh L (FCmp p) a b) (Type Integer 1)"
proof (intro typed_UN)
  fix u v assume "u \<in> A" "v \<in> B"
  then obtain a b where "u = SFloat a" "v = SFloat b"
    using typed_floatD(2) [OF assms(2,1)] typed_floatD(2) [OF assms(3,1)] by blast
  then show "typed L (binary_beh L (FCmp p) u v) (Type Integer 1)" by (simp add: binary_beh_def)
qed (use assms typed_nonempty in blast)+

lemma typed_load:
  assumes "typed L A (Type Array w)" "typed L B (Type Integer w)"
  shows "typed L (\<Union>a\<in>A. \<Union>b\<in>B. binary_beh L Load a b) (Type Integer 8)"
proof (intro typed_UN)
  fix u v assume "u \<in> A" "v \<in> B"
  then obtain bs i where "u = SArr w bs" "list_all (\<lambda>b. b < 256) bs" "v = SInt w i"
    using typed_arrayD(4) [OF assms(1)] typed_intD(4) [OF assms(2)] by blast
  then show "typed L (binary_beh L Load u v) (Type Integer 8)"
    by (auto simp: binary_beh_def list_all_length typed_def)
qed (use assms typed_nonempty in blast)+

lemma typed_store:
  assumes "typed L A (Type Array w)" "typed L B (Type Integer w)" "typed L C (Type Integer 8)"
  shows "typed L (\<Union>a\<in>A. \<Union>b\<in>B. \<Union>c\<in>C. store_beh a b c) (Type Array w)"
proof (intro typed_UN)
  fix u v x assume "u \<in> A" "v \<in> B" "x \<in> C"
  then obtain bs i b where *: "u = SArr w bs" "length bs \<le> 2 ^ w" "list_all (\<lambda>b. b < 256) bs" "v = SInt w i" "x = SInt 8 b" "b < 256"
    using typed_arrayD(4) [OF assms(1), of u] typed_intD(4) [OF assms(2), of v] typed_intD(4) [OF assms(3), of x] by auto
  then have "list_all (\<lambda>b. b < 256) (bs[i := b])" by (simp add: list_all_update)
  moreover have "\<exists>bs' :: nat list. length bs' = length bs \<and> list_all (\<lambda>b. b < 256) bs'" using * by blast
  ultimately show "typed L (store_beh u v x) (Type Array w)"
    using * typed_arrayD(1,2) [OF assms(1)] by (auto simp: store_beh_def typed_def)
qed (use assms typed_nonempty in blast)+

lemma of_signed_small: "0 < w \<Longrightarrow> of_signed w z < 2 ^ w"
  by simp

lemma typed_unary:
  assumes L: "llvm_laws L" and E: "senv_ok L E" and A: "typed L A u" and wt: "wt_operation L c t [u]"
    and c: "c \<noteq> FixedArray" "c \<noteq> Undef"
  shows "typed L (\<Union>a\<in>A. unary_beh L E c t a) t"
proof (intro typed_UN)
  fix a assume a: "a \<in> A"
  consider (conv) "c \<in> conv_ops" "inhabited L t"
    | (int) n w where "t = Type Integer n" "u = Type Integer w" "c = Trunc \<and> 0 < n \<and> n \<le> w \<or> c \<in> {ZExt, SExt} \<and> w \<le> n \<and> n < 2 ^ 24 \<or> c = Not \<and> n = w"
    | (neg) "is_float t" "c = FNeg" "u = t"
    | (nan) "is_float u" "c = FIsNaN" "t = Type Integer 1"
    using wt c unfolding wt_operation_def
    by (cases c) (auto simp: conv_ops_def int_ops_def float_ops_def is_int_iff)
  then show "typed L (unary_beh L E c t a) t"
  proof cases
    case conv
    then show ?thesis using E by (simp add: unary_beh_def senv_ok_def)
  next
    case int
    obtain k where k: "a = SInt w k" "k < 2 ^ w" using typed_intD(4) [of L A w] A a int(2) by blast
    have w: "0 < w" "w < 2 ^ 24" using typed_intD(1,2) [of L A w] A int(2) by blast+
    have "k < 2 ^ n" if "w \<le> n" using k(2) that by (meson less_le_trans one_le_numeral power_increasing)
    then show ?thesis using int w k by (auto simp: unary_beh_def conv_ops_def)
  next
    case neg
    obtain f where f: "a = SFloat f" "type_of_apfloat L f = Some t" using typed_floatD(2) [of L A t] A a neg by blast
    have "fl_sem L (fl_sub L (fl_zero L (fl_sem L f)) f) = fl_sem L f"
      by (simp add: float_op_lawsD [OF llvm_lawsD(3) [OF L]])
    then have "type_of_apfloat L (fl_sub L (fl_zero L (fl_sem L f)) f) = Some t"
      using f(2) type_of_apfloat_cong [of L "fl_sub L (fl_zero L (fl_sem L f)) f" f] by simp
    then show ?thesis using neg f by (simp add: unary_beh_def conv_ops_def)
  next
    case nan
    obtain f where "a = SFloat f" using typed_floatD(2) [of L A u] A a nan by blast
    then show ?thesis using nan by (simp add: unary_beh_def conv_ops_def)
  qed
qed (use A typed_nonempty in blast)

lemma fixed_array_bytes:
  assumes "list_all (\<lambda>A. typed L A (Type Integer 8)) As"
  shows "\<exists>bs. list_all2 (\<lambda>A b. SInt 8 b \<in> A) As bs"
    and "list_all2 (\<lambda>A b. SInt 8 b \<in> A) As bs \<Longrightarrow> length bs = length As \<and> list_all (\<lambda>b. b < 256) bs"
proof -
  show "\<exists>bs. list_all2 (\<lambda>A b. SInt 8 b \<in> A) As bs" using assms
  proof (induction As)
    case (Cons A As)
    then obtain bs where "list_all2 (\<lambda>A b. SInt 8 b \<in> A) As bs" by auto
    moreover obtain b where "SInt 8 b \<in> A" using Cons.prems typed_intD(3) [of L A 8] by auto
    ultimately show ?case by (intro exI [of _ "b # bs"]) simp
  qed (intro exI [of _ "[]"], simp)
  show "length bs = length As \<and> list_all (\<lambda>b. b < 256) bs" if "list_all2 (\<lambda>A b. SInt 8 b \<in> A) As bs"
    using that assms
  proof (induction rule: list_all2_induct)
    case (Cons A As b bs)
    then show ?case using typed_intD(4) [of L A 8 "SInt 8 b"] by auto
  qed simp
qed

lemma typed_fixed_array:
  assumes "list_all2 (typed L) As ts" "wt_operation L FixedArray t ts"
  shows "typed L {SArr (desc t) bs |bs. list_all2 (\<lambda>A b. SInt 8 b \<in> A) As bs} t"
proof -
  obtain w where w: "t = Type Array w" "0 < w" "w < 2 ^ 24" "length ts \<le> 2 ^ w" "list_all (\<lambda>u. u = Type Integer 8) ts"
    using assms(2) by (auto simp: wt_operation_def)
  have "list_all (\<lambda>A. typed L A (Type Integer 8)) As" "length As = length ts"
    using assms(1) w(5) by (auto simp: list_all2_conv_all_nth list_all_length)
  from fixed_array_bytes [OF this(1)] this(2) show ?thesis
    using w by (auto simp: typed_def)
qed

lemma typed_alloc:
  fixes A B :: "'f sval set"
  assumes "typed L A (Type Integer w)" "typed L B (Type Integer 8)"
  shows "typed L {SArr w' bs |w' bs. SInt w' (length bs) \<in> A \<and> (\<forall>b\<in>set bs. SInt 8 b \<in> B)} (Type Array w)"
proof -
  let ?S = "{SArr w' bs :: 'f sval |w' bs. SInt w' (length bs) \<in> A \<and> (\<forall>b\<in>set bs. SInt 8 b \<in> B)}"
  obtain n b where nb: "SInt w n \<in> A" "SInt 8 b \<in> B" using assms typed_intD(3) by blast
  have A: "w' = w \<and> k < 2 ^ w" if "SInt w' k \<in> A" for w' k using typed_intD(4) [OF assms(1) that] by auto
  have B: "k < 256" if "SInt 8 k \<in> B" for k using typed_intD(4) [OF assms(2) that] by auto
  have "SArr w (replicate n b) \<in> ?S" using nb by auto
  moreover have "has_type L v (Type Array w)" if vS: "v \<in> ?S" for v
  proof -
    obtain w' bs where v: "v = SArr w' bs" "SInt w' (length bs) \<in> A" "\<forall>b\<in>set bs. SInt 8 b \<in> B" using vS by auto
    have "w' = w" "length bs \<le> 2 ^ w" using A [OF v(2)] by auto
    moreover have "list_all (\<lambda>b. b < 256) bs" using v(3) B by (auto simp: list_all_iff)
    ultimately show ?thesis using typed_intD(1,2) [OF assms(1)] v(1) by simp
  qed
  ultimately show ?thesis unfolding typed_def by blast
qed

lemma typed_operation:
  assumes L: "llvm_laws L" and E: "senv_ok L E" and As: "list_all2 (typed L) As ts" and wt: "wt_operation L c t ts"
  shows "typed L (node_beh L E (OperationData c t) As) t"
proof -
  consider "c = Undef" | "c = FixedArray" | u where "ts = [u]" "c \<noteq> Undef" "c \<noteq> FixedArray"
    | (int) "c \<in> int_ops" "is_int t" "ts = [t, t]" | (float) "c \<in> float_ops" "is_float t" "ts = [t, t]"
    | (icmp) p w where "c = ICmp p" "t = Type Integer 1" "ts = [Type Integer w, Type Integer w]"
    | (fcmp) p u where "c = FCmp p" "t = Type Integer 1" "is_float u" "ts = [u, u]"
    | (alloc) w where "c = Alloc" "t = Type Array w" "ts = [Type Integer w, Type Integer 8]"
    | (load) w where "c = Load" "t = Type Integer 8" "ts = [Type Array w, Type Integer w]"
    | (store) w where "c = Store" "t = Type Array w" "ts = [Type Array w, Type Integer w, Type Integer 8]"
    | (sel) "c = Select" "ts = [Type Integer 1, t, t]"
    using wt unfolding wt_operation_def
    by (cases c) (auto simp: length_Suc_conv conv_ops_def int_ops_def float_ops_def)
  then show ?thesis
  proof cases
    case 1
    then show ?thesis using wt by (auto simp: wt_operation_def typed_def inhabited_def)
  next
    case 2
    then show ?thesis using typed_fixed_array As wt by simp
  next
    case (3 u)
    then obtain A where "As = [A]" "typed L A u" using As by (auto simp: list_all2_Cons2)
    then show ?thesis using 3 typed_unary [OF L E] wt by simp
  next
    case int
    then obtain A B where "As = [A, B]" "typed L A t" "typed L B t" using As by (auto simp: list_all2_Cons2)
    then show ?thesis using int typed_int_op [of c L A "desc t" B] is_int_iff [of t] by (auto simp: int_ops_def)
  next
    case float
    then obtain A B where "As = [A, B]" "typed L A t" "typed L B t" using As by (auto simp: list_all2_Cons2)
    then show ?thesis using float typed_float_op [OF L, of c t A B] by (auto simp: float_ops_def)
  next
    case icmp
    then show ?thesis using As typed_cmp by (auto simp: list_all2_Cons2)
  next
    case fcmp
    then show ?thesis using As typed_fcmp by (auto simp: list_all2_Cons2)
  next
    case alloc
    then show ?thesis using As typed_alloc by (auto simp: list_all2_Cons2)
  next
    case load
    then show ?thesis using As typed_load by (auto simp: list_all2_Cons2)
  next
    case store
    then show ?thesis using As typed_store by (auto simp: list_all2_Cons2)
  next
    case sel
    then obtain A B C where *: "As = [A, B, C]" "typed L A (Type Integer 1)" "typed L B t" "typed L C t"
      using As by (auto simp: list_all2_Cons2)
    obtain n where n: "SInt 1 n \<in> A" "n < 2" using typed_intD(3,4) [OF *(2)] by fastforce
    then have "SInt 1 0 \<in> A \<or> SInt 1 1 \<in> A" by (metis less_2_cases One_nat_def)
    then show ?thesis using sel * by (auto simp: typed_def)
  qed
qed

lemma wt_typed:
  assumes L: "llvm_laws L" and E: "senv_ok L E"
  shows "wt L x \<Longrightarrow> typed L (beh L E x) (op_type x)"
proof (induction x)
  case (Operation d ops)
  have As: "list_all2 (typed L) (map (beh L E) ops) (map op_type ops)"
    using Operation by (auto simp: list_all2_conv_all_nth list_all_length)
  have wt: "wt_node L d (map op_type ops)" using Operation.prems by simp
  show ?case
  proof (cases d)
    case (OperationData c t)
    then show ?thesis using typed_operation [OF L E As] wt by (simp add: op_type_def)
  next
    case (ConstantData c t s)
    then consider "ops = []" "inhabited L t" | w a where "t = Type Array w" "ops = [a]" "op_type a = Type Integer w"
      using wt by (auto simp: map_eq_Cons_conv)
    then show ?thesis
    proof cases
      case 1
      then show ?thesis using ConstantData E by (simp add: op_type_def senv_ok_def)
    next
      case (2 w a)
      have A: "typed L (beh L E a) (Type Integer w)" using As 2 by simp
      have "\<forall>i. arr_val E s i < 256" using E by (simp add: senv_ok_def)
      then show ?thesis
        using 2 ConstantData typed_intD [OF A] by (fastforce simp: op_type_def typed_def list_all_iff)
    qed
  next
    case (ConstantIntData t i)
    then show ?thesis using wt apint_lawsD(1) [OF llvm_lawsD(1) [OF L], of i]
      by (auto simp: op_type_def type_of_apint_def int_ty_eq_Some)
  next
    case (EGraphNodeData t n)
    then show ?thesis using wt E by (simp add: op_type_def senv_ok_def)
  qed (use wt in \<open>simp_all add: op_type_def\<close>)
qed

end
