(* ===== verification/IR_Fold_Int.thy ===== *)
theory IR_Fold_Int
  imports IR_Semantics
begin

text \<open>
  Soundness of the visitors for integer arithmetic, bitwise operations and shifts with respect to
  the reference semantics: the node that a visitor returns is well typed, has the type of the node
  it was given, and takes only values that the original may take. \<open>fold_ok\<close> lists the nodes for
  which the code does not achieve this.
\<close>

declare One_nat_def [simp del]

section \<open>Refinement\<close>

definition refines :: "('i, 'f, 'z) ctx_scheme \<Rightarrow> 'f senv \<Rightarrow> ('i, 'f) op \<Rightarrow> ('i, 'f) op \<Rightarrow> bool" where
  "refines S E y x \<longleftrightarrow> wt S y \<and> op_type y = op_type x \<and> beh S E y \<subseteq> beh S E x"

definition refs_ok :: "('i, 'f, 'z) ctx_scheme \<Rightarrow> bool" where
  "refs_ok S \<longleftrightarrow> (\<forall>a b. same_ref S a b \<longrightarrow> a = b)"

definition fold_ok :: "('i, 'f, 'z) ctx_scheme \<Rightarrow> 'f senv \<Rightarrow> ('i, 'f) op \<Rightarrow> bool" where
  "fold_ok S E x \<longleftrightarrow>
     (case (op_opcode x, operands x) of
        (FCmp _, [l, r]) \<Rightarrow> \<not> same_ref S l r
      | (FRem, [l, r]) \<Rightarrow> as_const_float l = None \<or> as_const_float r = None
      | (Bitcast, [y]) \<Rightarrow> op_opcode y \<noteq> Bitcast
      | (Load, [d, i]) \<Rightarrow> op_opcode d = FixedArray \<longrightarrow> (\<exists>v. beh S E i = {v})
      | (Trunc, [y]) \<Rightarrow> as_const_int y \<noteq> None \<longrightarrow> op_type y \<noteq> op_type x
      | (ZExt, [y]) \<Rightarrow> as_const_int y \<noteq> None \<longrightarrow> op_type y \<noteq> op_type x
      | (SExt, [y]) \<Rightarrow> as_const_int y \<noteq> None \<longrightarrow> op_type y \<noteq> op_type x
      | _ \<Rightarrow> True)"

definition sound_folder :: "('i, 'f, 'z) ctx_scheme \<Rightarrow> 'f senv \<Rightarrow> ('i, 'f) folder \<Rightarrow> bool" where
  "sound_folder S E cf \<longleftrightarrow> (\<forall>x y. wt S x \<longrightarrow> fold_ok S E x \<longrightarrow> cf x = Some y \<longrightarrow> refines S E y x)"

definition world_ok :: "('i, 'f, 'z) ctx_scheme \<Rightarrow> 'f senv \<Rightarrow> bool" where
  "world_ok S E \<longleftrightarrow> llvm_laws S \<and> senv_ok S E \<and> refs_ok S"

lemma world_okD:
  assumes "world_ok S E"
  shows "llvm_laws S" "senv_ok S E" "apint_laws S" "same_ref S a b \<Longrightarrow> a = b"
  using assms by (simp_all add: world_ok_def llvm_laws_def refs_ok_def)

lemma refines_refl: "wt S x \<Longrightarrow> refines S E x x"
  by (simp add: refines_def)

lemma refines_trans: "refines S E z y \<Longrightarrow> refines S E y x \<Longrightarrow> refines S E z x"
  unfolding refines_def by auto

lemma sound_folderD: "sound_folder S E cf \<Longrightarrow> wt S x \<Longrightarrow> fold_ok S E x \<Longrightarrow> cf x = Some y \<Longrightarrow> refines S E y x"
  unfolding sound_folder_def by blast

section \<open>Integer expressions\<close>

definition ivals :: "('i, 'f, 'z) ctx_scheme \<Rightarrow> 'f senv \<Rightarrow> ('i, 'f) op \<Rightarrow> nat set" where
  "ivals S E x = {n. SInt (desc (op_type x)) n \<in> beh S E x}"

text \<open>\<open>is_i S w x\<close>: a well-typed expression of the integer type of width \<open>w\<close>.\<close>

definition is_i :: "('i, 'f, 'z) ctx_scheme \<Rightarrow> nat \<Rightarrow> ('i, 'f) op \<Rightarrow> bool" where
  "is_i S w x \<longleftrightarrow> wt S x \<and> op_type x = Type Integer w"

lemma ivalsD:
  assumes "world_ok S E" "is_i S w x"
  shows "0 < w" "w < 2 ^ 24" "ivals S E x \<noteq> {}" "n \<in> ivals S E x \<Longrightarrow> n < 2 ^ w" "beh S E x = SInt w ` ivals S E x"
proof -
  have t: "typed S (beh S E x) (Type Integer w)"
    using wt_typed [OF world_okD(1,2) [OF assms(1)], of x] assms(2) by (simp add: is_i_def)
  have d: "desc (op_type x) = w" using assms(2) by (simp add: is_i_def)
  show "0 < w" "w < 2 ^ 24" using typed_intD(1,2) [OF t] by auto
  show "ivals S E x \<noteq> {}" using typed_intD(3) [OF t] by (auto simp: ivals_def d)
  show "n \<in> ivals S E x \<Longrightarrow> n < 2 ^ w" using typed_intD(4) [OF t] by (auto simp: ivals_def d)
  show "beh S E x = SInt w ` ivals S E x" using typed_intD(4) [OF t] by (auto simp: ivals_def d)
qed

lemma refines_int:
  assumes "world_ok S E" "is_i S w x"
  shows "refines S E y x \<longleftrightarrow> is_i S w y \<and> ivals S E y \<subseteq> ivals S E x"
proof
  assume r: "refines S E y x"
  then have y: "is_i S w y" using assms(2) by (simp add: refines_def is_i_def)
  then show "is_i S w y \<and> ivals S E y \<subseteq> ivals S E x"
    using r assms(2) by (auto simp: refines_def ivals_def is_i_def)
next
  assume "is_i S w y \<and> ivals S E y \<subseteq> ivals S E x"
  then show "refines S E y x"
    using ivalsD(5) [OF assms] ivalsD(5) [OF assms(1), of w y] assms(2) by (auto simp: refines_def is_i_def)
qed

definition int_node :: "opcode \<Rightarrow> nat \<Rightarrow> ('i, 'f) op list \<Rightarrow> ('i, 'f) op" where
  "int_node c w ops = Operation (OperationData c (Type Integer w)) ops"

lemma int_node_simps [simp]:
  "op_type (int_node c w ops) = Type Integer w" "op_opcode (int_node c w ops) = c" "operands (int_node c w ops) = ops"
  by (simp_all add: int_node_def op_type_def op_opcode_def)

lemma wt_operation_int: "c \<in> int_ops \<Longrightarrow> wt_operation L c t ts \<longleftrightarrow> is_int t \<and> ts = [t, t]"
  unfolding int_ops_def by (elim insertE) (simp_all add: wt_operation_def int_ops_def float_ops_def conv_ops_def)

lemma int_binop_node:
  assumes W: "world_ok S E" and c: "c \<in> int_ops" and i: "is_i S w l" "is_i S w r"
  shows "is_i S w (int_node c w [l, r])"
    and "ivals S E (int_node c w [l, r]) = (\<Union>a\<in>ivals S E l. \<Union>b\<in>ivals S E r. int_sem c w a b)"
proof -
  have t: "op_type l = Type Integer w" "op_type r = Type Integer w" "wt S l" "wt S r" using i by (simp_all add: is_i_def)
  have "wt_operation S c (Type Integer w) [Type Integer w, Type Integer w]"
    using c by (simp add: wt_operation_int is_int_def)
  then show "is_i S w (int_node c w [l, r])" using t by (simp add: is_i_def int_node_def op_type_def)
  have n: "c \<noteq> Undef" "c \<noteq> FixedArray" "c \<noteq> Alloc" using c by (auto simp: int_ops_def)
  have "beh S E (int_node c w [l, r]) = (\<Union>a\<in>beh S E l. \<Union>b\<in>beh S E r. binary_beh S c a b)"
    using n by (simp add: int_node_def)
  also have "\<dots> = SInt w ` (\<Union>a\<in>ivals S E l. \<Union>b\<in>ivals S E r. int_sem c w a b)"
    using ivalsD(5) [OF W i(1)] ivalsD(5) [OF W i(2)] by (auto simp: binary_beh_int [OF c])
  finally show "ivals S E (int_node c w [l, r]) = (\<Union>a\<in>ivals S E l. \<Union>b\<in>ivals S E r. int_sem c w a b)"
    by (auto simp: ivals_def)
qed

lemma wt_int_op:
  assumes "wt S x" "op_opcode x = c" "c \<in> int_ops"
  shows "\<exists>w l r. x = int_node c w [l, r] \<and> is_i S w l \<and> is_i S w r"
proof -
  obtain d ops where x: "x = Operation d ops" by (cases x)
  obtain t where d: "d = OperationData c t"
    using assms x by (cases d) (auto simp: op_opcode_def int_ops_def)
  have wt: "list_all (wt S) ops" "wt_operation S c t (map op_type ops)"
    using assms(1) by (simp_all add: x d list.pred_map)
  have "is_int t \<and> map op_type ops = [t, t]"
    using wt(2) by (simp only: wt_operation_int [OF assms(3)])
  then obtain l r where lr: "is_int t" "ops = [l, r]" "op_type l = t" "op_type r = t" by (auto simp: map_eq_Cons_conv)
  have t: "t = Type Integer (desc t)" using lr(1) by (simp only: is_int_iff)
  have "x = int_node c (desc t) [l, r]"
    unfolding int_node_def t [symmetric] using x d lr(2) by simp
  moreover have "is_i S (desc t) l" "is_i S (desc t) r" using wt(1) lr(2-4) t by (auto simp: is_i_def)
  ultimately show ?thesis by blast
qed

section \<open>Constants\<close>

definition const_node :: "('i, 'f, 'z) ctx_scheme \<Rightarrow> 'i \<Rightarrow> ('i, 'f) op" where
  "const_node S i = Operation (ConstantIntData (Type Integer (ap_width S i)) i) []"

lemma const_node:
  assumes "world_ok S E" "0 < ap_width S i" "ap_width S i < 2 ^ 24"
  shows "is_i S (ap_width S i) (const_node S i)" "ivals S E (const_node S i) = {ap_val S i}"
  using assms by (simp_all add: is_i_def const_node_def op_type_def type_of_apint_def int_ty_Some ivals_def)

lemma as_const_int_wt:
  assumes "world_ok S E" "is_i S w x" "as_const_int x = Some i"
  shows "x = const_node S i" "ap_width S i = w" "ivals S E x = {ap_val S i}" "0 < w" "w < 2 ^ 24" "ap_val S i < 2 ^ w"
proof -
  obtain t where x: "op_data x = ConstantIntData t i"
    using assms(3) by (auto simp: as_const_int_def split: opdata.splits)
  moreover have "operands x = []" "type_of_apint S i = Some t"
    using assms(2) x by (cases x; simp add: is_i_def)+
  ultimately show *: "x = const_node S i" "ap_width S i = w"
    using assms(2) by (cases x; auto simp: const_node_def type_of_apint_def int_ty_eq_Some is_i_def op_type_def)+
  show w: "0 < w" "w < 2 ^ 24" using ivalsD(1,2) [OF assms(1,2)] by auto
  show "ivals S E x = {ap_val S i}" using const_node(2) [OF assms(1), of i] * w by simp
  show "ap_val S i < 2 ^ w" using apint_lawsD(1) [OF world_okD(3) [OF assms(1)], of i] *(2) by simp
qed

lemma CreateConstantInt_sound:
  assumes W: "world_ok S E" and cf: "sound_folder S E cf" and c: "CreateConstantInt S cf i = Some y"
  shows "is_i S (ap_width S i) y" "ivals S E y = {ap_val S i}"
proof -
  have w: "0 < ap_width S i" "ap_width S i < 2 ^ 24" and f: "cf (const_node S i) = Some y"
    using c by (auto simp: CreateConstantInt_def mk_constant_int_data_def mk_operation_Some type_of_apint_def
        const_node_def int_ty_eq_Some Option.bind_eq_Some_conv)
  have "fold_ok S E (const_node S i)" by (simp add: fold_ok_def const_node_def op_opcode_def)
  then have "refines S E y (const_node S i)"
    using sound_folderD [OF cf _ _ f] const_node(1) [OF W w] by (simp add: is_i_def)
  then have y: "is_i S (ap_width S i) y" "ivals S E y \<subseteq> {ap_val S i}"
    using refines_int [OF W const_node(1) [OF W w]] const_node(2) [OF W w] by auto
  then show "is_i S (ap_width S i) y" "ivals S E y = {ap_val S i}" using ivalsD(3) [OF W y(1)] by auto
qed

lemma CreateBool_sound:
  assumes W: "world_ok S E" and cf: "sound_folder S E cf" and c: "CreateBool S cf b = Some y"
  shows "is_i S 1 y" "ivals S E y = {if b then 1 else 0}"
  using CreateConstantInt_sound [OF W cf, of "ap_make S 1 (if b then 1 else 0)" y] c world_okD(3) [OF W]
  by (auto simp: CreateBool_def apint_lawsD)

definition undef_node :: "ty \<Rightarrow> ('i, 'f) op" where
  "undef_node t = Operation (OperationData Undef t) []"

lemma CreateUndef_sound:
  assumes W: "world_ok S E" and cf: "sound_folder S E cf" and w: "0 < w" "w < 2 ^ 24"
    and c: "CreateUndef cf (Type Integer w) = Some y"
  shows "is_i S w y" "ivals S E y \<subseteq> upto_pow w"
proof -
  let ?u = "undef_node (Type Integer w)"
  have inh: "inhabited S (Type Integer w)" using w by (auto simp: inhabited_def intro: exI [of _ "SInt w 0"])
  then have u: "is_i S w ?u" by (simp add: is_i_def undef_node_def op_type_def wt_operation_def)
  have f: "cf ?u = Some y" using c by (auto simp: CreateUndef_def mk_operation_Some undef_node_def Option.bind_eq_Some_conv)
  have "fold_ok S E ?u" by (simp add: fold_ok_def undef_node_def op_opcode_def)
  then have "refines S E y ?u" using sound_folderD [OF cf _ _ f] u by (simp add: is_i_def)
  then show "is_i S w y" "ivals S E y \<subseteq> upto_pow w"
    using refines_int [OF W u] ivalsD(4) [OF W u] by auto
qed

text \<open>The binary constructors on integers.\<close>

lemma create_int_binop_sound:
  assumes W: "world_ok S E" and cf: "sound_folder S E cf" and op: "op \<in> int_ops"
    and i: "is_i S w l" "is_i S w r" and c: "create_int_binop cf op l r = Some y"
  shows "is_i S w y" "ivals S E y \<subseteq> (\<Union>a\<in>ivals S E l. \<Union>b\<in>ivals S E r. int_sem op w a b)"
proof -
  have t: "op_type l = Type Integer w" "op_type r = Type Integer w" using i by (simp_all add: is_i_def)
  have f: "cf (int_node op w [l, r]) = Some y"
    using c t by (auto simp: create_int_binop_def CreateBinary_def mk_operation_Some int_node_def Option.bind_eq_Some_conv)
  note n = int_binop_node [OF W op i]
  have "fold_ok S E (int_node op w [l, r])" using op by (auto simp: fold_ok_def int_ops_def)
  then have "refines S E y (int_node op w [l, r])"
    using sound_folderD [OF cf _ _ f] n(1) by (simp add: is_i_def)
  then show "is_i S w y" "ivals S E y \<subseteq> (\<Union>a\<in>ivals S E l. \<Union>b\<in>ivals S E r. int_sem op w a b)"
    using refines_int [OF W n(1)] n(2) by auto
qed

section \<open>Integer visitors\<close>

text \<open>\<open>int_ok S E w V y\<close>: an integer expression of width \<open>w\<close> all of whose values are in \<open>V\<close>.\<close>

definition int_ok :: "('i, 'f, 'z) ctx_scheme \<Rightarrow> 'f senv \<Rightarrow> nat \<Rightarrow> nat set \<Rightarrow> ('i, 'f) op \<Rightarrow> bool" where
  "int_ok S E w V y \<longleftrightarrow> is_i S w y \<and> ivals S E y \<subseteq> V"

definition results :: "opcode \<Rightarrow> nat \<Rightarrow> nat set \<Rightarrow> nat set \<Rightarrow> nat set" where
  "results c w A B = (\<Union>a\<in>A. \<Union>b\<in>B. int_sem c w a b)"

lemma resultsI: "a \<in> A \<Longrightarrow> b \<in> B \<Longrightarrow> n \<in> int_sem c w a b \<Longrightarrow> n \<in> results c w A B"
  unfolding results_def by blast

lemma int_okI: "is_i S w y \<Longrightarrow> ivals S E y \<subseteq> V \<Longrightarrow> int_ok S E w V y"
  by (simp add: int_ok_def)

lemma int_ok_mono: "int_ok S E w V y \<Longrightarrow> V \<subseteq> V' \<Longrightarrow> int_ok S E w V' y"
  by (auto simp: int_ok_def)

lemma ivals_node:
  "world_ok S E \<Longrightarrow> c \<in> int_ops \<Longrightarrow> is_i S w l \<Longrightarrow> is_i S w r \<Longrightarrow>
     ivals S E (int_node c w [l, r]) = results c w (ivals S E l) (ivals S E r)"
  by (simp add: int_binop_node(2) results_def)

lemma visitOperation_int:
  assumes "world_ok S E" "c \<in> int_ops" "is_i S w l" "is_i S w r" "visitOperation (int_node c w [l, r]) = Some y"
  shows "int_ok S E w (results c w (ivals S E l) (ivals S E r)) y"
proof -
  have "y = int_node c w [l, r]" using assms(5) by (simp add: visitOperation_def)
  then show ?thesis using int_binop_node(1) [OF assms(1-4)] ivals_node [OF assms(1-4)] by (simp add: int_ok_def)
qed

lemma const_int_ok:
  assumes "world_ok S E" "sound_folder S E cf" "CreateConstantInt S cf i = Some y" "ap_width S i = w" "ap_val S i \<in> V"
  shows "int_ok S E w V y"
  using CreateConstantInt_sound [OF assms(1-3)] assms(4,5) by (simp add: int_ok_def)

lemma binop_int_ok:
  assumes "world_ok S E" "sound_folder S E cf" "create_int_binop cf c l r = Some y" "c \<in> int_ops"
    "int_ok S E w A l" "int_ok S E w B r"
  shows "int_ok S E w (results c w A B) y"
  using create_int_binop_sound [OF assms(1,2,4) _ _ assms(3), of w] assms(5,6) by (fastforce simp: int_ok_def results_def)

lemma is_constant_intD:
  assumes "world_ok S E" "is_i S w x" "is_constant_int S x n"
  shows "ivals S E x = {n}" "n < 2 ^ w"
  using as_const_int_wt(3,6) [OF assms(1,2)] assms(3) world_okD(3) [OF assms(1)]
  by (auto simp: is_constant_int_def apint_lawsD split: option.splits)

lemma is_constant_onesD:
  assumes "world_ok S E" "is_i S w x" "is_constant_ones S x"
  shows "ivals S E x = {2 ^ w - 1}"
  using as_const_int_wt(2,3) [OF assms(1,2)] assms(3) world_okD(3) [OF assms(1)]
  by (auto simp: is_constant_ones_def apint_lawsD split: option.splits)

lemma wt_undef:
  assumes "wt S x" "is_undef x"
  shows "x = undef_node (op_type x)" "inhabited S (op_type x)"
proof -
  obtain d ops where x: "x = Operation d ops" by (cases x)
  have "\<exists>t. d = OperationData Undef t \<and> ops = [] \<and> inhabited S t"
    using assms x by (cases d) (auto simp: is_undef_def op_opcode_def wt_operation_def)
  then show "x = undef_node (op_type x)" "inhabited S (op_type x)"
    using x by (auto simp: undef_node_def op_type_def)
qed

lemma is_undefD:
  assumes "world_ok S E" "is_i S w x" "is_undef x"
  shows "ivals S E x = upto_pow w"
proof -
  have "x = undef_node (Type Integer w)" using wt_undef(1) [of S x] assms(2,3) by (simp add: is_i_def)
  moreover have "0 < w" "w < 2 ^ 24" using ivalsD(1,2) [OF assms(1,2)] by auto
  ultimately show ?thesis by (auto simp: ivals_def undef_node_def op_type_def)
qed

lemma with_binary_node [simp]: "with_binary (int_node c w [l, r]) k = k l r"
  by (simp add: with_binary_def)

text \<open>Constants given to \<^verbatim>\<open>TRY_CONST_INT\<close>.\<close>

lemma try_const_int_cases:
  assumes "world_ok S E" "is_i S w l" "is_i S w r" "try_const_int l r func rest = Some y"
  obtains "rest = Some y" "as_const_int l = None \<or> as_const_int r = None"
  | a b where "func a b = Some y" "ap_width S a = w" "ap_width S b = w" "ivals S E l = {ap_val S a}" "ivals S E r = {ap_val S b}"
    "0 < w" "w < 2 ^ 24" "ap_val S a < 2 ^ w" "ap_val S b < 2 ^ w"
proof (cases "as_const_int l = None \<or> as_const_int r = None")
  case True
  then show thesis using that(1) assms(4) by (auto simp: try_const_int_def split: option.splits)
next
  case False
  then obtain a b where "as_const_int l = Some a" "as_const_int r = Some b" by auto
  then show thesis
    using that(2) [of a b] assms(4) as_const_int_wt(2-) [OF assms(1,2), of a] as_const_int_wt(2-) [OF assms(1,3), of b]
    by (simp add: try_const_int_def)
qed

lemma mod_pow_onto:
  assumes "n < 2 ^ w" "b < (2 :: nat) ^ w"
  shows "\<exists>a<2 ^ w. (a + b) mod 2 ^ w = n" "\<exists>a<2 ^ w. (a + (2 ^ w - b)) mod 2 ^ w = n"
    "\<exists>a<2 ^ w. (b + (2 ^ w - a)) mod 2 ^ w = n" "\<exists>a<2 ^ w. xor a b = n"
proof -
  have "((n + (2 ^ w - b)) mod 2 ^ w + b) mod 2 ^ w = n" "((n + b) mod 2 ^ w + (2 ^ w - b)) mod 2 ^ w = n"
    using assms mod_add_left_eq [of "n + b" "2 ^ w" "2 ^ w - b"] mod_add_left_eq [of "n + (2 ^ w - b)" "2 ^ w" b] by simp_all
  moreover have "(n + (2 ^ w - b)) mod 2 ^ w < 2 ^ w" "(n + b) mod 2 ^ w < 2 ^ w" by simp_all
  ultimately show "\<exists>a<2 ^ w. (a + b) mod 2 ^ w = n" "\<exists>a<2 ^ w. (a + (2 ^ w - b)) mod 2 ^ w = n" by blast+
  show "\<exists>a<2 ^ w. (b + (2 ^ w - a)) mod 2 ^ w = n"
  proof (cases "n \<le> b")
    case True
    then show ?thesis using assms by (intro exI [of _ "b - n"]) simp
  next
    case False
    then have "b + (2 ^ w - (2 ^ w + b - n)) = n" using assms by simp
    then show ?thesis using False assms by (intro exI [of _ "2 ^ w + b - n"]) simp
  qed
  have "xor (xor n b) b = n" by (simp add: xor.assoc)
  then show "\<exists>a<2 ^ w. xor a b = n" using assms xor_less_power by blast
qed

lemma int_sem_onto:
  assumes "c \<in> {Add, Sub, Xor}" "n < 2 ^ w" "b < 2 ^ w"
  shows "\<exists>a<2 ^ w. n \<in> int_sem c w a b" "\<exists>a<2 ^ w. n \<in> int_sem c w b a"
proof -
  note m = mod_pow_onto [OF assms(2,3)]
  consider "c = Add" | "c = Sub" | "c = Xor" using assms(1) by blast
  then show "\<exists>a<2 ^ w. n \<in> int_sem c w a b" by cases (use m in \<open>simp_all add: eq_commute [of n]\<close>)
  consider "c = Add" | "c = Sub" | "c = Xor" using assms(1) by blast
  then show "\<exists>a<2 ^ w. n \<in> int_sem c w b a"
    by cases (use m in \<open>simp_all add: eq_commute [of n] add.commute [of b] xor.commute [of b]\<close>)
qed

lemma undef_int_ok:
  assumes W: "world_ok S E" "sound_folder S E cf" and c: "c \<in> {Add, Sub, Xor}"
    and i: "is_i S w l" "is_i S w r" and u: "is_undef l \<or> is_undef r" and y: "CreateUndef cf (Type Integer w) = Some y"
  shows "int_ok S E w (results c w (ivals S E l) (ivals S E r)) y"
proof -
  have y: "int_ok S E w (upto_pow w) y"
    using CreateUndef_sound [OF W ivalsD(1,2) [OF W(1) i(1)] y] by (simp add: int_ok_def)
  obtain a b where ab: "a \<in> ivals S E l" "a < 2 ^ w" "b \<in> ivals S E r" "b < 2 ^ w"
    using ivalsD(3,4) [OF W(1) i(1)] ivalsD(3,4) [OF W(1) i(2)] by blast
  have "upto_pow w \<subseteq> results c w (ivals S E l) (ivals S E r)"
  proof
    fix n assume "n \<in> upto_pow w"
    then have n: "n < 2 ^ w" by simp
    show "n \<in> results c w (ivals S E l) (ivals S E r)"
    proof (cases "is_undef l")
      case True
      then have "ivals S E l = upto_pow w" by (rule is_undefD [OF W(1) i(1)])
      moreover obtain a' where "a' < 2 ^ w" "n \<in> int_sem c w a' b" using int_sem_onto(1) [OF c n ab(4)] by blast
      ultimately show ?thesis using ab(3) resultsI [of a'] by simp
    next
      case False
      then have r: "ivals S E r = upto_pow w" using u is_undefD [OF W(1) i(2)] by blast
      obtain b' where "b' < 2 ^ w" "n \<in> int_sem c w a b'" using int_sem_onto(2) [OF c n ab(2)] by blast
      then show ?thesis using r ab(1) resultsI [of a _ b'] by simp
    qed
  qed
  then show ?thesis by (rule int_ok_mono [OF y])
qed

text \<open>The common end of the visitors: two constants are folded, anything else is returned as it is.\<close>

lemma fold_constants':
  assumes W: "world_ok S E" and i: "is_i S w l" "is_i S w r"
    and y: "try_const_int l r func rest = Some y"
    and rest: "rest = Some y \<Longrightarrow> int_ok S E w (results c w (ivals S E l) (ivals S E r)) y"
    and f: "\<And>a b. func a b = Some y \<Longrightarrow> ap_width S a = w \<Longrightarrow> ap_width S b = w \<Longrightarrow> 0 < w \<Longrightarrow> w < 2 ^ 24 \<Longrightarrow>
      int_ok S E w (int_sem c w (ap_val S a) (ap_val S b)) y"
  shows "int_ok S E w (results c w (ivals S E l) (ivals S E r)) y"
proof (cases rule: try_const_int_cases [OF W i y])
  case 1
  then show ?thesis using rest by blast
next
  case (2 a b)
  then show ?thesis using f [of a b] by (simp add: results_def)
qed

lemma fold_constants:
  assumes W: "world_ok S E" and c: "c \<in> int_ops" and i: "is_i S w l" "is_i S w r"
    and y: "try_const_int l r func (visitOperation (int_node c w [l, r])) = Some y"
    and f: "\<And>a b. func a b = Some y \<Longrightarrow> ap_width S a = w \<Longrightarrow> ap_width S b = w \<Longrightarrow> 0 < w \<Longrightarrow> w < 2 ^ 24 \<Longrightarrow>
      int_ok S E w (int_sem c w (ap_val S a) (ap_val S b)) y"
  shows "int_ok S E w (results c w (ivals S E l) (ivals S E r)) y"
  by (rule fold_constants' [OF W i y visitOperation_int [OF W c i] f])

text \<open>An operation that keeps one operand.\<close>

lemma keep_left:
  assumes "world_ok S E" "is_i S w l" "ivals S E r = {b}" "\<And>a. a < 2 ^ w \<Longrightarrow> a \<in> int_sem c w a b"
  shows "int_ok S E w (results c w (ivals S E l) (ivals S E r)) l"
  using assms ivalsD(4) [OF assms(1,2)] by (auto simp: int_ok_def results_def)

lemma keep_right:
  assumes "world_ok S E" "is_i S w r" "ivals S E l = {a}" "\<And>b. b < 2 ^ w \<Longrightarrow> b \<in> int_sem c w a b"
  shows "int_ok S E w (results c w (ivals S E l) (ivals S E r)) r"
  using assms ivalsD(4) [OF assms(1,2)] by (auto simp: int_ok_def results_def)

text \<open>An absorbing constant on either side.\<close>

lemma absorb_left:
  assumes "world_ok S E" "is_i S w l" "is_i S w r" "ivals S E l = {a}" "\<And>b. b < 2 ^ w \<Longrightarrow> a \<in> int_sem c w a b"
  shows "int_ok S E w (results c w (ivals S E l) (ivals S E r)) l"
  using assms ivalsD(3,4) [OF assms(1,3)] by (fastforce simp: int_ok_def results_def)

lemma absorb_right:
  assumes "world_ok S E" "is_i S w l" "is_i S w r" "ivals S E r = {b}" "\<And>a. a < 2 ^ w \<Longrightarrow> b \<in> int_sem c w a b"
  shows "int_ok S E w (results c w (ivals S E l) (ivals S E r)) r"
  using assms ivalsD(3,4) [OF assms(1,2)] by (fastforce simp: int_ok_def results_def)

text \<open>A constant that every pair of operands may give.\<close>

lemma constant_result:
  assumes W: "world_ok S E" "sound_folder S E cf" and i: "is_i S w l" "is_i S w r"
    and y: "CreateConstantInt S cf (ap_make S w 0) = Some y"
    and z: "\<exists>a\<in>ivals S E l. \<exists>b\<in>ivals S E r. 0 \<in> int_sem c w a b"
  shows "int_ok S E w (results c w (ivals S E l) (ivals S E r)) y"
  using const_int_ok [OF W y] apint_lawsD(2,3) [OF world_okD(3) [OF W(1)] ivalsD(1) [OF W(1) i(1)]] z
  by (simp add: results_def)

lemma int_ops_mem [simp]:
  "Add \<in> int_ops" "Sub \<in> int_ops" "Mul \<in> int_ops" "UDiv \<in> int_ops" "SDiv \<in> int_ops" "URem \<in> int_ops" "SRem \<in> int_ops"
  "And \<in> int_ops" "Or \<in> int_ops" "Xor \<in> int_ops" "Shl \<in> int_ops" "LShr \<in> int_ops" "AShr \<in> int_ops"
  by (simp_all add: int_ops_def)

lemma visitAdd_sound:
  assumes W: "world_ok S E" "sound_folder S E cf" and i: "is_i S w l" "is_i S w r"
    and y: "visitAdd S cf (int_node Add w [l, r]) = Some y"
  shows "int_ok S E w (results Add w (ivals S E l) (ivals S E r)) y"
proof -
  consider "is_undef l \<or> is_undef r" "CreateUndef cf (Type Integer w) = Some y"
    | "is_constant_int S l 0" "y = r" | "is_constant_int S r 0" "y = l"
    | "try_const_int l r (\<lambda>a b. CreateConstantInt S cf (ap_add S a b)) (visitOperation (int_node Add w [l, r])) = Some y"
    using y unfolding visitAdd_def with_binary_node int_node_simps
    by - ((split if_split_asm, blast)+, blast)
  then show ?thesis
  proof cases
    case 1
    then show ?thesis using undef_int_ok [OF W _ i] by blast
  next
    case 2
    then show ?thesis using keep_right [OF W(1) i(2) is_constant_intD(1) [OF W(1) i(1)]] by simp
  next
    case 3
    then show ?thesis using keep_left [OF W(1) i(1) is_constant_intD(1) [OF W(1) i(2)]] by simp
  next
    case 4
    then show ?thesis
      by (rule fold_constants [OF W(1) int_ops_mem(1) i])
        (simp_all add: const_int_ok [OF W] apint_binopD [OF world_okD(3) [OF W(1)]])
  qed
qed

lemma visitSub_sound:
  assumes W: "world_ok S E" "sound_folder S E cf" and i: "is_i S w l" "is_i S w r"
    and y: "visitSub S cf (int_node Sub w [l, r]) = Some y"
  shows "int_ok S E w (results Sub w (ivals S E l) (ivals S E r)) y"
proof -
  consider "is_undef l \<or> is_undef r" "CreateUndef cf (Type Integer w) = Some y" | "is_constant_int S r 0" "y = l"
    | "same_ref S r l" "CreateConstantInt S cf (ap_make S w 0) = Some y"
    | "try_const_int l r (\<lambda>a b. CreateConstantInt S cf (ap_sub S a b)) (visitOperation (int_node Sub w [l, r])) = Some y"
    using y unfolding visitSub_def with_binary_node int_node_simps bitwidth_int Option.bind.simps
    by - ((split if_split_asm, blast)+, blast)
  then show ?thesis
  proof cases
    case 1
    then show ?thesis using undef_int_ok [OF W _ i] by blast
  next
    case 2
    then show ?thesis using keep_left [OF W(1) i(1) is_constant_intD(1) [OF W(1) i(2)]] by simp
  next
    case 3
    then have "r = l" using world_okD(4) [OF W(1)] by blast
    then show ?thesis using constant_result [OF W i 3(2), of Sub] ivalsD(3,4) [OF W(1) i(1)] by force
  next
    case 4
    then show ?thesis
      by (rule fold_constants [OF W(1) int_ops_mem(2) i])
        (simp_all add: const_int_ok [OF W] apint_binopD [OF world_okD(3) [OF W(1)]])
  qed
qed

lemma visitMul_sound:
  assumes W: "world_ok S E" "sound_folder S E cf" and i: "is_i S w l" "is_i S w r"
    and y: "visitMul S cf (int_node Mul w [l, r]) = Some y"
  shows "int_ok S E w (results Mul w (ivals S E l) (ivals S E r)) y"
proof -
  consider "is_constant_int S l 0" "y = l" | "is_constant_int S r 0" "y = r"
    | "try_const_int l r (\<lambda>a b. CreateConstantInt S cf (ap_mul S a b)) (visitOperation (int_node Mul w [l, r])) = Some y"
    using y unfolding visitMul_def with_binary_node int_node_simps
    by - ((split if_split_asm, blast)+, blast)
  then show ?thesis
  proof cases
    case 1
    then show ?thesis using absorb_left [OF W(1) i is_constant_intD(1) [OF W(1) i(1)]] by simp
  next
    case 2
    then show ?thesis using absorb_right [OF W(1) i is_constant_intD(1) [OF W(1) i(2)]] by simp
  next
    case 3
    then show ?thesis
      by (rule fold_constants [OF W(1) int_ops_mem(3) i])
        (simp_all add: const_int_ok [OF W] apint_binopD [OF world_okD(3) [OF W(1)]])
  qed
qed

section \<open>Facts on signed readings and bits\<close>

lemma of_signed_to_signed: "n < 2 ^ w \<Longrightarrow> of_signed w (to_signed w n) = n"
  by (simp add: of_signed_def to_signed_def)

lemma to_signed_0: "0 < w \<Longrightarrow> to_signed w 0 = 0"
  by (simp add: to_signed_def)

lemma to_signed_1: "1 < w \<Longrightarrow> to_signed w 1 = 1"
  using one_less_power [of "2 :: nat" "w - 1"] by (simp add: to_signed_def)

lemma of_signed_0 [simp]: "of_signed w 0 = 0"
  by (simp add: of_signed_def)

lemma sdiv_srem_0: "0 < w \<Longrightarrow> sdiv_val w 0 b = 0" "0 < w \<Longrightarrow> srem_val w 0 b = 0"
  by (simp_all add: sdiv_val_def srem_val_def to_signed_0 signed_divide_int_def signed_modulo_int_def)

lemma sdiv_srem_1:
  assumes "1 < w" "a < 2 ^ w"
  shows "sdiv_val w a 1 = a" "srem_val w a 1 = 0" "\<not> sdiv_faults w a 1"
proof -
  have "(4 :: nat) \<le> 2 ^ w" using power_increasing [of 2 w "2 :: nat"] assms(1) by simp
  then have "2 ^ w - 1 \<noteq> (1 :: nat)" by linarith
  then show "\<not> sdiv_faults w a 1" by (simp add: sdiv_faults_def)
  show "sdiv_val w a 1 = a" "srem_val w a 1 = 0"
    using assms by (simp_all add: sdiv_val_def srem_val_def to_signed_1 of_signed_to_signed
        signed_divide_int_def signed_modulo_int_def sgn_mult_abs)
qed

lemma shift_0:
  assumes "0 < w" "a < 2 ^ w"
  shows "shl_val w a 0 = a" "ashr_val w a 0 = a" "shl_val w 0 b = 0" "ashr_val w 0 b = 0"
  using assms by (simp_all add: shl_val_def ashr_val_def of_signed_to_signed to_signed_0)

lemma bit_less_power: "n < 2 ^ w \<Longrightarrow> bit n k \<Longrightarrow> k < (w :: nat)" for n :: nat
  by (metis bit_take_bit_iff take_bit_nat_eq_self_iff)

lemma ones_absorb:
  assumes "a < (2 :: nat) ^ w"
  shows "and a (2 ^ w - 1) = a" "and (2 ^ w - 1) a = a" "or a (2 ^ w - 1) = 2 ^ w - 1" "or (2 ^ w - 1) a = 2 ^ w - 1"
proof -
  show a: "and a (2 ^ w - 1) = a" using assms by (simp add: and_low_mask)
  then show "and (2 ^ w - 1) a = a" by (simp add: and.commute)
  have "or a (mask w) = mask w"
    by (rule bit_eqI) (use bit_less_power [OF assms] in \<open>auto simp: bit_simps\<close>)
  then show "or a (2 ^ w - 1) = 2 ^ w - 1" "or (2 ^ w - 1) a = 2 ^ w - 1"
    by (simp_all add: mask_eq_exp_minus_1 or.commute)
qed

lemma bit_shl_val: "bit (shl_val w a b) k \<longleftrightarrow> b \<le> k \<and> k < w \<and> bit a (k - b)"
  by (auto simp: shl_val_def bit_simps simp flip: take_bit_eq_mod)

lemma and_drop_shl:
  assumes "v < 2 ^ w"
  shows "and m (drop_bit s v) = drop_bit s (and v (shl_val w m s))"
  by (rule bit_eqI) (use bit_less_power [OF assms] in \<open>auto simp: bit_simps bit_shl_val\<close>)

lemma bit_high_mask: "s \<le> w \<Longrightarrow> bit (2 ^ w - 2 ^ s :: nat) k \<longleftrightarrow> s \<le> k \<and> k < w"
proof -
  assume s: "s \<le> w"
  have "2 ^ w - 2 ^ s = push_bit s (mask (w - s) :: nat)"
    using s by (simp add: push_bit_eq_mult mask_eq_exp_minus_1 diff_mult_distrib flip: power_add)
  then show ?thesis using s by (auto simp: bit_simps)
qed

lemma shl_drop:
  assumes "v < 2 ^ w" "s \<le> w"
  shows "shl_val w (drop_bit s v) s = and v (2 ^ w - 2 ^ s)"
  by (rule bit_eqI) (use assms in \<open>auto simp: bit_shl_val bit_simps bit_high_mask\<close>)

section \<open>Division\<close>

lemma const_value_ok:
  assumes W: "world_ok S E" "sound_folder S E cf" and w: "ap_width S a = w" "ap_width S b = w" "0 < w" "w < 2 ^ 24"
  shows "do { v \<leftarrow> bvudiv S (Int_Value a) (Int_Value b); CreateIntOfValue S cf v } = Some y \<Longrightarrow>
      int_ok S E w (int_sem UDiv w (ap_val S a) (ap_val S b)) y"
    and "do { v \<leftarrow> bvsdiv S (Int_Value a) (Int_Value b); CreateIntOfValue S cf v } = Some y \<Longrightarrow>
      int_ok S E w (int_sem SDiv w (ap_val S a) (ap_val S b)) y"
    and "do { v \<leftarrow> bvurem S (Int_Value a) (Int_Value b); CreateIntOfValue S cf v } = Some y \<Longrightarrow>
      int_ok S E w (int_sem URem w (ap_val S a) (ap_val S b)) y"
    and "do { v \<leftarrow> bvsrem S (Int_Value a) (Int_Value b); CreateIntOfValue S cf v } = Some y \<Longrightarrow>
      int_ok S E w (int_sem SRem w (ap_val S a) (ap_val S b)) y"
proof -
  note L = world_okD(3) [OF W(1)]
  have ok: "int_value_ok S w a" "int_value_ok S w b" using w by (simp_all add: int_value_ok_def)
  have v: "ap_val S a < 2 ^ w" using apint_lawsD(1) [OF L, of a] w(1) by simp
  have p: "2 ^ (w - 1) - Suc 0 < (2 :: nat) ^ w" by (rule pow_minus_1_less) simp
  obtain u s r t where *: "bvudiv S (Int_Value a) (Int_Value b) = Some (Int_Value u)"
    "bvsdiv S (Int_Value a) (Int_Value b) = Some (Int_Value s)"
    "bvurem S (Int_Value a) (Int_Value b) = Some (Int_Value r)"
    "bvsrem S (Int_Value a) (Int_Value b) = Some (Int_Value t)"
    "ap_width S u = w" "ap_width S s = w" "ap_width S r = w" "ap_width S t = w"
    "ap_val S u = (if ap_val S b = 0 then 2 ^ w - 1 else ap_val S a div ap_val S b)"
    "ap_val S s = (if sdiv_faults w (ap_val S a) (ap_val S b) then 2 ^ (w - 1) - 1 else sdiv_val w (ap_val S a) (ap_val S b))"
    "ap_val S r = (if ap_val S b = 0 then ap_val S a else ap_val S a mod ap_val S b)"
    "ap_val S t = (if ap_val S b = 0 then ap_val S a else srem_val w (ap_val S a) (ap_val S b))"
    using division_values [OF L ok] by auto
  show "do { v \<leftarrow> bvudiv S (Int_Value a) (Int_Value b); CreateIntOfValue S cf v } = Some y \<Longrightarrow>
      int_ok S E w (int_sem UDiv w (ap_val S a) (ap_val S b)) y"
    by (rule const_int_ok [OF W, of u]) (simp_all add: * CreateIntOfValue_def apint_def)
  show "do { v \<leftarrow> bvsdiv S (Int_Value a) (Int_Value b); CreateIntOfValue S cf v } = Some y \<Longrightarrow>
      int_ok S E w (int_sem SDiv w (ap_val S a) (ap_val S b)) y"
    by (rule const_int_ok [OF W, of s]) (use p in \<open>simp_all add: * CreateIntOfValue_def apint_def One_nat_def\<close>)
  show "do { v \<leftarrow> bvurem S (Int_Value a) (Int_Value b); CreateIntOfValue S cf v } = Some y \<Longrightarrow>
      int_ok S E w (int_sem URem w (ap_val S a) (ap_val S b)) y"
    by (rule const_int_ok [OF W, of r]) (simp_all add: * v CreateIntOfValue_def apint_def)
  show "do { v \<leftarrow> bvsrem S (Int_Value a) (Int_Value b); CreateIntOfValue S cf v } = Some y \<Longrightarrow>
      int_ok S E w (int_sem SRem w (ap_val S a) (ap_val S b)) y"
    by (rule const_int_ok [OF W, of t]) (simp_all add: * v CreateIntOfValue_def apint_def)
qed

lemma visitUDiv_sound:
  assumes W: "world_ok S E" "sound_folder S E cf" and i: "is_i S w l" "is_i S w r"
    and y: "visitUDiv S cf (int_node UDiv w [l, r]) = Some y"
  shows "int_ok S E w (results UDiv w (ivals S E l) (ivals S E r)) y"
proof -
  consider "is_constant_int S l 0" "y = l" | "is_constant_int S r 1" "y = l"
    | "try_const_int l r (\<lambda>a b. do { v \<leftarrow> bvudiv S (Int_Value a) (Int_Value b); CreateIntOfValue S cf v })
        (visitOperation (int_node UDiv w [l, r])) = Some y"
    using y unfolding visitUDiv_def with_binary_node int_node_simps by - (split if_split_asm, blast, blast)
  then show ?thesis
  proof cases
    case 1
    then show ?thesis using absorb_left [OF W(1) i is_constant_intD(1) [OF W(1) i(1)]] by simp
  next
    case 2
    then show ?thesis using keep_left [OF W(1) i(1) is_constant_intD(1) [OF W(1) i(2)]] by simp
  next
    case 3
    then show ?thesis by (rule fold_constants [OF W(1) int_ops_mem(4) i]) (rule const_value_ok(1) [OF W])
  qed
qed

lemma visitURem_sound:
  assumes W: "world_ok S E" "sound_folder S E cf" and i: "is_i S w l" "is_i S w r"
    and y: "visitURem S cf (int_node URem w [l, r]) = Some y"
  shows "int_ok S E w (results URem w (ivals S E l) (ivals S E r)) y"
proof -
  note w = ivalsD(1) [OF W(1) i(1)]
  consider "is_constant_int S l 0" "y = l" | "is_constant_int S r 1" "CreateConstantInt S cf (ap_make S w 0) = Some y"
    | "try_const_int l r (\<lambda>a b. do { v \<leftarrow> bvurem S (Int_Value a) (Int_Value b); CreateIntOfValue S cf v })
        (visitOperation (int_node URem w [l, r])) = Some y"
    using y unfolding visitURem_def with_binary_node int_node_simps bitwidth_int Option.bind.simps
    by - ((split if_split_asm, blast)+, blast)
  then show ?thesis
  proof cases
    case 1
    then show ?thesis using absorb_left [OF W(1) i is_constant_intD(1) [OF W(1) i(1)]] by simp
  next
    case 2
    then show ?thesis
      using constant_result [OF W i 2(2), of URem] is_constant_intD(1) [OF W(1) i(2) 2(1)] ivalsD(3) [OF W(1) i(1)] by auto
  next
    case 3
    then show ?thesis by (rule fold_constants [OF W(1) int_ops_mem(6) i]) (rule const_value_ok(3) [OF W])
  qed
qed

lemma visitSDiv_sound:
  assumes W: "world_ok S E" "sound_folder S E cf" and i: "is_i S w l" "is_i S w r"
    and y: "visitSDiv S cf (int_node SDiv w [l, r]) = Some y"
  shows "int_ok S E w (results SDiv w (ivals S E l) (ivals S E r)) y"
proof -
  note w = ivalsD(1) [OF W(1) i(1)]
  have y': "(if is_constant_int S l 0 then Some l else if is_constant_int S r 1 \<and> 1 < w then Some l
      else try_const_int l r (\<lambda>a b. do { v \<leftarrow> bvsdiv S (Int_Value a) (Int_Value b); CreateIntOfValue S cf v })
        (visitOperation (int_node SDiv w [l, r]))) = Some y"
    using y unfolding visitSDiv_def with_binary_node int_node_simps bitwidth_int
    by (cases "is_constant_int S l 0"; cases "is_constant_int S r 1") simp_all
  consider "is_constant_int S l 0" "y = l" | "is_constant_int S r 1" "1 < w" "y = l"
    | "try_const_int l r (\<lambda>a b. do { v \<leftarrow> bvsdiv S (Int_Value a) (Int_Value b); CreateIntOfValue S cf v })
        (visitOperation (int_node SDiv w [l, r])) = Some y"
    using y' by - ((split if_split_asm, blast)+, blast)
  then show ?thesis
  proof cases
    case 1
    then show ?thesis using absorb_left [OF W(1) i is_constant_intD(1) [OF W(1) i(1)]] w by (simp add: sdiv_srem_0)
  next
    case 2
    then show ?thesis using keep_left [OF W(1) i(1) is_constant_intD(1) [OF W(1) i(2)]] by (simp add: sdiv_srem_1)
  next
    case 3
    then show ?thesis by (rule fold_constants [OF W(1) int_ops_mem(5) i]) (rule const_value_ok(2) [OF W])
  qed
qed

lemma visitSRem_sound:
  assumes W: "world_ok S E" "sound_folder S E cf" and i: "is_i S w l" "is_i S w r"
    and y: "visitSRem S cf (int_node SRem w [l, r]) = Some y"
  shows "int_ok S E w (results SRem w (ivals S E l) (ivals S E r)) y"
proof -
  note w = ivalsD(1) [OF W(1) i(1)]
  have y': "(if is_constant_int S l 0 then Some l else if is_constant_int S r 1 \<and> 1 < w then CreateConstantInt S cf (ap_make S w 0)
      else try_const_int l r (\<lambda>a b. do { v \<leftarrow> bvsrem S (Int_Value a) (Int_Value b); CreateIntOfValue S cf v })
        (visitOperation (int_node SRem w [l, r]))) = Some y"
    using y unfolding visitSRem_def with_binary_node int_node_simps bitwidth_int
    by (cases "is_constant_int S l 0"; cases "is_constant_int S r 1") simp_all
  consider "is_constant_int S l 0" "y = l" | "is_constant_int S r 1" "1 < w" "CreateConstantInt S cf (ap_make S w 0) = Some y"
    | "try_const_int l r (\<lambda>a b. do { v \<leftarrow> bvsrem S (Int_Value a) (Int_Value b); CreateIntOfValue S cf v })
        (visitOperation (int_node SRem w [l, r])) = Some y"
    using y' by - ((split if_split_asm, blast)+, blast)
  then show ?thesis
  proof cases
    case 1
    then show ?thesis using absorb_left [OF W(1) i is_constant_intD(1) [OF W(1) i(1)]] w by (simp add: sdiv_srem_0)
  next
    case 2
    obtain a where "a \<in> ivals S E l" "a < 2 ^ w" using ivalsD(3,4) [OF W(1) i(1)] by blast
    then show ?thesis
      using constant_result [OF W i 2(3), of SRem] is_constant_intD(1) [OF W(1) i(2) 2(1)] sdiv_srem_1(2) [OF 2(2)] by auto
  next
    case 3
    then show ?thesis by (rule fold_constants [OF W(1) int_ops_mem(7) i]) (rule const_value_ok(4) [OF W])
  qed
qed

section \<open>Bitwise operations and shifts\<close>

lemma visitXor_sound:
  assumes W: "world_ok S E" "sound_folder S E cf" and i: "is_i S w l" "is_i S w r"
    and y: "visitXor S cf (int_node Xor w [l, r]) = Some y"
  shows "int_ok S E w (results Xor w (ivals S E l) (ivals S E r)) y"
proof -
  consider "is_undef l \<or> is_undef r" "CreateUndef cf (Type Integer w) = Some y"
    | "is_constant_int S l 0" "y = r" | "is_constant_int S r 0" "y = l"
    | "try_const_int l r (\<lambda>a b. CreateConstantInt S cf (ap_xor S a b)) (visitOperation (int_node Xor w [l, r])) = Some y"
    using y unfolding visitXor_def with_binary_node int_node_simps by - ((split if_split_asm, blast)+, blast)
  then show ?thesis
  proof cases
    case 1
    then show ?thesis using undef_int_ok [OF W _ i] by blast
  next
    case 2
    then show ?thesis using keep_right [OF W(1) i(2) is_constant_intD(1) [OF W(1) i(1)]] by simp
  next
    case 3
    then show ?thesis using keep_left [OF W(1) i(1) is_constant_intD(1) [OF W(1) i(2)]] by simp
  next
    case 4
    then show ?thesis
      by (rule fold_constants [OF W(1) int_ops_mem(10) i])
        (simp_all add: const_int_ok [OF W] apint_binopD [OF world_okD(3) [OF W(1)]])
  qed
qed

lemma visitLShr_sound:
  assumes W: "world_ok S E" "sound_folder S E cf" and i: "is_i S w l" "is_i S w r"
    and y: "visitLShr S cf (int_node LShr w [l, r]) = Some y"
  shows "int_ok S E w (results LShr w (ivals S E l) (ivals S E r)) y"
proof -
  note w = ivalsD(1) [OF W(1) i(1)]
  consider "is_constant_int S l 0" "y = l" | "is_constant_int S r 0" "y = l"
    | "try_const_int l r (\<lambda>a b. CreateConstantInt S cf (ap_lshr S a b)) (visitOperation (int_node LShr w [l, r])) = Some y"
    using y unfolding visitLShr_def with_binary_node int_node_simps by - (split if_split_asm, blast, blast)
  then show ?thesis
  proof cases
    case 1
    then show ?thesis using absorb_left [OF W(1) i is_constant_intD(1) [OF W(1) i(1)]] w by (simp add: shift_0)
  next
    case 2
    then show ?thesis using keep_left [OF W(1) i(1) is_constant_intD(1) [OF W(1) i(2)]] w by (simp add: shift_0)
  next
    case 3
    then show ?thesis
      by (rule fold_constants [OF W(1) int_ops_mem(12) i])
        (simp_all add: const_int_ok [OF W] apint_binopD [OF world_okD(3) [OF W(1)]])
  qed
qed

lemma visitAShr_sound:
  assumes W: "world_ok S E" "sound_folder S E cf" and i: "is_i S w l" "is_i S w r"
    and y: "visitAShr S cf (int_node AShr w [l, r]) = Some y"
  shows "int_ok S E w (results AShr w (ivals S E l) (ivals S E r)) y"
proof -
  note w = ivalsD(1) [OF W(1) i(1)]
  consider "is_constant_int S l 0" "y = l" | "is_constant_int S r 0" "y = l"
    | "try_const_int l r (\<lambda>a b. CreateConstantInt S cf (ap_ashr S a b)) (visitOperation (int_node AShr w [l, r])) = Some y"
    using y unfolding visitAShr_def with_binary_node int_node_simps by - (split if_split_asm, blast, blast)
  then show ?thesis
  proof cases
    case 1
    then show ?thesis using absorb_left [OF W(1) i is_constant_intD(1) [OF W(1) i(1)]] w by (simp add: shift_0)
  next
    case 2
    then show ?thesis using keep_left [OF W(1) i(1) is_constant_intD(1) [OF W(1) i(2)]] w by (simp add: shift_0)
  next
    case 3
    then show ?thesis
      by (rule fold_constants [OF W(1) int_ops_mem(13) i])
        (simp_all add: const_int_ok [OF W] apint_binopD [OF world_okD(3) [OF W(1)]])
  qed
qed

text \<open>What a successful match says of the node.\<close>

lemma match_binop_int:
  assumes "is_i S w x" "match_binop c x = Some (a, b)" "c \<in> int_ops"
  shows "x = int_node c w [a, b]" "is_i S w a" "is_i S w b"
proof -
  have "op_opcode x = c" using assms(2) by (simp add: match_binop_def split: if_splits)
  moreover have "wt S x" using assms(1) by (simp add: is_i_def)
  ultimately obtain w' l r where x: "x = int_node c w' [l, r]" "is_i S w' l" "is_i S w' r"
    using wt_int_op [of S x c] assms(3) by blast
  moreover have "w' = w" using x(1) assms(1) by (simp add: is_i_def)
  moreover have "l = a" "r = b" using assms(2) x(1) by (simp_all add: match_binop_def)
  ultimately show "x = int_node c w [a, b]" "is_i S w a" "is_i S w b" by simp_all
qed

lemma match_const_singleton:
  assumes "world_ok S E" "is_i S w x" "match_const_int x"
  shows "\<exists>n<2 ^ w. ivals S E x = {n}"
  using as_const_int_wt(3,6) [OF assms(1,2)] assms(3) by (auto simp: match_const_int_def)

lemma match_lshr_constD:
  assumes "world_ok S E" "is_i S w x" "match_lshr_const x = Some (v, k)"
  shows "is_i S w v" "is_i S w k" "match_const_int k" "ivals S E x = results LShr w (ivals S E v) (ivals S E k)"
proof -
  have m: "match_binop LShr x = Some (v, k)" "match_const_int k"
    using assms(3) by (auto simp: match_lshr_const_def split: option.splits if_splits)
  note b = match_binop_int [OF assms(2) m(1) int_ops_mem(12)]
  show "is_i S w v" "is_i S w k" "match_const_int k" using b m(2) by blast+
  show "ivals S E x = results LShr w (ivals S E v) (ivals S E k)"
    using ivals_node [OF assms(1) int_ops_mem(12) b(2,3)] b(1) by simp
qed

lemma results_commute: "c \<in> {And, Or, Xor, Add, Mul} \<Longrightarrow> results c w A B = results c w B A"
proof -
  assume c: "c \<in> {And, Or, Xor, Add, Mul}"
  then have "int_sem c w a b = int_sem c w b a" for a b by (auto simp: ac_simps)
  then show ?thesis unfolding results_def by blast
qed

lemma match_andD:
  assumes "world_ok S E" "is_i S w x" "match_binop And x = Some (a, b)"
  shows "is_i S w a" "is_i S w b" "ivals S E x = results And w (ivals S E a) (ivals S E b)"
  using match_binop_int [OF assms(2,3) int_ops_mem(8)] ivals_node [OF assms(1) int_ops_mem(8)] by simp_all

lemma match_maskedD:
  assumes "world_ok S E" "is_i S w x" "match_masked x = Some (v, m)"
  shows "is_i S w v" "is_i S w m" "ivals S E x = results And w (ivals S E v) (ivals S E m)"
proof -
  obtain a b where ab: "match_binop And x = Some (a, b)"
    using assms(3) by (cases "match_binop And x") (auto simp: match_masked_def match_mask_and_def match_and_mask_def)
  then have "a = v \<and> b = m \<or> a = m \<and> b = v"
    using assms(3) by (cases "match_const_int a"; cases "match_const_int b")
      (simp_all add: match_masked_def match_mask_and_def match_and_mask_def)
  then consider "match_binop And x = Some (v, m)" | "match_binop And x = Some (m, v)" using ab by blast
  then have "is_i S w v \<and> is_i S w m \<and> ivals S E x = results And w (ivals S E v) (ivals S E m)"
  proof cases
    case 1
    then show ?thesis using match_andD [OF assms(1,2)] by blast
  next
    case 2
    then show ?thesis using match_andD [OF assms(1,2)] results_commute [of And w "ivals S E v"] by simp
  qed
  then show "is_i S w v" "is_i S w m" "ivals S E x = results And w (ivals S E v) (ivals S E m)" by blast+
qed

text \<open>The two rewrites of a conjunction.\<close>

lemma and_shift_ok:
  assumes W: "world_ok S E" "sound_folder S E cf"
    and i: "is_i S w m" "is_i S w v" "is_i S w k" and k: "match_const_int k"
    and y: "do { m' \<leftarrow> CreateShl cf m k; z \<leftarrow> CreateAnd cf v m'; CreateLShr cf z k } = Some y"
  shows "int_ok S E w (results And w (ivals S E m) (results LShr w (ivals S E v) (ivals S E k))) y"
proof -
  obtain m' z where c: "create_int_binop cf Shl m k = Some m'" "create_int_binop cf And v m' = Some z"
    "create_int_binop cf LShr z k = Some y"
    using y by (auto simp: CreateShl_def CreateAnd_def CreateLShr_def Option.bind_eq_Some_conv)
  have self: "int_ok S E w (ivals S E m) m" "int_ok S E w (ivals S E v) v" "int_ok S E w (ivals S E k) k"
    using i by (simp_all add: int_ok_def)
  obtain n where n: "ivals S E k = {n}" using match_const_singleton [OF W(1) i(3) k] by blast
  have "int_ok S E w (results Shl w (ivals S E m) {n}) m'"
    using binop_int_ok [OF W c(1) int_ops_mem(11) self(1,3)] n by simp
  from binop_int_ok [OF W c(2) int_ops_mem(8) self(2) this]
  have "int_ok S E w (results And w (ivals S E v) (results Shl w (ivals S E m) {n})) z" .
  from binop_int_ok [OF W c(3) int_ops_mem(12) this self(3)]
  have "int_ok S E w (results LShr w (results And w (ivals S E v) (results Shl w (ivals S E m) {n})) {n}) y" using n by simp
  moreover have "results LShr w (results And w (ivals S E v) (results Shl w (ivals S E m) {n})) {n}
      \<subseteq> results And w (ivals S E m) (results LShr w (ivals S E v) {n})"
    using ivalsD(4) [OF W(1) i(2)] by (auto simp: results_def and_drop_shl [symmetric] simp del: drop_bit_and)
  ultimately show ?thesis using n by (simp add: int_ok_mono)
qed

lemma and_and_ok:
  assumes W: "world_ok S E" "sound_folder S E cf" and i: "is_i S w m1" "is_i S w m2" "is_i S w v"
    and y: "do { m \<leftarrow> CreateAnd cf m1 m2; CreateAnd cf v m } = Some y"
  shows "int_ok S E w (results And w (ivals S E m1) (results And w (ivals S E v) (ivals S E m2))) y"
proof -
  obtain m where c: "create_int_binop cf And m1 m2 = Some m" "create_int_binop cf And v m = Some y"
    using y by (auto simp: CreateAnd_def Option.bind_eq_Some_conv)
  have self: "int_ok S E w (ivals S E m1) m1" "int_ok S E w (ivals S E m2) m2" "int_ok S E w (ivals S E v) v"
    using i by (simp_all add: int_ok_def)
  have "int_ok S E w (results And w (ivals S E v) (results And w (ivals S E m1) (ivals S E m2))) y"
    by (rule binop_int_ok [OF W c(2) int_ops_mem(8) self(3) binop_int_ok [OF W c(1) int_ops_mem(8) self(1,2)]])
  moreover have "results And w (ivals S E v) (results And w (ivals S E m1) (ivals S E m2))
      \<subseteq> results And w (ivals S E m1) (results And w (ivals S E v) (ivals S E m2))"
    unfolding results_def by (fastforce intro: and.left_commute)
  ultimately show ?thesis by (rule int_ok_mono)
qed

lemma match_and_shiftD:
  assumes W: "world_ok S E" and i: "is_i S w l" "is_i S w r" and m: "match_and_shift l r = Some (m, v, k)"
  shows "is_i S w m" "is_i S w v" "is_i S w k" "match_const_int k"
    "results And w (ivals S E l) (ivals S E r) = results And w (ivals S E m) (results LShr w (ivals S E v) (ivals S E k))"
proof -
  consider "m = l" "match_lshr_const r = Some (v, k)" | "m = r" "match_lshr_const l = Some (v, k)"
    using m unfolding match_and_shift_def
    by (cases "match_const_int l"; cases "match_const_int r"; cases "match_lshr_const l"; cases "match_lshr_const r") auto
  then have "is_i S w m \<and> is_i S w v \<and> is_i S w k \<and> match_const_int k \<and>
    results And w (ivals S E l) (ivals S E r) = results And w (ivals S E m) (results LShr w (ivals S E v) (ivals S E k))"
  proof cases
    case 1
    then show ?thesis using match_lshr_constD [OF W i(2) 1(2)] i by simp
  next
    case 2
    then show ?thesis using match_lshr_constD [OF W i(1) 2(2)] i results_commute [of And w "ivals S E l"] by simp
  qed
  then show "is_i S w m" "is_i S w v" "is_i S w k" "match_const_int k"
    "results And w (ivals S E l) (ivals S E r) = results And w (ivals S E m) (results LShr w (ivals S E v) (ivals S E k))"
    by blast+
qed

lemma match_and_andD:
  assumes W: "world_ok S E" and i: "is_i S w l" "is_i S w r" and m: "match_and_and l r = Some (m1, m2, v)"
  shows "is_i S w m1" "is_i S w m2" "is_i S w v"
    "results And w (ivals S E l) (ivals S E r) = results And w (ivals S E m1) (results And w (ivals S E v) (ivals S E m2))"
proof -
  consider "m1 = l" "match_masked r = Some (v, m2)" | "m1 = r" "match_masked l = Some (v, m2)"
    using m unfolding match_and_and_def
    by (cases "match_const_int l"; cases "match_const_int r"; cases "match_masked l"; cases "match_masked r") auto
  then have "is_i S w m1 \<and> is_i S w m2 \<and> is_i S w v \<and>
    results And w (ivals S E l) (ivals S E r) = results And w (ivals S E m1) (results And w (ivals S E v) (ivals S E m2))"
  proof cases
    case 1
    then show ?thesis using match_maskedD [OF W i(2) 1(2)] i by simp
  next
    case 2
    then show ?thesis using match_maskedD [OF W i(1) 2(2)] i results_commute [of And w "ivals S E l"] by simp
  qed
  then show "is_i S w m1" "is_i S w m2" "is_i S w v"
    "results And w (ivals S E l) (ivals S E r) = results And w (ivals S E m1) (results And w (ivals S E v) (ivals S E m2))"
    by blast+
qed

text \<open>The part of \<^verbatim>\<open>visitAnd\<close> and of \<^verbatim>\<open>visitOr\<close> after the tests for constants.\<close>

definition and_rewrites :: "('i, 'f) folder \<Rightarrow> ('i, 'f) op \<Rightarrow> ('i, 'f) op \<Rightarrow> ('i, 'f) op \<Rightarrow> ('i, 'f) op option" where
  "and_rewrites cf x l r =
     (case match_and_shift l r of
        Some (msk, v, shift) \<Rightarrow> do { m \<leftarrow> CreateShl cf msk shift; y \<leftarrow> CreateAnd cf v m; CreateLShr cf y shift }
      | None \<Rightarrow>
          (case match_and_and l r of
             Some (mask1, mask2, v) \<Rightarrow> do { m \<leftarrow> CreateAnd cf mask1 mask2; CreateAnd cf v m }
           | None \<Rightarrow> visitOperation x))"

lemma and_rewrites_ok:
  assumes W: "world_ok S E" "sound_folder S E cf" and i: "is_i S w l" "is_i S w r"
    and y: "and_rewrites cf (int_node And w [l, r]) l r = Some y"
  shows "int_ok S E w (results And w (ivals S E l) (ivals S E r)) y"
proof (cases "match_and_shift l r")
  case (Some mvk)
  obtain m v k where s: "match_and_shift l r = Some (m, v, k)" using Some by (cases mvk) auto
  show ?thesis using and_shift_ok [OF W match_and_shiftD(1-4) [OF W(1) i s]] match_and_shiftD(5) [OF W(1) i s] y s
    by (simp add: and_rewrites_def)
next
  case None
  show ?thesis
  proof (cases "match_and_and l r")
    case (Some mmv)
    obtain m1 m2 v where s: "match_and_and l r = Some (m1, m2, v)" using Some by (cases mmv) auto
    show ?thesis using and_and_ok [OF W match_and_andD(1-3) [OF W(1) i s]] match_and_andD(4) [OF W(1) i s] y s None
      by (simp add: and_rewrites_def)
  next
    case None': None
    then show ?thesis using None y visitOperation_int [OF W(1) int_ops_mem(8) i] by (simp add: and_rewrites_def)
  qed
qed

lemma visitAnd_sound:
  assumes W: "world_ok S E" "sound_folder S E cf" and i: "is_i S w l" "is_i S w r"
    and y: "visitAnd S cf (int_node And w [l, r]) = Some y"
  shows "int_ok S E w (results And w (ivals S E l) (ivals S E r)) y"
proof -
  consider "is_constant_int S l 0" "y = l" | "is_constant_int S r 0" "y = r"
    | "is_constant_ones S l" "y = r" | "is_constant_ones S r" "y = l"
    | "try_const_int l r (\<lambda>a b. CreateConstantInt S cf (ap_and S a b)) (and_rewrites cf (int_node And w [l, r]) l r) = Some y"
    using y unfolding visitAnd_def with_binary_node int_node_simps and_rewrites_def [symmetric]
    by - ((split if_split_asm, blast)+, blast)
  then show ?thesis
  proof cases
    case 1
    then show ?thesis using absorb_left [OF W(1) i is_constant_intD(1) [OF W(1) i(1)]] by simp
  next
    case 2
    then show ?thesis using absorb_right [OF W(1) i is_constant_intD(1) [OF W(1) i(2)]] by simp
  next
    case 3
    then show ?thesis using keep_right [OF W(1) i(2) is_constant_onesD [OF W(1) i(1)]] by (simp add: ones_absorb)
  next
    case 4
    then show ?thesis using keep_left [OF W(1) i(1) is_constant_onesD [OF W(1) i(2)]] by (simp add: ones_absorb)
  next
    case 5
    then show ?thesis
      by (rule fold_constants' [OF W(1) i])
        (simp_all add: and_rewrites_ok [OF W i] const_int_ok [OF W] apint_binopD [OF world_okD(3) [OF W(1)]])
  qed
qed

lemma match_and_maskD:
  assumes "world_ok S E" "is_i S w x" "match_and_mask x = Some (v, m)"
  shows "is_i S w v" "is_i S w m" "ivals S E x = results And w (ivals S E v) (ivals S E m)"
proof -
  have "match_binop And x = Some (v, m)"
    using assms(3) by (auto simp: match_and_mask_def split: option.splits if_splits)
  then show "is_i S w v" "is_i S w m" "ivals S E x = results And w (ivals S E v) (ivals S E m)"
    using match_andD [OF assms(1,2)] by blast+
qed

definition or_rewrites :: "('i, 'f, 'z) ctx_scheme \<Rightarrow> ('i, 'f) folder \<Rightarrow> ('i, 'f) op \<Rightarrow> ('i, 'f) op \<Rightarrow> ('i, 'f) op \<Rightarrow> ('i, 'f) op option" where
  "or_rewrites S cf x l r =
     (case (match_and_mask l, match_and_mask r) of
        (Some (v1, m1), Some (v2, m2)) \<Rightarrow>
          if same_ref S v1 v2 then do { m \<leftarrow> CreateOr cf m1 m2; CreateAnd cf v1 m } else visitOperation x
      | _ \<Rightarrow> visitOperation x)"

lemma or_masks_ok:
  assumes W: "world_ok S E" "sound_folder S E cf" and i: "is_i S w m1" "is_i S w m2" "is_i S w v"
    and y: "do { m \<leftarrow> CreateOr cf m1 m2; CreateAnd cf v m } = Some y"
  shows "int_ok S E w (results Or w (results And w (ivals S E v) (ivals S E m1)) (results And w (ivals S E v) (ivals S E m2))) y"
proof -
  obtain m where c: "create_int_binop cf Or m1 m2 = Some m" "create_int_binop cf And v m = Some y"
    using y by (auto simp: CreateAnd_def CreateOr_def Option.bind_eq_Some_conv)
  have self: "int_ok S E w (ivals S E m1) m1" "int_ok S E w (ivals S E m2) m2" "int_ok S E w (ivals S E v) v"
    using i by (simp_all add: int_ok_def)
  have "int_ok S E w (results And w (ivals S E v) (results Or w (ivals S E m1) (ivals S E m2))) y"
    by (rule binop_int_ok [OF W c(2) int_ops_mem(8) self(3) binop_int_ok [OF W c(1) int_ops_mem(9) self(1,2)]])
  moreover have "and a (or b c) = or (and a b) (and a c)" for a b c :: nat
    by (rule bit_eqI) (auto simp: bit_simps)
  then have "results And w (ivals S E v) (results Or w (ivals S E m1) (ivals S E m2))
      \<subseteq> results Or w (results And w (ivals S E v) (ivals S E m1)) (results And w (ivals S E v) (ivals S E m2))"
    unfolding results_def by fastforce
  ultimately show ?thesis by (rule int_ok_mono)
qed

lemma or_rewrites_ok:
  assumes W: "world_ok S E" "sound_folder S E cf" and i: "is_i S w l" "is_i S w r"
    and y: "or_rewrites S cf (int_node Or w [l, r]) l r = Some y"
  shows "int_ok S E w (results Or w (ivals S E l) (ivals S E r)) y"
proof (cases "visitOperation (int_node Or w [l, r]) = Some y")
  case True
  then show ?thesis by (rule visitOperation_int [OF W(1) int_ops_mem(9) i])
next
  case False
  then obtain v1 m1 v2 m2 where m: "match_and_mask l = Some (v1, m1)" "match_and_mask r = Some (v2, m2)" "same_ref S v1 v2"
    and c: "do { m \<leftarrow> CreateOr cf m1 m2; CreateAnd cf v1 m } = Some y"
    using y unfolding or_rewrites_def by (simp split: option.splits prod.splits if_splits)
  have v: "v2 = v1" using world_okD(4) [OF W(1) m(3)] by simp
  note a = match_and_maskD [OF W(1) i(1) m(1)]
  note b = match_and_maskD [OF W(1) i(2) m(2)]
  show ?thesis using or_masks_ok [OF W a(2) b(2) a(1) c] a(3) b(3) v by simp
qed

lemma visitOr_sound:
  assumes W: "world_ok S E" "sound_folder S E cf" and i: "is_i S w l" "is_i S w r"
    and y: "visitOr S cf (int_node Or w [l, r]) = Some y"
  shows "int_ok S E w (results Or w (ivals S E l) (ivals S E r)) y"
proof -
  consider "is_constant_int S l 0" "y = r" | "is_constant_int S r 0" "y = l"
    | "is_constant_ones S l" "y = l" | "is_constant_ones S r" "y = r"
    | "try_const_int l r (\<lambda>a b. CreateConstantInt S cf (ap_or S a b)) (or_rewrites S cf (int_node Or w [l, r]) l r) = Some y"
    using y unfolding visitOr_def with_binary_node int_node_simps or_rewrites_def [symmetric]
    by - ((split if_split_asm, blast)+, blast)
  then show ?thesis
  proof cases
    case 1
    then show ?thesis using keep_right [OF W(1) i(2) is_constant_intD(1) [OF W(1) i(1)]] by simp
  next
    case 2
    then show ?thesis using keep_left [OF W(1) i(1) is_constant_intD(1) [OF W(1) i(2)]] by simp
  next
    case 3
    then show ?thesis using absorb_left [OF W(1) i is_constant_onesD [OF W(1) i(1)]] by (simp add: ones_absorb)
  next
    case 4
    then show ?thesis using absorb_right [OF W(1) i is_constant_onesD [OF W(1) i(2)]] by (simp add: ones_absorb)
  next
    case 5
    then show ?thesis
      by (rule fold_constants' [OF W(1) i])
        (simp_all add: or_rewrites_ok [OF W i] const_int_ok [OF W] apint_binopD [OF world_okD(3) [OF W(1)]])
  qed
qed

text \<open>A left shift of a right shift by the same amount clears the low bits.\<close>

definition shl_rewrites :: "('i, 'f, 'z) ctx_scheme \<Rightarrow> ('i, 'f) folder \<Rightarrow> ('i, 'f) op \<Rightarrow> ('i, 'f) op \<Rightarrow> ('i, 'f) op \<Rightarrow> ('i, 'f) op option" where
  "shl_rewrites S cf x l r =
     (case (match_lshr_const l, as_const_int r) of
        (Some (v, rshift), Some lv) \<Rightarrow>
          (case as_const_int rshift of
             Some rval \<Rightarrow> do {
               w \<leftarrow> bitwidth (op_type x);
               let shift = ap_limited S lv w;
               if ap_eq S lv rval \<and> shift \<noteq> w
               then do { mask \<leftarrow> CreateConstantInt S cf (ap_bits_from S w shift); CreateAnd cf v mask }
               else visitOperation x }
           | None \<Rightarrow> None)
      | _ \<Rightarrow> visitOperation x)"

lemma shl_rewrites_ok:
  assumes W: "world_ok S E" "sound_folder S E cf" and i: "is_i S w l" "is_i S w r"
    and y: "shl_rewrites S cf (int_node Shl w [l, r]) l r = Some y"
  shows "int_ok S E w (results Shl w (ivals S E l) (ivals S E r)) y"
proof (cases "visitOperation (int_node Shl w [l, r]) = Some y")
  case True
  then show ?thesis by (rule visitOperation_int [OF W(1) int_ops_mem(11) i])
next
  case False
  note L = world_okD(3) [OF W(1)]
  obtain v k lv rv' where m: "match_lshr_const l = Some (v, k)" "as_const_int r = Some lv" "as_const_int k = Some rv'"
    using y False by (auto simp: shl_rewrites_def split: option.splits)
  note a = match_lshr_constD [OF W(1) i(1) m(1)]
  note lv = as_const_int_wt(2-) [OF W(1) i(2) m(2)]
  note rv' = as_const_int_wt(2-) [OF W(1) a(2) m(3)]
  define n where "n = ap_limited S lv w"
  have c: "ap_eq S lv rv' \<and> n \<noteq> w" "do { mask \<leftarrow> CreateConstantInt S cf (ap_bits_from S w n); CreateAnd cf v mask } = Some y"
    using y False m by (simp_all add: shl_rewrites_def bitwidth_int Let_def n_def split: if_splits)
  have n: "ap_val S lv = n" "ap_val S rv' = n" "n \<le> w"
    using c(1) lv(1) rv'(1) by (auto simp: n_def apint_lawsD [OF L] apint_cmpD [OF L])
  obtain msk where k: "CreateConstantInt S cf (ap_bits_from S w n) = Some msk" "create_int_binop cf And v msk = Some y"
    using c(2) by (auto simp: CreateAnd_def Option.bind_eq_Some_conv)
  have msk: "int_ok S E w {2 ^ w - 2 ^ n} msk"
    by (rule const_int_ok [OF W k(1)]) (use n lv(3) in \<open>simp_all add: apint_lawsD [OF L]\<close>)
  have "int_ok S E w (ivals S E v) v" using a(1) by (simp add: int_ok_def)
  from binop_int_ok [OF W k(2) int_ops_mem(8) this msk]
  have "int_ok S E w (results And w (ivals S E v) {2 ^ w - 2 ^ n}) y" .
  moreover have "results And w (ivals S E v) {2 ^ w - 2 ^ n} \<subseteq> results Shl w (results LShr w (ivals S E v) {n}) {n}"
    using ivalsD(4) [OF W(1) a(1)] n(3) by (auto simp: results_def shl_drop)
  ultimately show ?thesis using int_ok_mono a(4) lv(2) rv'(2) n(1,2) by metis
qed

lemma visitShl_sound:
  assumes W: "world_ok S E" "sound_folder S E cf" and i: "is_i S w l" "is_i S w r"
    and y: "visitShl S cf (int_node Shl w [l, r]) = Some y"
  shows "int_ok S E w (results Shl w (ivals S E l) (ivals S E r)) y"
proof -
  note w = ivalsD(1) [OF W(1) i(1)]
  consider "is_constant_int S l 0" "y = l" | "is_constant_int S r 0" "y = l"
    | "try_const_int l r (\<lambda>a b. CreateConstantInt S cf (ap_shl S a b)) (shl_rewrites S cf (int_node Shl w [l, r]) l r) = Some y"
    using y unfolding visitShl_def with_binary_node shl_rewrites_def [symmetric] by - (split if_split_asm, blast, blast)
  then show ?thesis
  proof cases
    case 1
    then show ?thesis using absorb_left [OF W(1) i is_constant_intD(1) [OF W(1) i(1)]] w by (simp add: shift_0)
  next
    case 2
    then show ?thesis using keep_left [OF W(1) i(1) is_constant_intD(1) [OF W(1) i(2)]] w by (simp add: shift_0)
  next
    case 3
    then show ?thesis
      by (rule fold_constants' [OF W(1) i])
        (simp_all add: shl_rewrites_ok [OF W i] const_int_ok [OF W] apint_binopD [OF world_okD(3) [OF W(1)]])
  qed
qed

end
