(* ===== verification/IR_Fold_Scalar.thy ===== *)
theory IR_Fold_Scalar
  imports IR_Fold_Int
begin

text \<open>
  Soundness of the visitors for unary operations, comparisons, selection and floating point.
\<close>

declare One_nat_def [simp del]

section \<open>Nodes by their opcode\<close>

definition leaf_opcodes :: "opcode set" where
  "leaf_opcodes = {ConstantNamed, ConstantNumbered, ConstantInt, ConstantFloat, ConstantArray, FunctionObject, EGraphNode}"

lemma wt_inner:
  assumes "wt S x" "op_opcode x = c" "c \<notin> leaf_opcodes"
  obtains t ops where "x = Operation (OperationData c t) ops" "list_all (wt S) ops" "wt_operation S c t (map op_type ops)"
    "op_type x = t"
proof -
  obtain d ops where x: "x = Operation d ops" by (cases x)
  obtain t where "d = OperationData c t"
    using assms x by (cases d) (auto simp: op_opcode_def leaf_opcodes_def)
  then show thesis using that [of t ops] assms(1) x by (simp add: list.pred_map op_type_def)
qed

lemma refines_int_ok:
  assumes "world_ok S E" "is_i S w x" "int_ok S E w (ivals S E x) y"
  shows "refines S E y x"
  using refines_int [OF assms(1,2)] assms(3) by (simp add: int_ok_def)

lemma int_op_refines:
  assumes W: "world_ok S E" and x: "wt S x" "op_opcode x = c" "c \<in> int_ops"
    and v: "\<And>w l r. x = int_node c w [l, r] \<Longrightarrow> is_i S w l \<Longrightarrow> is_i S w r \<Longrightarrow>
      int_ok S E w (results c w (ivals S E l) (ivals S E r)) y"
  shows "refines S E y x"
proof -
  obtain w l r where n: "x = int_node c w [l, r]" "is_i S w l" "is_i S w r" using wt_int_op [OF x] by blast
  then show ?thesis
    using refines_int_ok [OF W int_binop_node(1) [OF W x(3) n(2,3)]] v [OF n] ivals_node [OF W x(3) n(2,3)] by simp
qed

section \<open>Unary operations on integers\<close>

fun unary_sem :: "opcode \<Rightarrow> nat \<Rightarrow> nat \<Rightarrow> nat \<Rightarrow> nat" where
  "unary_sem Not w n a = 2 ^ w - 1 - a"
| "unary_sem Trunc w n a = a mod 2 ^ n"
| "unary_sem ZExt w n a = a"
| "unary_sem SExt w n a = of_signed n (to_signed w a)"
| "unary_sem _ w n a = 0"

definition widths_ok :: "opcode \<Rightarrow> nat \<Rightarrow> nat \<Rightarrow> bool" where
  "widths_ok c w n \<longleftrightarrow> c = Not \<and> n = w \<or> c = Trunc \<and> 0 < n \<and> n \<le> w \<or> c \<in> {ZExt, SExt} \<and> w \<le> n \<and> n < 2 ^ 24"

lemma widths_ok_opcode: "widths_ok c w n \<Longrightarrow> c \<in> {Not, Trunc, ZExt, SExt}"
  by (auto simp: widths_ok_def)

lemma unary_node:
  assumes W: "world_ok S E" and i: "is_i S w a" and c: "widths_ok c w n"
  shows "is_i S n (int_node c n [a])" "ivals S E (int_node c n [a]) = unary_sem c w n ` ivals S E a"
proof -
  have t: "op_type a = Type Integer w" "wt S a" using i by (simp_all add: is_i_def)
  have "wt_operation S c (Type Integer n) [Type Integer w]"
    using c by (auto simp: widths_ok_def wt_operation_def is_int_def)
  then show "is_i S n (int_node c n [a])" using t by (simp add: is_i_def int_node_def op_type_def)
  have "unary_beh S E c (Type Integer n) (SInt w k) = {SInt n (unary_sem c w n k)}" for k
    using c by (auto simp: widths_ok_def unary_beh_def conv_ops_def)
  then have "beh S E (int_node c n [a]) = SInt n ` unary_sem c w n ` ivals S E a"
    using ivalsD(5) [OF W i] widths_ok_opcode [OF c] by (auto simp: int_node_def)
  then show "ivals S E (int_node c n [a]) = unary_sem c w n ` ivals S E a" by (auto simp: ivals_def)
qed

lemma wt_unary:
  assumes "wt S x" "op_opcode x = c" "c \<in> {Not, Trunc, ZExt, SExt}"
  obtains w n a where "x = int_node c n [a]" "is_i S w a" "widths_ok c w n"
proof -
  have "c \<notin> leaf_opcodes" using assms(3) by (auto simp: leaf_opcodes_def)
  then obtain t ops where x: "x = Operation (OperationData c t) ops" "list_all (wt S) ops" "wt_operation S c t (map op_type ops)"
    by (rule wt_inner [OF assms(1,2)])
  have "\<exists>n w. t = Type Integer n \<and> map op_type ops = [Type Integer w] \<and> widths_ok c w n"
    using x(3) assms(3) is_int_iff [of t] by (auto simp: wt_operation_def widths_ok_def)
  then obtain n w a where "t = Type Integer n" "ops = [a]" "op_type a = Type Integer w" "widths_ok c w n"
    by (auto simp: map_eq_Cons_conv)
  then show thesis using that [of n a w] x(1,2) by (simp add: int_node_def is_i_def)
qed

lemma with_unary_node [simp]: "with_unary (int_node c w [a]) k = k a"
  by (simp add: with_unary_def)

lemma unary_self_ok:
  assumes "world_ok S E" "is_i S w a" "widths_ok c w n" "visitOperation (int_node c n [a]) = Some y"
  shows "int_ok S E n (unary_sem c w n ` ivals S E a) y"
  using unary_node [OF assms(1-3)] assms(4) by (simp add: int_ok_def visitOperation_def)

text \<open>The common end of the visitors of unary operations.\<close>

lemma unary_refines:
  assumes W: "world_ok S E" and x: "wt S x" "op_opcode x = c" "c \<in> {Not, Trunc, ZExt, SExt}"
    and v: "\<And>w n a. x = int_node c n [a] \<Longrightarrow> is_i S w a \<Longrightarrow> widths_ok c w n \<Longrightarrow>
      int_ok S E n (unary_sem c w n ` ivals S E a) y"
  shows "refines S E y x"
proof -
  obtain w n a where n: "x = int_node c n [a]" "is_i S w a" "widths_ok c w n" using wt_unary [OF x] by blast
  then show ?thesis using refines_int_ok [OF W] unary_node [OF W n(2,3)] v [OF n] by simp
qed

lemma visitNot_sound:
  assumes W: "world_ok S E" "sound_folder S E cf" and x: "wt S x" "op_opcode x = Not" and y: "visitNot S cf x = Some y"
  shows "refines S E y x"
proof (rule unary_refines [OF W(1) x], simp)
  fix w n a assume n: "x = int_node Not n [a]" "is_i S w a" "widths_ok Not w n"
  then have "n = w" by (auto simp: widths_ok_def)
  note L = world_okD(3) [OF W(1)]
  show "int_ok S E n (unary_sem Not w n ` ivals S E a) y"
  proof (cases "as_const_int a")
    case (Some i)
    then have "CreateConstantInt S cf (ap_not S i) = Some y" using y n(1) by (simp add: visitNot_def)
    then show ?thesis
      by (rule const_int_ok [OF W]) (use as_const_int_wt [OF W(1) n(2) Some] \<open>n = w\<close> in \<open>simp_all add: apint_lawsD [OF L]\<close>)
  next
    case None
    show ?thesis
    proof (cases "match_unop Not a")
      case (Some v)
      then have yv: "y = v" using y n(1) None by (simp add: visitNot_def)
      have "op_opcode a = Not" "wt S a" using Some n(2) by (auto simp: match_unop_def is_i_def split: if_splits)
      then obtain w' n' v' where a: "a = int_node Not n' [v']" "is_i S w' v'" "widths_ok Not w' n'"
        using wt_unary [of S a Not] by blast
      have "v' = v" "n' = w" "w' = w"
        using Some n(2) a(1,3) by (auto simp: match_unop_def is_i_def widths_ok_def)
      then have v: "is_i S w v" "ivals S E a = unary_sem Not w w ` ivals S E v"
        using unary_node(2) [OF W(1) a(2,3)] a(1,2) by simp_all
      have "2 ^ w - 1 - (2 ^ w - 1 - k) = k" if "k \<in> ivals S E v" for k
        using ivalsD(4) [OF W(1) v(1) that] by simp
      then have "ivals S E v \<subseteq> unary_sem Not w n ` ivals S E a" unfolding v(2) by (force simp: image_image)
      then show ?thesis using v(1) yv \<open>n = w\<close> by (simp add: int_ok_def)
    next
      case None': None
      then have "visitOperation (int_node Not n [a]) = Some y" using y n(1) None by (simp add: visitNot_def)
      then show ?thesis by (rule unary_self_ok [OF W(1) n(2,3)])
    qed
  qed
qed

lemma same_width_unary:
  assumes "world_ok S E" "is_i S w a" "c \<in> {Trunc, ZExt, SExt}"
  shows "unary_sem c w w ` ivals S E a = ivals S E a"
proof -
  have "unary_sem c w w k = k" if "k \<in> ivals S E a" for k
    using assms(3) ivalsD(4) [OF assms(1,2) that] of_signed_to_signed [of k w] by auto
  then show ?thesis by (auto simp: image_def)
qed

text \<open>
  \<^verbatim>\<open>Trunc\<close>, \<^verbatim>\<open>ZExt\<close> and \<^verbatim>\<open>SExt\<close> begin alike: a constant is converted by \<open>f\<close>, and a conversion to the
  operand's own type is dropped. \<open>rest\<close> is what the visitor does otherwise.
\<close>

lemma cast_refines:
  assumes W: "world_ok S E" "sound_folder S E cf" and x: "wt S x" "op_opcode x = c" "c \<in> {Trunc, ZExt, SExt}"
    and ok: "fold_ok S E x"
    and y: "with_unary x (\<lambda>a. case as_const_int a of
        Some i \<Rightarrow> do { n \<leftarrow> bitwidth (op_type x); CreateConstantInt S cf (f i n) }
      | None \<Rightarrow> if op_type x = op_type a then Some a else rest a) = Some y"
    and f: "\<And>i w n. ap_width S i = w \<Longrightarrow> widths_ok c w n \<Longrightarrow> n \<noteq> w \<Longrightarrow>
      ap_width S (f i n) = n \<and> ap_val S (f i n) = unary_sem c w n (ap_val S i)"
    and rest: "\<And>w n a. x = int_node c n [a] \<Longrightarrow> is_i S w a \<Longrightarrow> widths_ok c w n \<Longrightarrow> n \<noteq> w \<Longrightarrow> rest a = Some y \<Longrightarrow>
      int_ok S E n (unary_sem c w n ` ivals S E a) y"
  shows "refines S E y x"
proof -
  have c4: "c \<in> {Not, Trunc, ZExt, SExt}" using x(3) by blast
  show ?thesis
  proof (rule unary_refines [OF W(1) x(1,2) c4])
    fix w n a assume n: "x = int_node c n [a]" "is_i S w a" "widths_ok c w n"
    have t: "op_type a = Type Integer w" using n(2) by (simp add: is_i_def)
    show "int_ok S E n (unary_sem c w n ` ivals S E a) y"
    proof (cases "as_const_int a")
      case (Some i)
      have ne: "n \<noteq> w" using ok n(1) t Some x(3) by (auto simp: fold_ok_def)
      have "CreateConstantInt S cf (f i n) = Some y" using y n(1) Some by (simp add: bitwidth_int)
      then show ?thesis
        by (rule const_int_ok [OF W]) (use as_const_int_wt [OF W(1) n(2) Some] f [OF _ n(3) ne, of i] in simp_all)
    next
      case None
      show ?thesis
      proof (cases "n = w")
        case True
        then have "y = a" using y n(1) None t by simp
        then show ?thesis using True n(2) same_width_unary [OF W(1) n(2) x(3)] by (simp add: int_ok_def)
      next
        case False
        then have "rest a = Some y" using y n(1) None t by simp
        then show ?thesis by (rule rest [OF n False])
      qed
    qed
  qed
qed

lemma visitTrunc_sound:
  assumes W: "world_ok S E" "sound_folder S E cf" and x: "wt S x" "op_opcode x = Trunc"
    and ok: "fold_ok S E x" and y: "visitTrunc S cf x = Some y"
  shows "refines S E y x"
proof (rule cast_refines [OF W x _ ok y [unfolded visitTrunc_def]])
  show "ap_width S (ap_trunc S i n) = n \<and> ap_val S (ap_trunc S i n) = unary_sem Trunc w n (ap_val S i)"
    if "ap_width S i = w" "widths_ok Trunc w n" "n \<noteq> w" for i w n
    using that by (auto simp: widths_ok_def apint_lawsD [OF world_okD(3) [OF W(1)]])
next
  fix w n a
  assume n: "x = int_node Trunc n [a]" "is_i S w a" "widths_ok Trunc w n" "visitOperation x = Some y"
  show "int_ok S E n (unary_sem Trunc w n ` ivals S E a) y"
    by (rule unary_self_ok [OF W(1) n(2,3)]) (use n in simp)
qed simp

lemma visitSExt_sound:
  assumes W: "world_ok S E" "sound_folder S E cf" and x: "wt S x" "op_opcode x = SExt"
    and ok: "fold_ok S E x" and y: "visitSExt S cf x = Some y"
  shows "refines S E y x"
proof (rule cast_refines [OF W x _ ok y [unfolded visitSExt_def]])
  show "ap_width S (ap_sext S i n) = n \<and> ap_val S (ap_sext S i n) = unary_sem SExt w n (ap_val S i)"
    if "ap_width S i = w" "widths_ok SExt w n" "n \<noteq> w" for i w n
    using that by (auto simp: widths_ok_def apint_lawsD [OF world_okD(3) [OF W(1)]])
next
  fix w n a
  assume n: "x = int_node SExt n [a]" "is_i S w a" "widths_ok SExt w n" "visitOperation x = Some y"
  show "int_ok S E n (unary_sem SExt w n ` ivals S E a) y"
    by (rule unary_self_ok [OF W(1) n(2,3)]) (use n in simp)
qed simp

text \<open>A zero extension of a truncation back to the original width is a mask.\<close>

lemma zext_trunc_ok:
  assumes W: "world_ok S E" "sound_folder S E cf" and a: "is_i S w a" "match_unop Trunc a = Some v" "op_type v = Type Integer n"
    and y: "do { m \<leftarrow> CreateConstantInt S cf (ap_low_bits S n w); CreateAnd cf v m } = Some y"
  shows "int_ok S E n (unary_sem ZExt w n ` ivals S E a) y"
proof -
  have "op_opcode a = Trunc" "wt S a" using a(1,2) by (auto simp: match_unop_def is_i_def split: if_splits)
  then obtain w' n' v' where t: "a = int_node Trunc n' [v']" "is_i S w' v'" "widths_ok Trunc w' n'"
    using wt_unary [of S a Trunc] by blast
  have e: "v' = v" "n' = w" "w' = n" using t a by (auto simp: match_unop_def is_i_def)
  have v: "is_i S n v" "w \<le> n" "ivals S E a = (\<lambda>k. k mod 2 ^ w) ` ivals S E v"
    using t e unary_node(2) [OF W(1) t(2,3)] by (auto simp: widths_ok_def)
  note n = ivalsD(1) [OF W(1) v(1)]
  obtain m where m: "CreateConstantInt S cf (ap_low_bits S n w) = Some m" "create_int_binop cf And v m = Some y"
    using y by (auto simp: CreateAnd_def Option.bind_eq_Some_conv)
  have m': "int_ok S E n {2 ^ w - 1} m"
    by (rule const_int_ok [OF W m(1)]) (use v(2) n in \<open>simp_all add: apint_lawsD [OF world_okD(3) [OF W(1)]]\<close>)
  have "int_ok S E n (ivals S E v) v" using v(1) by (simp add: int_ok_def)
  from binop_int_ok [OF W m(2) int_ops_mem(8) this m']
  show ?thesis using v(3) by (auto simp: results_def and_low_mask int_ok_def image_def)
qed

lemma visitZExt_sound:
  assumes W: "world_ok S E" "sound_folder S E cf" and x: "wt S x" "op_opcode x = ZExt"
    and ok: "fold_ok S E x" and y: "visitZExt S cf x = Some y"
  shows "refines S E y x"
proof (rule cast_refines [OF W x _ ok y [unfolded visitZExt_def]])
  show "ap_width S (ap_zext S i n) = n \<and> ap_val S (ap_zext S i n) = unary_sem ZExt w n (ap_val S i)"
    if "ap_width S i = w" "widths_ok ZExt w n" "n \<noteq> w" for i w n
    using that by (auto simp: widths_ok_def apint_lawsD [OF world_okD(3) [OF W(1)]])
next
  fix w n a
  assume n: "x = int_node ZExt n [a]" "is_i S w a" "widths_ok ZExt w n" "n \<noteq> w"
    and r: "(case match_unop Trunc a of
        None \<Rightarrow> visitOperation x
      | Some inner \<Rightarrow> do {
          bw1 \<leftarrow> bitwidth (op_type x);
          bw2 \<leftarrow> bitwidth (op_type inner);
          tbw \<leftarrow> bitwidth (op_type a);
          if bw1 = bw2
          then do { mask \<leftarrow> CreateConstantInt S cf (ap_low_bits S bw1 tbw); CreateAnd cf inner mask }
          else visitOperation x }) = Some y"
  have t: "op_type a = Type Integer w" "wt S a" using n(2) by (simp_all add: is_i_def)
  show "int_ok S E n (unary_sem ZExt w n ` ivals S E a) y"
  proof (cases "visitOperation x = Some y")
    case True
    then show ?thesis using unary_self_ok [OF W(1) n(2,3)] n(1) by simp
  next
    case False
    then obtain v where v: "match_unop Trunc a = Some v" using r by (auto split: option.splits)
    then have "op_opcode a = Trunc" by (simp add: match_unop_def split: if_splits)
    then obtain w' n' v' where tr: "a = int_node Trunc n' [v']" "is_i S w' v'" using wt_unary [of S a Trunc] t(2) by blast
    then have tv: "op_type v = Type Integer w'" using v by (simp add: match_unop_def is_i_def)
    have "n = w' \<and> do { m \<leftarrow> CreateConstantInt S cf (ap_low_bits S n w); CreateAnd cf v m } = Some y"
      using r v False n(1) t(1) tv by (simp add: bitwidth_int split: if_splits)
    then show ?thesis using zext_trunc_ok [OF W n(2) v, of n y] tv by blast
  qed
qed simp

section \<open>Comparisons\<close>

definition truth :: "bool \<Rightarrow> nat" where
  "truth b = (if b then 1 else 0)"

lemma of_bool1_truth: "of_bool1 b = SInt 1 (truth b)"
  by (simp add: of_bool1_def truth_def)

lemma icmp_node:
  assumes W: "world_ok S E" and i: "is_i S w l" "is_i S w r"
  shows "is_i S 1 (int_node (ICmp p) 1 [l, r])"
    "ivals S E (int_node (ICmp p) 1 [l, r]) = {truth (icmp_sem p w a b) |a b. a \<in> ivals S E l \<and> b \<in> ivals S E r}"
proof -
  have t: "op_type l = Type Integer w" "op_type r = Type Integer w" "wt S l" "wt S r" using i by (simp_all add: is_i_def)
  then show "is_i S 1 (int_node (ICmp p) 1 [l, r])"
    by (simp add: is_i_def int_node_def op_type_def wt_operation_def)
  have "beh S E (int_node (ICmp p) 1 [l, r]) = (\<Union>a\<in>beh S E l. \<Union>b\<in>beh S E r. binary_beh S (ICmp p) a b)"
    by (simp add: int_node_def)
  also have "\<dots> = SInt 1 ` {truth (icmp_sem p w a b) |a b. a \<in> ivals S E l \<and> b \<in> ivals S E r}"
    using ivalsD(5) [OF W i(1)] ivalsD(5) [OF W i(2)] by (auto simp: binary_beh_def of_bool1_truth)
  finally show "ivals S E (int_node (ICmp p) 1 [l, r]) = {truth (icmp_sem p w a b) |a b. a \<in> ivals S E l \<and> b \<in> ivals S E r}"
    by (auto simp: ivals_def)
qed

lemma wt_icmp:
  assumes "wt S x" "op_opcode x = ICmp p"
  obtains w l r where "x = int_node (ICmp p) 1 [l, r]" "is_i S w l" "is_i S w r"
proof -
  have "ICmp p \<notin> leaf_opcodes" by (simp add: leaf_opcodes_def)
  then obtain t ops where x: "x = Operation (OperationData (ICmp p) t) ops" "list_all (wt S) ops"
      "wt_operation S (ICmp p) t (map op_type ops)"
    by (rule wt_inner [OF assms])
  then obtain w where "t = Type Integer 1" "map op_type ops = [Type Integer w, Type Integer w]" by (auto simp: wt_operation_def)
  then show thesis using that x(1,2) by (auto simp: map_eq_Cons_conv int_node_def is_i_def)
qed

lemma constant_int_compare_sem:
  "apint_laws S \<Longrightarrow> ap_width S a = w \<Longrightarrow> ap_width S b = w \<Longrightarrow>
     constant_int_compare S p a b = icmp_sem p w (ap_val S a) (ap_val S b)"
  by (cases p) (simp_all add: apint_cmpD)

lemma icmp_reflexive_sem: "icmp_sem p w a a = icmp_reflexive p"
  by (cases p) simp_all

text \<open>Two arbitrary values may compare either way.\<close>

lemma icmp_both_ways:
  assumes "0 < w"
  shows "\<exists>a<2 ^ w. \<exists>b<2 ^ w. icmp_sem p w a b = c"
proof -
  let ?m = "2 ^ w - 1 :: nat"
  have m: "0 < ?m" "?m < 2 ^ w" using assms one_less_power [of "2 :: nat" w] by auto
  have s: "to_signed w ?m = - 1" "to_signed w 0 = 0"
  proof -
    have "(2 :: nat) ^ w = 2 * 2 ^ (w - 1)" using assms by (metis Suc_pred' power_Suc)
    moreover have "(0 :: nat) < 2 ^ (w - 1)" by simp
    ultimately have "\<not> ?m < 2 ^ (w - 1)" by linarith
    then show "to_signed w ?m = - 1" using m by (simp add: to_signed_def of_nat_diff)
    show "to_signed w 0 = 0" using assms by (rule to_signed_0)
  qed
  have "icmp_sem p w 0 0 = c \<or> icmp_sem p w 0 ?m = c \<or> icmp_sem p w ?m 0 = c"
    using m(1) s by (cases p; cases c) simp_all
  then show ?thesis using m(2) by (metis zero_less_numeral zero_less_power)
qed

lemma bool_ok:
  assumes "world_ok S E" "sound_folder S E cf" "CreateBool S cf b = Some y" "truth b \<in> V"
  shows "int_ok S E 1 V y"
  using CreateBool_sound [OF assms(1-3)] assms(4) by (simp add: int_ok_def truth_def)

lemma visitICmp_sound:
  assumes W: "world_ok S E" "sound_folder S E cf" and x: "wt S x" "op_opcode x = ICmp p" and y: "visitICmp S cf p x = Some y"
  shows "refines S E y x"
proof -
  obtain w l r where n: "x = int_node (ICmp p) 1 [l, r]" "is_i S w l" "is_i S w r" using wt_icmp [OF x] by blast
  let ?V = "{truth (icmp_sem p w a b) |a b. a \<in> ivals S E l \<and> b \<in> ivals S E r}"
  note L = world_okD(3) [OF W(1)]
  have "int_ok S E 1 ?V y"
    using y [unfolded visitICmp_def n(1) with_binary_node]
  proof (cases rule: try_const_int_cases [OF W(1) n(2,3) y [unfolded visitICmp_def n(1) with_binary_node]])
    case 1
    consider "same_ref S l r" "is_undef l" "CreateUndef cf (Type Integer 1) = Some y"
      | "same_ref S l r" "CreateBool S cf (icmp_reflexive p) = Some y" | "y = x"
      using 1(1) n(1) by (auto simp: int_ty_Some visitOperation_def split: if_splits)
    then show ?thesis
    proof cases
      case 1
      then have r: "r = l" using world_okD(4) [OF W(1)] by blast
      have "{0, 1} \<subseteq> ?V"
        using icmp_both_ways [OF ivalsD(1) [OF W(1) n(2)], of p True] icmp_both_ways [OF ivalsD(1) [OF W(1) n(2)], of p False]
        unfolding r is_undefD [OF W(1) n(2) 1(2)] by (auto simp: truth_def)
      moreover have "upto_pow 1 \<subseteq> {0, 1}" by (auto simp: upto_pow_def less_2_cases_iff One_nat_def)
      ultimately have "upto_pow 1 \<subseteq> ?V" by (rule order_trans [rotated])
      then show ?thesis using CreateUndef_sound [OF W _ _ 1(3)] unfolding int_ok_def by (simp add: order_trans)
    next
      case 2
      then have r: "r = l" using world_okD(4) [OF W(1)] by blast
      obtain a where "a \<in> ivals S E l" using ivalsD(3) [OF W(1) n(2)] by blast
      then have "truth (icmp_reflexive p) \<in> ?V" using icmp_reflexive_sem [of p w a] r by force
      then show ?thesis by (rule bool_ok [OF W 2(2)])
    next
      case 3
      then show ?thesis using icmp_node [OF W(1) n(2,3)] n(1) by (simp add: int_ok_def)
    qed
  next
    case (2 a b)
    then show ?thesis by (intro bool_ok [OF W 2(1)]) (simp add: constant_int_compare_sem [OF L])
  qed
  then show ?thesis
    using refines_int_ok [OF W(1) icmp_node(1) [OF W(1) n(2,3)], of p y] icmp_node(2) [OF W(1) n(2,3)] n(1) by simp
qed

section \<open>Selection\<close>

lemma visitSelectOp_sound:
  assumes W: "world_ok S E" and x: "wt S x" "op_opcode x = Select" and y: "visitSelectOp S x = Some y"
  shows "refines S E y x"
proof -
  have "Select \<notin> leaf_opcodes" by (simp add: leaf_opcodes_def)
  then obtain t ops where n: "x = Operation (OperationData Select t) ops" "list_all (wt S) ops"
      "wt_operation S Select t (map op_type ops)" "op_type x = t"
    by (rule wt_inner [OF x])
  then obtain c u v where o: "ops = [c, u, v]" "is_i S 1 c" "wt S u" "wt S v" "op_type u = t" "op_type v = t"
    by (auto simp: wt_operation_def map_eq_Cons_conv is_i_def)
  have b: "beh S E x = (if SInt 1 1 \<in> beh S E c then beh S E u else {}) \<union> (if SInt 1 0 \<in> beh S E c then beh S E v else {})"
    using n(1) o(1) by simp
  consider i where "as_const_int c = Some i" "y = (if ap_eq_u64 S i 1 then u else v)" | "same_ref S u v" "y = u" | "y = x"
    using y n(1) o(1) by (auto simp: visitSelectOp_def visitOperation_def split: option.splits if_splits)
  then show ?thesis
  proof cases
    case 1
    note i = as_const_int_wt [OF W o(2) 1(1)]
    have "ap_val S i = 0 \<or> ap_val S i = 1" using i(6) by (auto simp: less_2_cases_iff One_nat_def)
    then show ?thesis
      using b i(3) ivalsD(5) [OF W o(2)] 1(2) o n(4) by (auto simp: refines_def apint_lawsD [OF world_okD(3) [OF W]])
  next
    case 2
    have "u = v" using world_okD(4) [OF W 2(1)] .
    obtain k where "k \<in> ivals S E c" "k < 2 ^ 1" using ivalsD(3,4) [OF W o(2)] by blast
    then have "SInt 1 1 \<in> beh S E c \<or> SInt 1 0 \<in> beh S E c"
      using ivalsD(5) [OF W o(2)] by (auto simp: less_2_cases_iff One_nat_def)
    then show ?thesis using b 2(2) \<open>u = v\<close> o n(4) by (auto simp: refines_def)
  next
    case 3
    then show ?thesis using refines_refl [OF x(1)] by simp
  qed
qed

section \<open>Floating point\<close>

definition float_node :: "ty \<Rightarrow> 'f \<Rightarrow> ('i, 'f) op" where
  "float_node t f = Operation (ConstantFloatData t f) []"

lemma as_const_float_wt:
  assumes "wt S x" "as_const_float x = Some f"
  shows "beh S E x = {SFloat f}" "type_of_apfloat S f = Some (op_type x)"
proof -
  obtain t where "op_data x = ConstantFloatData t f"
    using assms(2) by (auto simp: as_const_float_def split: opdata.splits)
  then show "beh S E x = {SFloat f}" "type_of_apfloat S f = Some (op_type x)"
    using assms(1) by (cases x; simp add: op_type_def)+
qed

lemma CreateConstantFloat_sound:
  assumes cf: "sound_folder S E cf" and c: "CreateConstantFloat S cf f = Some y" and t: "type_of_apfloat S f = Some t"
  shows "wt S y" "op_type y = t" "beh S E y \<subseteq> {SFloat f}"
proof -
  have f: "cf (float_node t f) = Some y"
    using c t by (auto simp: CreateConstantFloat_def mk_constant_float_data_def mk_operation_Some float_node_def Option.bind_eq_Some_conv)
  have "wt S (float_node t f)" "fold_ok S E (float_node t f)"
    using t by (simp_all add: float_node_def fold_ok_def op_opcode_def)
  then have "refines S E y (float_node t f)" by (rule sound_folderD [OF cf _ _ f])
  then show "wt S y" "op_type y = t" "beh S E y \<subseteq> {SFloat f}" by (simp_all add: refines_def float_node_def op_type_def)
qed

lemma wt_operation_float: "c \<in> float_ops \<Longrightarrow> wt_operation L c t ts \<longleftrightarrow> is_float t \<and> ts = [t, t]"
  unfolding float_ops_def by (elim insertE) (simp_all add: wt_operation_def int_ops_def float_ops_def conv_ops_def)

lemma wt_float_op:
  assumes "wt S x" "op_opcode x = c" "c \<in> float_ops"
  obtains t l r where "x = Operation (OperationData c t) [l, r]" "wt S l" "wt S r" "op_type l = t" "op_type r = t" "op_type x = t"
proof -
  have "c \<notin> leaf_opcodes" using assms(3) by (auto simp: leaf_opcodes_def float_ops_def)
  then obtain t ops where x: "x = Operation (OperationData c t) ops" "list_all (wt S) ops"
      "wt_operation S c t (map op_type ops)" "op_type x = t"
    by (rule wt_inner [OF assms(1,2)])
  have "map op_type ops = [t, t]" using x(3) by (simp only: wt_operation_float [OF assms(3)])
  then show thesis using that x by (auto simp: map_eq_Cons_conv)
qed

text \<open>The four arithmetic visitors: \<open>f\<close> is the operation of LLVM they apply to constants.\<close>

lemma float_op_refines:
  assumes W: "world_ok S E" "sound_folder S E cf" and x: "wt S x" "op_opcode x = c" "c \<in> float_ops"
    and sem: "\<And>a b. float_sem S c a b = {f a b}"
    and y: "with_binary x (\<lambda>l r. try_const_float l r (\<lambda>a b. CreateConstantFloat S cf (f a b)) (visitOperation x)) = Some y"
  shows "refines S E y x"
proof -
  obtain t l r where n: "x = Operation (OperationData c t) [l, r]" "wt S l" "wt S r" "op_type l = t" "op_type r = t" "op_type x = t"
    by (rule wt_float_op [OF x])
  show ?thesis
  proof (cases "as_const_float l = None \<or> as_const_float r = None")
    case True
    then have "y = x"
      using y n(1) by (auto simp: with_binary_def try_const_float_def visitOperation_def split: option.splits)
    then show ?thesis using refines_refl [OF x(1)] by simp
  next
    case False
    then obtain a b where ab: "as_const_float l = Some a" "as_const_float r = Some b" by auto
    note l = as_const_float_wt [OF n(2) ab(1)]
    note r = as_const_float_wt [OF n(3) ab(2)]
    have c: "CreateConstantFloat S cf (f a b) = Some y" using y n(1) ab by (simp add: with_binary_def try_const_float_def)
    have nb: "c \<noteq> Undef" "c \<noteq> FixedArray" "c \<noteq> Alloc" using x(3) by (auto simp: float_ops_def)
    have "beh S E x = {SFloat (f a b)}"
      using n(1) l(1) [of E] r(1) [of E] nb by (simp add: binary_beh_float [OF x(3)] sem)
    moreover have "type_of_apfloat S (f a b) = Some t"
      using wt_typed [OF world_okD(1,2) [OF W(1)] x(1)] calculation n(6) by simp
    ultimately show ?thesis using CreateConstantFloat_sound [OF W(2) c] n(6) by (simp add: refines_def)
  qed
qed

lemma visitFAdd_sound: "world_ok S E \<Longrightarrow> sound_folder S E cf \<Longrightarrow> wt S x \<Longrightarrow> op_opcode x = FAdd \<Longrightarrow>
    visitFAdd S cf x = Some y \<Longrightarrow> refines S E y x"
  and visitFSub_sound: "world_ok S E \<Longrightarrow> sound_folder S E cf \<Longrightarrow> wt S x \<Longrightarrow> op_opcode x = FSub \<Longrightarrow>
    visitFSub S cf x = Some y \<Longrightarrow> refines S E y x"
  and visitFMul_sound: "world_ok S E \<Longrightarrow> sound_folder S E cf \<Longrightarrow> wt S x \<Longrightarrow> op_opcode x = FMul \<Longrightarrow>
    visitFMul S cf x = Some y \<Longrightarrow> refines S E y x"
  and visitFDiv_sound: "world_ok S E \<Longrightarrow> sound_folder S E cf \<Longrightarrow> wt S x \<Longrightarrow> op_opcode x = FDiv \<Longrightarrow>
    visitFDiv S cf x = Some y \<Longrightarrow> refines S E y x"
  unfolding visitFAdd_def visitFSub_def visitFMul_def visitFDiv_def
  by (erule (4) float_op_refines [rotated -1], simp_all add: float_ops_def)+

lemma visitFRem_sound:
  assumes W: "world_ok S E" and x: "wt S x" "op_opcode x = FRem" and ok: "fold_ok S E x" and y: "visitFRem S cf x = Some y"
  shows "refines S E y x"
proof -
  obtain t l r where n: "x = Operation (OperationData FRem t) [l, r]"
    by (rule wt_float_op [OF x]) (simp_all add: float_ops_def)
  have "as_const_float l = None \<or> as_const_float r = None" using ok n by (simp add: fold_ok_def op_opcode_def)
  then have "y = x"
    using y n by (auto simp: visitFRem_def with_binary_def try_const_float_def visitOperation_def split: option.splits)
  then show ?thesis using refines_refl [OF x(1)] by simp
qed

lemma visitFIsNaN_sound:
  assumes W: "world_ok S E" "sound_folder S E cf" and x: "wt S x" "op_opcode x = FIsNaN" and y: "visitFIsNaN S cf x = Some y"
  shows "refines S E y x"
proof -
  have "FIsNaN \<notin> leaf_opcodes" by (simp add: leaf_opcodes_def)
  then obtain t ops where n: "x = Operation (OperationData FIsNaN t) ops" "list_all (wt S) ops"
      "wt_operation S FIsNaN t (map op_type ops)" "op_type x = t"
    by (rule wt_inner [OF x])
  then obtain a where a: "ops = [a]" "wt S a" "t = Type Integer 1" by (auto simp: wt_operation_def map_eq_Cons_conv)
  show ?thesis
  proof (cases "as_const_float a")
    case None
    then show ?thesis using y n(1) a(1) refines_refl [OF x(1)] by (simp add: visitFIsNaN_def with_unary_def visitOperation_def)
  next
    case (Some f)
    then have c: "CreateBool S cf (fl_is_nan S f) = Some y" using y n(1) a(1) by (simp add: visitFIsNaN_def with_unary_def)
    have "beh S E x = {SInt 1 (truth (fl_is_nan S f))}"
      using n(1) a(1) as_const_float_wt(1) [OF a(2) Some] by (simp add: unary_beh_def conv_ops_def of_bool1_truth)
    then have i: "is_i S 1 x" "ivals S E x = {truth (fl_is_nan S f)}" using x(1) n(4) a(3) by (simp_all add: is_i_def ivals_def)
    show ?thesis by (rule refines_int_ok [OF W(1) i(1) bool_ok [OF W c]]) (simp add: i(2))
  qed
qed

lemma constant_float_compare_sem: "constant_float_compare S p a b = fcmp_sem p (fl_compare S a b)"
  by (cases p) simp_all

lemma visitFCmp_sound:
  assumes W: "world_ok S E" "sound_folder S E cf" and x: "wt S x" "op_opcode x = FCmp p" and ok: "fold_ok S E x"
    and y: "visitFCmp S cf p x = Some y"
  shows "refines S E y x"
proof -
  have "FCmp p \<notin> leaf_opcodes" by (simp add: leaf_opcodes_def)
  then obtain t ops where n: "x = Operation (OperationData (FCmp p) t) ops" "list_all (wt S) ops"
      "wt_operation S (FCmp p) t (map op_type ops)" "op_type x = t"
    by (rule wt_inner [OF x])
  then obtain l r where a: "ops = [l, r]" "wt S l" "wt S r" "t = Type Integer 1" by (auto simp: wt_operation_def map_eq_Cons_conv)
  have nr: "\<not> same_ref S l r" using ok n(1) a(1) by (simp add: fold_ok_def op_opcode_def)
  show ?thesis
  proof (cases "as_const_float l = None \<or> as_const_float r = None")
    case True
    then have "y = x"
      using y n(1) a(1) nr by (auto simp: visitFCmp_def with_binary_def try_const_float_def visitOperation_def split: option.splits)
    then show ?thesis using refines_refl [OF x(1)] by simp
  next
    case False
    then obtain u v where uv: "as_const_float l = Some u" "as_const_float r = Some v" by auto
    then have c: "CreateBool S cf (fcmp_sem p (fl_compare S u v)) = Some y"
      using y n(1) a(1) by (simp add: visitFCmp_def with_binary_def try_const_float_def constant_float_compare_sem)
    have "beh S E x = {SInt 1 (truth (fcmp_sem p (fl_compare S u v)))}"
      using n(1) a(1) as_const_float_wt(1) [OF a(2) uv(1)] as_const_float_wt(1) [OF a(3) uv(2)]
      by (simp add: binary_beh_def of_bool1_truth)
    then have i: "is_i S 1 x" "ivals S E x = {truth (fcmp_sem p (fl_compare S u v))}"
      using x(1) n(4) a(4) by (simp_all add: is_i_def ivals_def)
    show ?thesis by (rule refines_int_ok [OF W(1) i(1) bool_ok [OF W c]]) (simp add: i(2))
  qed
qed

lemma visitBitcast_sound:
  assumes x: "wt S x" "op_opcode x = Bitcast" and ok: "fold_ok S E x" and y: "visitBitcast x = Some y"
  shows "refines S E y x"
proof -
  obtain a where "operands x = [a]" using y by (auto simp: visitBitcast_def with_unary_def split: list.splits)
  then have "y = x"
    using y ok x(2) by (auto simp: visitBitcast_def with_unary_def fold_ok_def match_unop_def visitOperation_def)
  then show ?thesis using refines_refl [OF x(1)] by simp
qed

end
