(* ===== verification/IR_Fold_Sound.thy ===== *)
theory IR_Fold_Sound
  imports IR_Fold_Scalar
begin

text \<open>
  Soundness of the visitors for arrays, of the dispatch and of \<^verbatim>\<open>constant_fold\<close> itself: the node that
  \<^verbatim>\<open>constant_fold\<close> returns is well typed, has the type of the node it was given, and takes only values
  that the original may take.
\<close>

declare One_nat_def [simp del]

lemma ivals_of_beh: "beh S E x = SInt w ` V \<Longrightarrow> op_type x = Type Integer w \<Longrightarrow> ivals S E x = V"
  by (auto simp: ivals_def)

section \<open>Arrays of known length\<close>

definition array_node :: "nat \<Rightarrow> ('i, 'f) op list \<Rightarrow> ('i, 'f) op" where
  "array_node w vs = Operation (OperationData FixedArray (Type Array w)) vs"

text \<open>The bytes an array of expressions may hold.\<close>

definition byte_lists :: "('i, 'f, 'z) ctx_scheme \<Rightarrow> 'f senv \<Rightarrow> ('i, 'f) op list \<Rightarrow> nat list set" where
  "byte_lists S E vs = {bs. list_all2 (\<lambda>v b. b \<in> ivals S E v) vs bs}"

definition array_wf :: "('i, 'f, 'z) ctx_scheme \<Rightarrow> nat \<Rightarrow> ('i, 'f) op list \<Rightarrow> bool" where
  "array_wf S w vs \<longleftrightarrow> 0 < w \<and> w < 2 ^ 24 \<and> length vs \<le> 2 ^ w \<and> length vs \<le> size_max \<and> list_all (is_i S 8) vs"

lemma array_wf_wt: "array_wf S w vs \<longleftrightarrow> wt S (array_node w vs)"
  by (auto simp: array_wf_def array_node_def list.pred_map wt_operation_def is_i_def list_all_iff)

lemma beh_array_node:
  assumes "array_wf S w vs"
  shows "beh S E (array_node w vs) = SArr w ` byte_lists S E vs"
proof -
  have i: "ivals S E v = {b. SInt 8 b \<in> beh S E v}" if "v \<in> set vs" for v
    using assms that by (auto simp: array_wf_def list_all_iff is_i_def ivals_def)
  have "list_all2 (\<lambda>A b. SInt 8 b \<in> A) (map (beh S E) vs) bs \<longleftrightarrow> list_all2 (\<lambda>v b. b \<in> ivals S E v) vs bs" for bs
    unfolding list_all2_map1 by (rule list.rel_cong) (use i in \<open>auto\<close>)
  then show ?thesis by (auto simp: array_node_def byte_lists_def)
qed

lemma byte_lists_nth:
  assumes W: "world_ok S E" and a: "array_wf S w vs" and k: "k < length vs" and b: "b \<in> ivals S E (vs ! k)"
  shows "\<exists>bs\<in>byte_lists S E vs. bs ! k = b \<and> length bs = length vs"
proof -
  have "\<forall>j<length vs. \<exists>c. c \<in> ivals S E (vs ! j)"
    using a ivalsD(3) [OF W, of 8] by (simp add: array_wf_def list_all_length ex_in_conv)
  then obtain f where f: "\<forall>j<length vs. f j \<in> ivals S E (vs ! j)" by metis
  let ?bs = "map (\<lambda>j. if j = k then b else f j) [0..<length vs]"
  have "?bs \<in> byte_lists S E vs" using f b by (auto simp: byte_lists_def list_all2_conv_all_nth)
  moreover have "?bs ! k = b" using k by simp
  ultimately show ?thesis by (intro bexI [of _ ?bs]) simp_all
qed

lemma CreateFixedArray_sound:
  assumes W: "world_ok S E" and cf: "sound_folder S E cf" and c: "CreateFixedArray S cf (Type Integer w) vs = Some y"
    and a: "array_wf S w vs"
  shows "refines S E y (array_node w vs)"
proof -
  have f: "cf (array_node w vs) = Some y"
    using c by (auto simp: CreateFixedArray_def mk_operation_Some array_ty_eq_Some bitwidth_int array_node_def Option.bind_eq_Some_conv)
  have "fold_ok S E (array_node w vs)" by (simp add: fold_ok_def array_node_def op_opcode_def)
  then show ?thesis using sound_folderD [OF cf _ _ f] a by (simp add: array_wf_wt)
qed

lemma visitAllocOp_sound:
  assumes W: "world_ok S E" "sound_folder S E cf" and x: "wt S x" "op_opcode x = Alloc" and y: "visitAllocOp S cf x = Some y"
  shows "refines S E y x"
proof -
  have "Alloc \<notin> leaf_opcodes" by (simp add: leaf_opcodes_def)
  then obtain t ops where n: "x = Operation (OperationData Alloc t) ops" "list_all (wt S) ops"
      "wt_operation S Alloc t (map op_type ops)" "op_type x = t"
    by (rule wt_inner [OF x])
  then obtain w sz d where a: "ops = [sz, d]" "t = Type Array w" "is_i S w sz" "is_i S 8 d"
    by (auto simp: wt_operation_def map_eq_Cons_conv is_i_def)
  show ?thesis
  proof (cases "\<exists>i. as_const_int sz = Some i \<and> ap_limited S i size_max < size_max")
    case False
    then have "y = x" using y n(1) a(1) by (auto simp: visitAllocOp_def with_binary_def visitOperation_def split: option.splits)
    then show ?thesis using refines_refl [OF x(1)] by simp
  next
    case True
    then obtain i where i: "as_const_int sz = Some i" "ap_limited S i size_max < size_max" by blast
    note s = as_const_int_wt [OF W(1) a(3) i(1)]
    define k where "k = ap_val S i"
    have k: "ap_limited S i size_max = k" "k < size_max" "k < 2 ^ w"
      using i(2) s(6) by (simp_all add: k_def apint_lawsD [OF world_okD(3) [OF W(1)]])
    have wf: "array_wf S w (replicate k d)" using k s(4,5) a(4) by (simp add: array_wf_def list_all_iff)
    have "CreateFixedArray S cf (Type Integer w) (replicate k d) = Some y"
      using y n(1) a(1,3) i(1) k(1,2) by (simp add: visitAllocOp_def with_binary_def CreateFixedArrayFill_def is_i_def)
    note r = CreateFixedArray_sound [OF W this wf]
    have "bs \<in> byte_lists S E (replicate k d) \<longleftrightarrow> length bs = k \<and> (\<forall>b\<in>set bs. SInt 8 b \<in> beh S E d)" for bs
      using a(4) by (auto simp: byte_lists_def list_all2_conv_all_nth ivals_def is_i_def all_set_conv_all_nth)
    moreover have "beh S E sz = {SInt w k}" using s(3) ivalsD(5) [OF W(1) a(3)] by (simp add: k_def)
    ultimately have "beh S E x = beh S E (array_node w (replicate k d))"
      using n(1) a(1) by (auto simp: beh_array_node [OF wf])
    then show ?thesis using r n(4) a(2) by (simp add: refines_def array_node_def op_type_def)
  qed
qed

lemma wt_array_node:
  assumes "wt S d" "op_opcode d = FixedArray" "op_type d = Type Array w"
  shows "d = array_node w (operands d)" "array_wf S w (operands d)"
proof -
  have "FixedArray \<notin> leaf_opcodes" by (simp add: leaf_opcodes_def)
  then obtain t ops where n: "d = Operation (OperationData FixedArray t) ops" "op_type d = t"
    by (rule wt_inner [OF assms(1,2)])
  then show "d = array_node w (operands d)" using assms(3) by (simp add: array_node_def)
  then show "array_wf S w (operands d)" using assms(1) array_wf_wt [of S w "operands d"] by simp
qed

lemma wt_load:
  assumes "wt S x" "op_opcode x = Load"
  obtains w d i where "x = int_node Load 8 [d, i]" "wt S d" "op_type d = Type Array w" "is_i S w i"
proof -
  have "Load \<notin> leaf_opcodes" by (simp add: leaf_opcodes_def)
  then obtain t ops where n: "x = Operation (OperationData Load t) ops" "list_all (wt S) ops"
      "wt_operation S Load t (map op_type ops)" "op_type x = t"
    by (rule wt_inner [OF assms])
  then show thesis using that by (auto simp: wt_operation_def map_eq_Cons_conv is_i_def int_node_def)
qed

lemma load_ivals:
  assumes W: "world_ok S E" and a: "array_wf S w vs" and i: "is_i S w i"
  shows "ivals S E (int_node Load 8 [array_node w vs, i])
     = (\<Union>bs\<in>byte_lists S E vs. \<Union>k\<in>ivals S E i. if k < length bs then {bs ! k} else upto_pow 8)"
proof -
  have "beh S E (int_node Load 8 [array_node w vs, i])
      = (\<Union>bs\<in>byte_lists S E vs. \<Union>k\<in>ivals S E i. binary_beh S Load (SArr w bs) (SInt w k))"
    using ivalsD(5) [OF W i] by (auto simp: int_node_def beh_array_node [OF a])
  moreover have "binary_beh S Load (SArr w bs) (SInt w k) = SInt 8 ` (if k < length bs then {bs ! k} else upto_pow 8)" for bs k
    by (simp add: binary_beh_def)
  ultimately show ?thesis by (intro ivals_of_beh [where w = 8]) (simp_all only: image_UN int_node_simps)
qed

text \<open>A load at a known offset may give every value of the byte there, and any byte out of bounds.\<close>

lemma load_at:
  assumes W: "world_ok S E" and a: "array_wf S w vs" and i: "is_i S w i" "ivals S E i = {k}"
  shows "(if k < length vs then ivals S E (vs ! k) else upto_pow 8) \<subseteq> ivals S E (int_node Load 8 [array_node w vs, i])"
proof (cases "k < length vs")
  case True
  then show ?thesis using byte_lists_nth [OF W a True] i(2) by (fastforce simp: load_ivals [OF W a i(1)])
next
  case False
  have "typed S (beh S E (array_node w vs)) (op_type (array_node w vs))"
    using wt_typed [OF world_okD(1,2) [OF W]] a by (simp add: array_wf_wt)
  then obtain bs where "bs \<in> byte_lists S E vs" by (auto simp: beh_array_node [OF a] typed_def)
  moreover from this have "length bs = length vs" by (auto simp: byte_lists_def dest: list_all2_lengthD)
  ultimately show ?thesis using False i(2) by (auto simp: load_ivals [OF W a i(1)])
qed

text \<open>The constructors used by the chain of selections.\<close>

lemma CreateICmp_rhs_sound:
  assumes W: "world_ok S E" "sound_folder S E cf" and i: "is_i S w l" and k: "k < 2 ^ w" "k < 2 ^ 63"
    and c: "CreateICmp_rhs S cf ICmp_EQ l (int k) = Some y"
  shows "int_ok S E 1 {truth (a = k) |a. a \<in> ivals S E l} y"
proof -
  note L = world_okD(3) [OF W(1)]
  note w = ivalsD(1) [OF W(1) i]
  let ?z = "ap_sext_or_trunc S (ap_make S 64 (nat (int k mod 2 ^ 64))) w"
  obtain z where z: "CreateConstantInt S cf ?z = Some z" "CreateICmp cf ICmp_EQ l z = Some y"
    using c i by (auto simp: CreateICmp_rhs_def is_i_def bitwidth_int Option.bind_eq_Some_conv)
  have v: "ap_val S (ap_make S 64 (nat (int k mod 2 ^ 64))) = k" "ap_width S (ap_make S 64 (nat (int k mod 2 ^ 64))) = 64"
    using k(2) by (simp_all add: apint_lawsD [OF L])
  have "to_signed 64 k = int k" using k(2) by (simp add: to_signed_def)
  then have "ap_val S ?z = k" "ap_width S ?z = w"
    using v w k(1) by (simp_all add: apint_lawsD [OF L] of_signed_def)
  then have z': "is_i S w z" "ivals S E z = {k}" using CreateConstantInt_sound [OF W z(1)] by simp_all
  note nd = icmp_node [OF W(1) i z'(1), of ICmp_EQ]
  have f: "cf (int_node (ICmp ICmp_EQ) 1 [l, z]) = Some y"
    using z(2) by (auto simp: CreateICmp_def int_ty_Some mk_operation_Some int_node_def Option.bind_eq_Some_conv)
  have "fold_ok S E (int_node (ICmp ICmp_EQ) 1 [l, z])" by (simp add: fold_ok_def)
  then have "refines S E y (int_node (ICmp ICmp_EQ) 1 [l, z])"
    using sound_folderD [OF W(2) _ _ f] nd(1) by (simp add: is_i_def)
  then show ?thesis using refines_int [OF W(1) nd(1)] nd(2) z'(2) by (simp add: int_ok_def)
qed

lemma CreateSelect_sound:
  assumes W: "world_ok S E" "sound_folder S E cf" and i: "is_i S 1 c" "is_i S w u" "is_i S w v"
    and y: "CreateSelect cf c u v = Some y"
  shows "int_ok S E w ((if 1 \<in> ivals S E c then ivals S E u else {}) \<union> (if 0 \<in> ivals S E c then ivals S E v else {})) y"
proof -
  let ?n = "int_node Select w [c, u, v]"
  have t: "op_type c = Type Integer 1" "op_type u = Type Integer w" "op_type v = Type Integer w" "wt S c" "wt S u" "wt S v"
    using i by (simp_all add: is_i_def)
  have f: "cf ?n = Some y"
    using y t by (auto simp: CreateSelect_def int_ty_Some mk_operation_Some int_node_def Option.bind_eq_Some_conv)
  have n: "is_i S w ?n" using t by (simp add: is_i_def int_node_def op_type_def wt_operation_def)
  have "fold_ok S E ?n" by (simp add: fold_ok_def)
  then have "refines S E y ?n" using sound_folderD [OF W(2) _ _ f] n by (simp add: is_i_def)
  moreover have "ivals S E ?n = (if 1 \<in> ivals S E c then ivals S E u else {}) \<union> (if 0 \<in> ivals S E c then ivals S E v else {})"
    using t by (auto simp: ivals_def int_node_def op_type_def)
  ultimately show ?thesis using refines_int [OF W(1) n] by (simp add: int_ok_def)
qed

text \<open>The chain of selections that replaces a load at an offset whose value is \<open>k\<close>.\<close>

lemma load_chain_sound:
  assumes W: "world_ok S E" "sound_folder S E cf" and off: "is_i S w off" "ivals S E off = {k}"
  shows "list_all (is_i S 8) vs \<Longrightarrow> j + length vs \<le> 2 ^ w \<Longrightarrow> j + length vs \<le> 2 ^ 63 \<Longrightarrow> int_ok S E 8 V out \<Longrightarrow>
    load_chain S cf off j vs out = Some y \<Longrightarrow>
    int_ok S E 8 (if j \<le> k \<and> k < j + length vs then ivals S E (vs ! (k - j)) else V) y"
proof (induction vs arbitrary: j out V)
  case Nil
  then show ?case by (simp add: not_less [symmetric])
next
  case (Cons v vs)
  obtain c out' where c: "CreateICmp_rhs S cf ICmp_EQ off (int j) = Some c" "CreateSelect cf c v out = Some out'"
    "load_chain S cf off (j + 1) vs out' = Some y"
    using Cons.prems(5) by (auto simp: Option.bind_eq_Some_conv)
  have "int_ok S E 1 {truth (k = j)} c"
    using CreateICmp_rhs_sound [OF W off(1) _ _ c(1)] Cons.prems(2,3) off(2) by simp
  then have i: "is_i S 1 c" "ivals S E c = {truth (k = j)}" using ivalsD(3) [OF W(1), of 1 c] by (auto simp: int_ok_def)
  have "is_i S 8 v" "is_i S 8 out" using Cons.prems(1,4) by (simp_all add: int_ok_def)
  from CreateSelect_sound [OF W i(1) this c(2)]
  have "int_ok S E 8 (if k = j then ivals S E v else V) out'"
    using i(2) Cons.prems(4) by (cases "k = j") (simp_all add: truth_def int_ok_def, blast)
  from Cons.IH [OF _ _ _ this c(3)] Cons.prems(1-3)
  have "int_ok S E 8 (if j + 1 \<le> k \<and> k < j + 1 + length vs then ivals S E (vs ! (k - (j + 1)))
      else if k = j then ivals S E v else V) y" by simp
  moreover have "vs ! (k - (j + 1)) = (v # vs) ! (k - j)" if "j + 1 \<le> k"
    using that by (simp add: nth_Cons')
  ultimately show ?case by (auto split: if_splits)
qed

lemma visitLoadOp_sound:
  assumes W: "world_ok S E" "sound_folder S E cf" and x: "wt S x" "op_opcode x = Load" and ok: "fold_ok S E x"
    and y: "visitLoadOp S cf x = Some y"
  shows "refines S E y x"
proof -
  obtain w d i where n: "x = int_node Load 8 [d, i]" "wt S d" "op_type d = Type Array w" "is_i S w i"
    by (rule wt_load [OF x])
  have xi: "is_i S 8 x" using x(1) n(1) by (simp add: is_i_def)
  show ?thesis
  proof (cases "y = x")
    case True
    then show ?thesis using refines_refl [OF x(1)] by simp
  next
    case False
    then have d: "op_opcode d = FixedArray" using y n(1) by (auto simp: visitLoadOp_def visitOperation_def split: if_splits)
    define vs where "vs = operands d"
    have a: "d = array_node w vs" "array_wf S w vs" using wt_array_node [OF n(2) d n(3)] by (simp_all add: vs_def)
    obtain v where "beh S E i = {v}" using ok d n(1) by (auto simp: fold_ok_def)
    then have one: "SInt w j = v" if "j \<in> ivals S E i" for j using ivalsD(5) [OF W(1) n(4)] that by auto
    obtain k where "k \<in> ivals S E i" using ivalsD(3) [OF W(1) n(4)] by blast
    moreover have "j = k" if "j \<in> ivals S E i" for j using one [OF that] one [OF calculation] by (metis sval.inject(1))
    ultimately have k: "ivals S E i = {k}" by blast
    note at = load_at [OF W(1) a(2) n(4) k]
    have "int_ok S E 8 (if k < length vs then ivals S E (vs ! k) else upto_pow 8) y"
    proof (cases "as_const_int i")
      case (Some c)
      note s = as_const_int_wt [OF W(1) n(4) Some]
      have "ap_limited S c size_max < length vs" "y = vs ! ap_limited S c size_max"
        using y n(1) d Some by (auto simp: visitLoadOp_def vs_def Let_def Option.bind_eq_Some_conv)
      moreover have "ap_val S c = k" using s(3) k by simp
      moreover have "length vs \<le> size_max" using a(2) by (simp add: array_wf_def)
      ultimately have "k < length vs" "y = vs ! k" by (auto simp: apint_lawsD [OF world_okD(3) [OF W(1)]] min_def split: if_splits)
      then show ?thesis using a(2) by (auto simp: int_ok_def array_wf_def list_all_length)
    next
      case None
      obtain u where u: "CreateUndef cf (Type Integer 8) = Some u" "load_chain S cf i 0 vs u = Some y" "length vs < 1024"
        using y n(1) d None False
        by (auto simp: visitLoadOp_def vs_def visitOperation_def int_ty_Some Option.bind_eq_Some_conv split: if_splits)
      have "int_ok S E 8 (upto_pow 8) u" using CreateUndef_sound [OF W _ _ u(1)] by (simp add: int_ok_def)
      then show ?thesis
        using load_chain_sound [OF W n(4) k _ _ _ _ u(2)] a(2) u(3) by (auto simp: array_wf_def)
    qed
    from int_ok_mono [OF this at] show ?thesis using refines_int_ok [OF W(1) xi] n(1) a(1) by simp
  qed
qed

lemma byte_lists_update:
  assumes W: "world_ok S E" and a: "array_wf S w vs" and k: "k < length vs" and bs': "bs' \<in> byte_lists S E (vs[k := v])"
  shows "\<exists>bs\<in>byte_lists S E vs. \<exists>b\<in>ivals S E v. bs' = bs[k := b] \<and> k < length bs"
proof -
  obtain c where "c \<in> ivals S E (vs ! k)"
    using ivalsD(3) [OF W, of 8 "vs ! k"] a k by (auto simp: array_wf_def list_all_length)
  moreover have l: "length bs' = length vs" "\<forall>j<length vs. bs' ! j \<in> ivals S E (vs[k := v] ! j)"
    using bs' by (auto simp: byte_lists_def list_all2_conv_all_nth)
  ultimately have "bs'[k := c] \<in> byte_lists S E vs"
    using k by (auto simp: byte_lists_def list_all2_conv_all_nth nth_list_update split: if_splits)
  moreover have "bs' ! k \<in> ivals S E v" using l(2) [rule_format, OF k] k by simp
  moreover have "bs' = (bs'[k := c])[k := bs' ! k]" by simp
  ultimately show ?thesis using k l(1) by (metis length_list_update)
qed

lemma visitStoreOp_sound:
  assumes W: "world_ok S E" "sound_folder S E cf" and x: "wt S x" "op_opcode x = Store" and y: "visitStoreOp S cf x = Some y"
  shows "refines S E y x"
proof -
  have "Store \<notin> leaf_opcodes" by (simp add: leaf_opcodes_def)
  then obtain t ops where "x = Operation (OperationData Store t) ops" "list_all (wt S) ops"
      "wt_operation S Store t (map op_type ops)" "op_type x = t"
    by (rule wt_inner [OF x])
  then obtain w d i v where n: "x = Operation (OperationData Store (Type Array w)) [d, i, v]" "wt S d" "op_type d = Type Array w"
    "is_i S w i" "is_i S 8 v" "op_type x = Type Array w"
    by (auto simp: wt_operation_def map_eq_Cons_conv is_i_def)
  show ?thesis
  proof (cases "y = x")
    case True
    then show ?thesis using refines_refl [OF x(1)] by simp
  next
    case False
    then obtain c where d: "op_opcode d = FixedArray" and c: "as_const_int i = Some c"
      using y n(1) by (auto simp: visitStoreOp_def visitOperation_def split: if_splits option.splits)
    define vs where "vs = operands d"
    define k where "k = ap_val S c"
    have a: "d = array_node w vs" "array_wf S w vs" using wt_array_node [OF n(2) d n(3)] by (simp_all add: vs_def)
    note s = as_const_int_wt [OF W(1) n(4) c]
    have "ap_limited S c size_max < length vs"
      "CreateFixedArray S cf (op_type i) (vs[ap_limited S c size_max := v]) = Some y"
      using y n(1) d c by (auto simp: visitStoreOp_def vs_def Let_def Option.bind_eq_Some_conv)
    moreover have "length vs \<le> size_max" using a(2) by (simp add: array_wf_def)
    ultimately have k: "k < length vs" and f: "CreateFixedArray S cf (Type Integer w) (vs[k := v]) = Some y"
      using n(4) by (auto simp: k_def is_i_def apint_lawsD [OF world_okD(3) [OF W(1)]] min_def split: if_splits)
    have wf: "array_wf S w (vs[k := v])" using a(2) n(5) by (simp add: array_wf_def list_all_update)
    note upd = byte_lists_update [OF W(1) a(2) k]
    have "beh S E i = {SInt w k}" using s(3) ivalsD(5) [OF W(1) n(4)] by (simp add: k_def)
    then have "beh S E (array_node w (vs[k := v])) \<subseteq> beh S E x"
      using upd n(1) a(1) ivalsD(5) [OF W(1) n(5)] by (fastforce simp: beh_array_node [OF wf] beh_array_node [OF a(2)] store_beh_def)
    then show ?thesis using CreateFixedArray_sound [OF W f wf] n(6) by (auto simp: refines_def array_node_def op_type_def)
  qed
qed

section \<open>Dispatch\<close>

lemma visit_int_sound:
  assumes W: "world_ok S E" "sound_folder S E cf" and x: "wt S x" "op_opcode x \<in> int_ops" and y: "visit S cf x = Some y"
  shows "refines S E y x"
proof -
  define c where "c = op_opcode x"
  have c: "c \<in> int_ops" "op_opcode x = c" using x(2) by (simp_all add: c_def)
  show ?thesis
  proof (rule int_op_refines [OF W(1) x(1) c(2,1)])
    fix w l r assume n: "x = int_node c w [l, r]" and i: "is_i S w l" "is_i S w r"
    have v: "visit S cf (int_node c w [l, r]) = Some y" using y n by simp
    show "int_ok S E w (results c w (ivals S E l) (ivals S E r)) y"
      using c(1) [unfolded int_ops_def]
    proof (elim insertE emptyE)
      assume "c = Add"
      then show ?thesis using v visitAdd_sound [OF W i] by (simp add: visit_def)
    next
      assume "c = Sub"
      then show ?thesis using v visitSub_sound [OF W i] by (simp add: visit_def)
    next
      assume "c = Mul"
      then show ?thesis using v visitMul_sound [OF W i] by (simp add: visit_def)
    next
      assume "c = UDiv"
      then show ?thesis using v visitUDiv_sound [OF W i] by (simp add: visit_def)
    next
      assume "c = SDiv"
      then show ?thesis using v visitSDiv_sound [OF W i] by (simp add: visit_def)
    next
      assume "c = URem"
      then show ?thesis using v visitURem_sound [OF W i] by (simp add: visit_def)
    next
      assume "c = SRem"
      then show ?thesis using v visitSRem_sound [OF W i] by (simp add: visit_def)
    next
      assume "c = And"
      then show ?thesis using v visitAnd_sound [OF W i] by (simp add: visit_def)
    next
      assume "c = Or"
      then show ?thesis using v visitOr_sound [OF W i] by (simp add: visit_def)
    next
      assume "c = Xor"
      then show ?thesis using v visitXor_sound [OF W i] by (simp add: visit_def)
    next
      assume "c = Shl"
      then show ?thesis using v visitShl_sound [OF W i] by (simp add: visit_def)
    next
      assume "c = LShr"
      then show ?thesis using v visitLShr_sound [OF W i] by (simp add: visit_def)
    next
      assume "c = AShr"
      then show ?thesis using v visitAShr_sound [OF W i] by (simp add: visit_def)
    qed
  qed
qed

lemma visit_sound:
  assumes W: "world_ok S E" "sound_folder S E cf" and x: "wt S x" "fold_ok S E x" and y: "visit S cf x = Some y"
  shows "refines S E y x"
proof (cases "op_opcode x \<in> int_ops")
  case True
  then show ?thesis using visit_int_sound [OF W x(1)] y by blast
next
  case False
  have self: "visitOperation x = Some y \<Longrightarrow> refines S E y x" using refines_refl [OF x(1)] by (simp add: visitOperation_def)
  show ?thesis
  proof (cases "op_opcode x")
    case Bitcast
    then show ?thesis using visitBitcast_sound [OF x(1) _ x(2)] y by (simp add: visit_def)
  next
    case Select
    then show ?thesis using visitSelectOp_sound [OF W(1) x(1)] y by (simp add: visit_def)
  next
    case FRem
    then show ?thesis using visitFRem_sound [OF W(1) x(1) _ x(2)] y by (simp add: visit_def)
  next
    case FixedArray
    then show ?thesis using y refines_refl [OF x(1)] by (simp add: visit_def visitFixedArray_def)
  qed (use False y self x(2) visitNot_sound [OF W x(1)] visitTrunc_sound [OF W x(1)] visitZExt_sound [OF W x(1)]
      visitSExt_sound [OF W x(1)] visitFAdd_sound [OF W x(1)] visitFSub_sound [OF W x(1)] visitFMul_sound [OF W x(1)]
      visitFDiv_sound [OF W x(1)] visitFIsNaN_sound [OF W x(1)] visitICmp_sound [OF W x(1)] visitFCmp_sound [OF W x(1)]
      visitAllocOp_sound [OF W x(1)] visitLoadOp_sound [OF W x(1)] visitStoreOp_sound [OF W x(1)]
      in \<open>simp_all add: visit_def\<close>)
qed

lemma fold_depth_sound:
  assumes "world_ok S E"
  shows "sound_folder S E (fold_depth S d)"
proof (induction d)
  case 0
  then show ?case by (simp add: sound_folder_def)
next
  case (Suc d)
  then show ?case using visit_sound [OF assms Suc] by (simp add: sound_folder_def)
qed

section \<open>A context and an environment\<close>

definition ref_ctx :: "(ref_int, ref_float) ctx" where
  "ref_ctx = llvm.extend ref_llvm \<lparr>same_ref = (=)\<rparr>"

lemma extend_fields [simp]:
  "ap_width (llvm.extend L m) = ap_width L" "ap_val (llvm.extend L m) = ap_val L" "ap_make (llvm.extend L m) = ap_make L"
  "ap_make_signed (llvm.extend L m) = ap_make_signed L" "ap_max (llvm.extend L m) = ap_max L" "ap_smax (llvm.extend L m) = ap_smax L"
  "ap_bits_from (llvm.extend L m) = ap_bits_from L" "ap_low_bits (llvm.extend L m) = ap_low_bits L"
  "ap_add (llvm.extend L m) = ap_add L" "ap_sub (llvm.extend L m) = ap_sub L" "ap_mul (llvm.extend L m) = ap_mul L"
  "ap_udiv (llvm.extend L m) = ap_udiv L" "ap_sdiv (llvm.extend L m) = ap_sdiv L" "ap_urem (llvm.extend L m) = ap_urem L"
  "ap_srem (llvm.extend L m) = ap_srem L" "ap_and (llvm.extend L m) = ap_and L" "ap_or (llvm.extend L m) = ap_or L"
  "ap_xor (llvm.extend L m) = ap_xor L" "ap_shl (llvm.extend L m) = ap_shl L" "ap_lshr (llvm.extend L m) = ap_lshr L"
  "ap_ashr (llvm.extend L m) = ap_ashr L" "ap_not (llvm.extend L m) = ap_not L" "ap_trunc (llvm.extend L m) = ap_trunc L"
  "ap_zext (llvm.extend L m) = ap_zext L" "ap_sext (llvm.extend L m) = ap_sext L"
  "ap_sext_or_trunc (llvm.extend L m) = ap_sext_or_trunc L" "ap_eq (llvm.extend L m) = ap_eq L"
  "ap_ult (llvm.extend L m) = ap_ult L" "ap_ule (llvm.extend L m) = ap_ule L" "ap_ugt (llvm.extend L m) = ap_ugt L"
  "ap_uge (llvm.extend L m) = ap_uge L" "ap_slt (llvm.extend L m) = ap_slt L" "ap_sle (llvm.extend L m) = ap_sle L"
  "ap_sgt (llvm.extend L m) = ap_sgt L" "ap_sge (llvm.extend L m) = ap_sge L" "ap_eq_u64 (llvm.extend L m) = ap_eq_u64 L"
  "ap_ult_u64 (llvm.extend L m) = ap_ult_u64 L" "ap_limited (llvm.extend L m) = ap_limited L"
  "ap_is_null (llvm.extend L m) = ap_is_null L" "ap_is_all_ones (llvm.extend L m) = ap_is_all_ones L"
  "ap_is_min_signed (llvm.extend L m) = ap_is_min_signed L" "count_leading_zeros (llvm.extend L m) = count_leading_zeros L"
  "sem_size (llvm.extend L m) = sem_size L" "sem_precision (llvm.extend L m) = sem_precision L"
  "fl_sem (llvm.extend L m) = fl_sem L" "fl_zero (llvm.extend L m) = fl_zero L" "fl_of_double (llvm.extend L m) = fl_of_double L"
  "fl_add (llvm.extend L m) = fl_add L" "fl_sub (llvm.extend L m) = fl_sub L" "fl_mul (llvm.extend L m) = fl_mul L"
  "fl_div (llvm.extend L m) = fl_div L" "fl_remainder (llvm.extend L m) = fl_remainder L"
  "fl_is_nan (llvm.extend L m) = fl_is_nan L" "fl_compare (llvm.extend L m) = fl_compare L"
  by (simp_all add: llvm.defs)

lemma extend_laws: "llvm_laws (llvm.extend L m) = llvm_laws L"
  unfolding llvm_laws_def apint_laws_def float_laws_def float_op_laws_def make_law_def binop_law_def cast_law_def cmp_law_def
  by simp

lemma ref_ctx_laws: "llvm_laws ref_ctx"
  by (simp add: ref_ctx_def extend_laws ref_llvm_laws)

lemma same_ref_ctx [simp]: "same_ref ref_ctx = (=)"
  by (simp add: ref_ctx_def llvm.defs)

text \<open>An environment that gives every type a value of it.\<close>

fun default_val :: "ty \<Rightarrow> ref_float sval" where
  "default_val (Type Integer w) = SInt w 0"
| "default_val (Type Array w) = SArr w []"
| "default_val (Type Pointer w) = SFun 0"
| "default_val t = SFloat (RInt (hd (filter (\<lambda>s. type_of_apfloat ref_ctx (RInt s 0) = Some t)
     [IEEEhalf, IEEEsingle, IEEEdouble, IEEEquad, X87DoubleExtended, BFloat])) 0)"

definition default_env :: "ref_float senv" where
  "default_env = \<lparr>sym_val = (\<lambda>t s. default_val t), arr_val = (\<lambda>s i. 0), node_val = (\<lambda>t n. default_val t),
     conv = (\<lambda>c t v. default_val t)\<rparr>"

lemma default_val_typed: "inhabited ref_ctx t \<Longrightarrow> has_type ref_ctx (default_val t) t"
proof -
  assume "inhabited ref_ctx t"
  then obtain v where v: "has_type ref_ctx v t" by (auto simp: inhabited_def)
  show ?thesis
  proof (cases v)
    case (SFloat f)
    let ?ok = "\<lambda>s. type_of_apfloat ref_ctx (RInt s 0) = Some t"
    let ?all = "[IEEEhalf, IEEEsingle, IEEEdouble, IEEEquad, X87DoubleExtended, BFloat]"
    have "type_of_apfloat ref_ctx f = Some t" using v SFloat by simp
    moreover have "type_of_apfloat ref_ctx (RInt (ref_sem f) 0) = type_of_apfloat ref_ctx f"
      by (rule type_of_apfloat_cong) (simp add: ref_ctx_def)
    ultimately have "?ok (ref_sem f)" by simp
    moreover have "ref_sem f \<in> set ?all" by (cases "ref_sem f") simp_all
    ultimately have "filter ?ok ?all \<noteq> []" unfolding filter_empty_conv by blast
    then have "hd (filter ?ok ?all) \<in> set (filter ?ok ?all)" by (rule hd_in_set)
    then have "?ok (hd (filter ?ok ?all))" unfolding set_filter by blast
    moreover obtain d where "t = Type FloatingPoint d"
      using v SFloat by (auto simp: type_of_apfloat_def float_ty_eq_Some split: prod.splits)
    ultimately show ?thesis by simp
  qed (use v in auto)
qed

lemma default_world: "world_ok ref_ctx default_env"
proof -
  have "senv_ok ref_ctx default_env" by (simp add: senv_ok_def default_env_def default_val_typed)
  then show ?thesis by (simp add: world_ok_def ref_ctx_laws refs_ok_def)
qed

section \<open>Soundness of the simplifier\<close>

text \<open>
  C1: whenever \<^verbatim>\<open>constant_fold\<close> returns for a well-typed node that \<open>fold_ok\<close> admits, the node it returns is
  well typed, has the same type, and in every environment takes only values that the original node
  may take: folding never invents a behaviour.
\<close>

theorem constant_fold_refines:
  assumes "world_ok S E" "wt S x" "fold_ok S E x" "constant_fold S x = Some y"
  shows "wt S y \<and> op_type y = op_type x \<and> beh S E y \<subseteq> beh S E x"
  using sound_folderD [OF fold_depth_sound [OF assms(1)] assms(2,3)] assms(4) by (simp add: constant_fold_def refines_def)

text \<open>A node on which two visitors rewrite: the two halves of a byte, put together again.\<close>

definition byte_const :: "nat \<Rightarrow> (ref_int, ref_float) op" where
  "byte_const n = Operation (ConstantIntData (Type Integer 8) (8, n)) []"

definition byte_sym :: "(ref_int, ref_float) op" where
  "byte_sym = Operation (ConstantData ConstantNamed (Type Integer 8) (Named ''x'')) []"

definition byte_op :: "opcode \<Rightarrow> (ref_int, ref_float) op \<Rightarrow> (ref_int, ref_float) op \<Rightarrow> (ref_int, ref_float) op" where
  "byte_op c l r = Operation (OperationData c (Type Integer 8)) [l, r]"

definition masked_halves :: "(ref_int, ref_float) op" where
  "masked_halves = byte_op Or (byte_op And byte_sym (byte_const 15)) (byte_op And byte_sym (byte_const 240))"

lemmas byte_defs = byte_const_def byte_sym_def byte_op_def

lemmas ref_eval = ref_ctx_def ref_llvm_def llvm.defs rbin_def rv_def

lemma masked_halves_fold: "constant_fold ref_ctx masked_halves = Some byte_sym"
proof -
  have leaf: "visit ref_ctx cf (byte_const n) = Some (byte_const n)" for cf n
    by (simp add: byte_defs visit_def op_opcode_def visitOperation_def)
  have or: "visit ref_ctx cf masked_halves = Option.bind (cf (byte_op Or (byte_const 15) (byte_const 240))) (CreateAnd cf byte_sym)" for cf
    by (simp add: masked_halves_def byte_defs fold_eval is_int_def ref_eval)
  have const: "visit ref_ctx cf (byte_op Or (byte_const 15) (byte_const 240)) = cf (byte_const 255)" for cf
    by (simp add: byte_defs fold_eval is_int_def int_ty_Some ref_eval)
  have "CreateAnd cf byte_sym (byte_const 255) = cf (byte_op And byte_sym (byte_const 255))" for cf
    by (simp add: byte_defs fold_eval is_int_def)
  moreover have "visit ref_ctx cf (byte_op And byte_sym (byte_const 255)) = Some byte_sym" for cf
    by (simp add: byte_defs fold_eval ref_eval)
  moreover have "height masked_halves + 4 = Suc (Suc (Suc 4))" by (simp add: masked_halves_def byte_defs)
  ultimately show ?thesis
    by (simp only: constant_fold_def fold_depth.simps or const leaf Option.bind.simps)
qed

lemma constant_fold_refines_witness:
  "constant_fold ref_ctx masked_halves = Some byte_sym
   \<and> beh ref_ctx default_env byte_sym \<subseteq> beh ref_ctx default_env masked_halves"
proof -
  have "inhabited ref_ctx (Type Integer 8)" by (auto simp: inhabited_def intro: exI [of _ "SInt 8 0"])
  then have "wt ref_ctx masked_halves" "fold_ok ref_ctx default_env masked_halves"
    by (simp_all add: masked_halves_def byte_defs wt_operation_def int_ops_def op_type_def is_int_def type_of_apint_def
        int_ty_eq_Some fold_ok_def op_opcode_def ref_ctx_def)
  from constant_fold_refines [OF default_world this masked_halves_fold] masked_halves_fold show ?thesis by blast
qed

section \<open>Nodes on which folding is not sound\<close>

definition double_ty :: ty where
  "double_ty = Type FloatingPoint (11 * 2 ^ 12 + 53)"

definition nan_env :: "ref_float senv" where
  "nan_env = default_env\<lparr>sym_val := (\<lambda>t s. if t = double_ty then SFloat (RNaN IEEEdouble) else default_val t)\<rparr>"

lemma ref_double: "type_of_apfloat ref_ctx f = Some double_ty \<longleftrightarrow> ref_sem f = IEEEdouble"
  by (cases "ref_sem f")
    (simp_all add: ref_ctx_def type_of_apfloat_def semantics_sizes_def double_ty_def float_ty_eq_Some)

lemma nan_world: "world_ok ref_ctx nan_env"
proof -
  have "has_type ref_ctx (sym_val nan_env t s) t" if "inhabited ref_ctx t" for t s
    using default_val_typed [OF that] by (simp add: nan_env_def ref_double)
  then have "senv_ok ref_ctx nan_env"
    using default_world by (simp add: world_ok_def senv_ok_def nan_env_def)
  then show ?thesis by (simp add: world_ok_def ref_ctx_laws refs_ok_def)
qed

definition self_comparison :: "(ref_int, ref_float) op" where
  "self_comparison =
     (let v = Operation (ConstantData ConstantNamed double_ty (Named ''f'')) [] in
      Operation (OperationData (FCmp FCmp_EQ) (Type Integer 1)) [v, v])"

definition constant_remainder :: "(ref_int, ref_float) op" where
  "constant_remainder =
     Operation (OperationData FRem double_ty)
       [Operation (ConstantFloatData double_ty (RInt IEEEdouble 7)) [], Operation (ConstantFloatData double_ty (RInt IEEEdouble 4)) []]"

lemma self_comparison_fold:
  "constant_fold ref_ctx self_comparison = Some (Operation (ConstantIntData (Type Integer 1) (1, 1)) [])"
proof -
  have "visit ref_ctx cf self_comparison = cf (Operation (ConstantIntData (Type Integer 1) (1, 1)) [])" for cf
    by (simp add: self_comparison_def Let_def fold_eval int_ty_Some ref_eval)
  moreover have "visit ref_ctx cf (Operation (ConstantIntData (Type Integer 1) (1, 1)) [])
      = Some (Operation (ConstantIntData (Type Integer 1) (1, 1)) [])" for cf
    by (simp add: visit_def op_opcode_def visitOperation_def)
  moreover have "height self_comparison + 4 = Suc (Suc 4)" by (simp add: self_comparison_def Let_def)
  ultimately show ?thesis by (simp only: constant_fold_def fold_depth.simps)
qed


lemma constant_remainder_fold:
  "constant_fold ref_ctx constant_remainder = Some (Operation (ConstantFloatData double_ty (RInt IEEEdouble 0)) [])"
proof -
  have t: "type_of_apfloat ref_ctx (RInt IEEEdouble 0) = Some double_ty" by (simp add: ref_double)
  have "visit ref_ctx cf constant_remainder = CreateDouble ref_ctx cf 0" for cf
    by (simp add: constant_remainder_def visit_def op_opcode_def visitFRem_def matcher_defs ref_ctx_def)
  moreover have "CreateDouble ref_ctx cf 0 = cf (Operation (ConstantFloatData double_ty (RInt IEEEdouble 0)) [])" for cf
  proof -
    have "fl_of_double ref_ctx 0 = RInt IEEEdouble 0" by (simp add: ref_ctx_def)
    then show ?thesis using t
      by (simp add: CreateDouble_def CreateConstantFloat_def mk_constant_float_data_def mk_operation_def opcode_num_nargs)
  qed
  moreover have "visit ref_ctx cf (Operation (ConstantFloatData double_ty (RInt IEEEdouble 0)) [])
      = Some (Operation (ConstantFloatData double_ty (RInt IEEEdouble 0)) [])" for cf
    by (simp add: visit_def op_opcode_def visitOperation_def)
  moreover have "height constant_remainder + 4 = Suc (Suc 4)" by (simp add: constant_remainder_def)
  ultimately show ?thesis by (simp only: constant_fold_def fold_depth.simps)
qed


end
