(* ===== verification/IR_Fold_Total.thy ===== *)
theory IR_Fold_Total
  imports IR_Fold_Sound
begin

text \<open>
  Termination and freedom from assertion failures: \<^verbatim>\<open>constant_fold\<close> returns on every well-typed node
  outside the cases that \<open>fold_ok\<close> and \<open>in_bounds\<close> exclude, within a recursion depth that exceeds the
  height of the node by two.
\<close>

declare One_nat_def [simp del]

section \<open>Height\<close>

lemma fold_max_ge: "z \<le> fold max xs z \<and> (\<forall>x\<in>set xs. x \<le> fold max xs z)" for z :: nat
proof (induction xs arbitrary: z)
  case (Cons x xs)
  from Cons.IH [of "max x z"] show ?case by auto
qed simp

lemma height_operand: "a \<in> set (operands x) \<Longrightarrow> height a < height x"
  using fold_max_ge [of 0 "map height (operands x)"] by (cases x) (simp add: less_Suc_eq_le)

lemma height_pos: "0 < height x"
  by (cases x) simp

lemma height_node [simp]:
  "height a < height (int_node c w [a, b])" "height b < height (int_node c w [a, b])" "height a < height (int_node c w [a])"
  by (rule height_operand; simp)+

section \<open>Create functions that return\<close>

lemma fold_const: "fold_depth S (Suc d) (const_node S i) = Some (const_node S i)"
  by (simp add: const_node_def visit_def op_opcode_def visitOperation_def)

lemma create_const:
  assumes "ap_width S i = w" "0 < w" "w < 2 ^ 24"
  shows "CreateConstantInt S (fold_depth S (Suc d)) i = Some (const_node S i)"
proof -
  have "CreateConstantInt S cf i = cf (const_node S i)" for cf
    using assms by (simp add: CreateConstantInt_def mk_constant_int_data_def type_of_apint_def int_ty_Some
        mk_operation_def opcode_num_nargs const_node_def)
  then show ?thesis using fold_const by metis
qed

lemma create_bool:
  assumes "apint_laws S"
  shows "\<exists>y. CreateBool S (fold_depth S (Suc d)) b = Some y"
proof -
  have w: "ap_width S (ap_make S 1 (if b then 1 else 0)) = 1" using assms by (simp add: apint_lawsD)
  show ?thesis unfolding CreateBool_def using create_const [OF w, of d] by simp
qed

lemma create_undef: "CreateUndef (fold_depth S (Suc d)) t = Some (undef_node t)"
proof -
  have "CreateUndef cf t = cf (undef_node t)" for cf
    by (simp add: CreateUndef_def mk_operation_def opcode_num_nargs undef_node_def)
  moreover have "fold_depth S (Suc d) (undef_node t) = Some (undef_node t)"
    by (simp add: undef_node_def visit_def op_opcode_def visitOperation_def)
  ultimately show ?thesis by metis
qed

lemma int_ops_parts: "c \<in> int_ops \<Longrightarrow> fst (snd (opcode_parts c)) = 2"
  unfolding int_ops_def by (elim insertE) simp_all

lemma create_binop:
  assumes "c \<in> int_ops" "is_i S w l" "is_i S w r"
  shows "create_int_binop cf c l r = cf (int_node c w [l, r])"
  using assms by (simp add: create_int_binop_def CreateBinary_def opcode_num_low int_ops_parts mk_operation_def
      opcode_num_nargs is_i_def is_int_def int_node_def)

section \<open>Integer nodes\<close>

lemma try_const_returns:
  assumes "world_ok S E" "is_i S w l" "is_i S w r"
    and "\<And>a b. ap_width S a = w \<Longrightarrow> ap_width S b = w \<Longrightarrow> 0 < w \<Longrightarrow> w < 2 ^ 24 \<Longrightarrow> \<exists>y. func a b = Some y"
    and "as_const_int l = None \<or> as_const_int r = None \<Longrightarrow> \<exists>y. rest = Some y"
  shows "\<exists>y. try_const_int l r func rest = Some y"
proof (cases "as_const_int l = None \<or> as_const_int r = None")
  case True
  then show ?thesis using assms(5) by (auto simp: try_const_int_def split: option.splits)
next
  case False
  then obtain a b where ab: "as_const_int l = Some a" "as_const_int r = Some b" by auto
  then show ?thesis
    using assms(4) as_const_int_wt [OF assms(1,2) ab(1)] as_const_int_wt [OF assms(1,3) ab(2)] by (simp add: try_const_int_def)
qed

lemma division_returns:
  assumes W: "world_ok S E" and w: "ap_width S a = w" "ap_width S b = w" "0 < w" "w < 2 ^ 24" and d: "cf = fold_depth S (Suc d)"
  shows "\<exists>y. do { v \<leftarrow> bvudiv S (Int_Value a) (Int_Value b); CreateIntOfValue S cf v } = Some y"
    and "\<exists>y. do { v \<leftarrow> bvsdiv S (Int_Value a) (Int_Value b); CreateIntOfValue S cf v } = Some y"
    and "\<exists>y. do { v \<leftarrow> bvurem S (Int_Value a) (Int_Value b); CreateIntOfValue S cf v } = Some y"
    and "\<exists>y. do { v \<leftarrow> bvsrem S (Int_Value a) (Int_Value b); CreateIntOfValue S cf v } = Some y"
proof -
  have "int_value_ok S w a" "int_value_ok S w b" using w by (simp_all add: int_value_ok_def)
  from division_values [OF world_okD(3) [OF W] this] obtain u s r t where
    v: "bvudiv S (Int_Value a) (Int_Value b) = Some (Int_Value u)" "bvsdiv S (Int_Value a) (Int_Value b) = Some (Int_Value s)"
      "bvurem S (Int_Value a) (Int_Value b) = Some (Int_Value r)" "bvsrem S (Int_Value a) (Int_Value b) = Some (Int_Value t)"
    and "ap_width S u = w" "ap_width S s = w" "ap_width S r = w" "ap_width S t = w"
    by auto
  moreover have "CreateConstantInt S cf z = Some (const_node S z)" if "ap_width S z = w" for z
    using create_const [OF that w(3,4)] d by simp
  ultimately show "\<exists>y. do { v \<leftarrow> bvudiv S (Int_Value a) (Int_Value b); CreateIntOfValue S cf v } = Some y"
    "\<exists>y. do { v \<leftarrow> bvsdiv S (Int_Value a) (Int_Value b); CreateIntOfValue S cf v } = Some y"
    "\<exists>y. do { v \<leftarrow> bvurem S (Int_Value a) (Int_Value b); CreateIntOfValue S cf v } = Some y"
    "\<exists>y. do { v \<leftarrow> bvsrem S (Int_Value a) (Int_Value b); CreateIntOfValue S cf v } = Some y"
    by (simp_all add: CreateIntOfValue_def apint_def)
qed

lemma if_returns: "(b \<Longrightarrow> \<exists>y. p = Some y) \<Longrightarrow> (\<not> b \<Longrightarrow> \<exists>y. q = Some y) \<Longrightarrow> \<exists>y. (if b then p else q) = Some y"
  by simp

lemma Some_returns: "\<exists>y. Some x = Some y" "\<exists>y. visitOperation x = Some y"
  by (simp_all add: visitOperation_def)

text \<open>The operations whose visitors build nothing but constants.\<close>

lemma plain_int_returns:
  assumes W: "world_ok S E" and c: "c \<in> int_ops - {And, Or, Shl}" and i: "is_i S w l" "is_i S w r"
  shows "\<exists>y. fold_depth S (Suc (Suc d)) (int_node c w [l, r]) = Some y"
proof -
  note L = world_okD(3) [OF W]
  note w = ivalsD(1,2) [OF W i(1)]
  define cf where "cf = fold_depth S (Suc d)"
  have K: "\<exists>y. CreateConstantInt S cf k = Some y" if "ap_width S k = w" for k using create_const [OF that w, of d] cf_def by simp
  have z: "\<exists>y. CreateConstantInt S cf (ap_make S w 0) = Some y" by (rule K) (simp add: apint_lawsD [OF L] w)
  have u: "\<exists>y. CreateUndef cf t = Some y" for t using create_undef [of S d t] cf_def by simp
  note D = division_returns [OF W _ _ _ _ cf_def]
  have A: "\<exists>y. try_const_int l r (\<lambda>a b. CreateConstantInt S cf (f a b)) (visitOperation x) = Some y"
    if "\<And>a b. ap_width S a = w \<Longrightarrow> ap_width S b = w \<Longrightarrow> ap_width S (f a b) = w" for f x
    by (rule try_const_returns [OF W i K [OF that]]) (simp_all add: Some_returns)
  have V: "\<exists>y. try_const_int l r (\<lambda>a b. do { v \<leftarrow> g a b; CreateIntOfValue S cf v }) (visitOperation x) = Some y"
    if "g \<in> {\<lambda>a b. bvudiv S (Int_Value a) (Int_Value b), \<lambda>a b. bvsdiv S (Int_Value a) (Int_Value b),
      \<lambda>a b. bvurem S (Int_Value a) (Int_Value b), \<lambda>a b. bvsrem S (Int_Value a) (Int_Value b)}" for g x
    by (rule try_const_returns [OF W i _ Some_returns(2)]) (use D that in blast)
  have B: "\<exists>y. (if is_constant_int S r 1 then Some w else Some 0) \<bind> k = Some y" if "\<And>n. n = w \<or> n = 0 \<Longrightarrow> \<exists>y. k n = Some y" for k :: "nat \<Rightarrow> ('i, 'f) op option"
    using that by simp
  note width = apint_binopD [OF L]
  consider "c = Add" | "c = Sub" | "c = Mul" | "c = UDiv" | "c = SDiv" | "c = URem" | "c = SRem" | "c = Xor" | "c = LShr" | "c = AShr"
    using c by (auto simp: int_ops_def)
  then have "\<exists>y. visit S cf (int_node c w [l, r]) = Some y"
  proof cases
    case 1
    have "\<exists>y. visitAdd S cf (int_node Add w [l, r]) = Some y"
      unfolding visitAdd_def with_binary_node int_node_simps bitwidth_int Option.bind.simps
      by (intro if_returns Some_returns u A) (simp_all add: width)
    then show ?thesis using 1 by (simp add: visit_def)
  next
    case 2
    have "\<exists>y. visitSub S cf (int_node Sub w [l, r]) = Some y"
      unfolding visitSub_def with_binary_node int_node_simps bitwidth_int Option.bind.simps
      by (intro if_returns Some_returns u z A) (simp_all add: width)
    then show ?thesis using 2 by (simp add: visit_def)
  next
    case 3
    have "\<exists>y. visitMul S cf (int_node Mul w [l, r]) = Some y"
      unfolding visitMul_def with_binary_node int_node_simps bitwidth_int Option.bind.simps
      by (intro if_returns Some_returns A) (simp_all add: width)
    then show ?thesis using 3 by (simp add: visit_def)
  next
    case 4
    have "\<exists>y. visitUDiv S cf (int_node UDiv w [l, r]) = Some y"
      unfolding visitUDiv_def with_binary_node int_node_simps bitwidth_int Option.bind.simps
      by (intro if_returns Some_returns V) (simp_all add: width)
    then show ?thesis using 4 by (simp add: visit_def)
  next
    case 5
    have "\<exists>y. visitSDiv S cf (int_node SDiv w [l, r]) = Some y"
      unfolding visitSDiv_def with_binary_node int_node_simps bitwidth_int
      by (intro if_returns Some_returns B V) simp_all
    then show ?thesis using 5 by (simp add: visit_def)
  next
    case 6
    have "\<exists>y. visitURem S cf (int_node URem w [l, r]) = Some y"
      unfolding visitURem_def with_binary_node int_node_simps bitwidth_int Option.bind.simps
      by (intro if_returns Some_returns z V) (simp_all add: width)
    then show ?thesis using 6 by (simp add: visit_def)
  next
    case 7
    have "\<exists>y. visitSRem S cf (int_node SRem w [l, r]) = Some y"
      unfolding visitSRem_def with_binary_node int_node_simps bitwidth_int
      by (intro if_returns Some_returns B V) (use z in auto)
    then show ?thesis using 7 by (simp add: visit_def)
  next
    case 8
    have "\<exists>y. visitXor S cf (int_node Xor w [l, r]) = Some y"
      unfolding visitXor_def with_binary_node int_node_simps bitwidth_int Option.bind.simps
      by (intro if_returns Some_returns u A) (simp_all add: width)
    then show ?thesis using 8 by (simp add: visit_def)
  next
    case 9
    have "\<exists>y. visitLShr S cf (int_node LShr w [l, r]) = Some y"
      unfolding visitLShr_def with_binary_node int_node_simps bitwidth_int Option.bind.simps
      by (intro if_returns Some_returns A) (simp_all add: width)
    then show ?thesis using 9 by (simp add: visit_def)
  next
    case 10
    have "\<exists>y. visitAShr S cf (int_node AShr w [l, r]) = Some y"
      unfolding visitAShr_def with_binary_node int_node_simps bitwidth_int Option.bind.simps
      by (intro if_returns Some_returns A) (simp_all add: width)
    then show ?thesis using 10 by (simp add: visit_def)
  qed
  then show ?thesis by (simp add: cf_def)
qed

text \<open>A bitwise operation on two constants gives a constant.\<close>

lemma const_node_is_i:
  "world_ok S E \<Longrightarrow> ap_width S i = w \<Longrightarrow> 0 < w \<Longrightarrow> w < 2 ^ 24 \<Longrightarrow> is_i S w (const_node S i) \<and> match_const_int (const_node S i)"
  using const_node(1) [of S E i] by (simp add: match_const_int_def as_const_int_def const_node_def)

lemma const_const_returns:
  assumes W: "world_ok S E" and c: "c \<in> {And, Or, Shl}" and i: "is_i S w l" "is_i S w r"
    and k: "match_const_int l" "match_const_int r"
  shows "\<exists>y. fold_depth S (Suc (Suc d)) (int_node c w [l, r]) = Some y \<and> is_i S w y \<and> match_const_int y"
proof -
  obtain a b where ab: "as_const_int l = Some a" "as_const_int r = Some b" using k by (auto simp: match_const_int_def)
  have w: "ap_width S a = w" "ap_width S b = w" "0 < w" "w < 2 ^ 24"
    using as_const_int_wt(2,4,5) [OF W i(1) ab(1)] as_const_int_wt(2) [OF W i(2) ab(2)] by auto
  have K: "\<exists>y. CreateConstantInt S (fold_depth S (Suc d)) z = Some y \<and> is_i S w y \<and> match_const_int y" if "ap_width S z = w" for z
    using create_const [OF that w(3,4)] const_node_is_i [OF W that w(3,4)] by blast
  note width = apint_binopD [OF world_okD(3) [OF W]]
  consider "c = And" | "c = Or" | "c = Shl" using c by blast
  then show ?thesis
  proof cases
    case 1
    then show ?thesis using i k ab K [of "ap_and S a b"] width w by (simp add: visit_def visitAnd_def try_const_int_def)
  next
    case 2
    then show ?thesis using i k ab K [of "ap_or S a b"] width w by (simp add: visit_def visitOr_def try_const_int_def)
  next
    case 3
    then show ?thesis using i k ab K [of "ap_shl S a b"] width w by (simp add: visit_def visitShl_def try_const_int_def)
  qed
qed

lemma match_const_height: "is_i S w x \<Longrightarrow> match_const_int x \<Longrightarrow> height x = 1"
  by (cases x) (auto simp: is_i_def match_const_int_def as_const_int_def One_nat_def split: opdata.splits)

lemma fold_int_typed:
  assumes "world_ok S E" "is_i S w x" "fold_ok S E x" "fold_depth S d x = Some y"
  shows "is_i S w y"
  using sound_folderD [OF fold_depth_sound [OF assms(1)] _ assms(3,4)] assms(2) refines_int [OF assms(1,2)] by (simp add: is_i_def)

lemma fold_ok_int_node: "c \<in> int_ops \<Longrightarrow> fold_ok S E (int_node c w [l, r])"
  by (auto simp: fold_ok_def int_ops_def)

lemma match_and_shift_parts:
  assumes i: "is_i S w l" "is_i S w r" and s: "match_and_shift l r = Some (m, v, k)"
  shows "match_const_int m \<and> (height v < height l \<or> height v < height r)"
proof -
  have "m = l \<and> match_const_int l \<and> match_binop LShr r = Some (v, k) \<or> m = r \<and> match_const_int r \<and> match_binop LShr l = Some (v, k)"
    using s unfolding match_and_shift_def match_lshr_const_def
    by (cases "match_const_int l"; cases "match_const_int r"; cases "match_binop LShr l"; cases "match_binop LShr r")
      (auto split: if_splits)
  then show ?thesis
    using match_binop_int(1) [OF i(1) _ int_ops_mem(12)] match_binop_int(1) [OF i(2) _ int_ops_mem(12)]
      height_node(1) [of v LShr w k] by auto
qed

lemma match_masked_parts:
  assumes "is_i S w x" "match_masked x = Some (v, m)"
  shows "match_const_int m \<and> height v < height x"
proof -
  obtain a b where ab: "match_binop And x = Some (a, b)"
    using assms(2) by (cases "match_binop And x") (auto simp: match_masked_def match_mask_and_def match_and_mask_def)
  then have "v \<in> {a, b} \<and> match_const_int m"
    using assms(2) by (cases "match_const_int a"; cases "match_const_int b")
      (auto simp: match_masked_def match_mask_and_def match_and_mask_def)
  then show ?thesis using match_binop_int(1) [OF assms(1) ab int_ops_mem(8)] by auto
qed

lemma match_and_and_parts:
  assumes i: "is_i S w l" "is_i S w r" and s: "match_and_and l r = Some (m1, m2, v)"
  shows "match_const_int m1" "match_const_int m2" "height v < height l \<or> height v < height r"
proof -
  have "m1 = l \<and> match_const_int l \<and> match_masked r = Some (v, m2) \<or> m1 = r \<and> match_const_int r \<and> match_masked l = Some (v, m2)"
    using s unfolding match_and_and_def
    by (cases "match_const_int l"; cases "match_const_int r"; cases "match_masked l"; cases "match_masked r") auto
  then show "match_const_int m1" "match_const_int m2" "height v < height l \<or> height v < height r"
    using match_masked_parts [OF i(1)] match_masked_parts [OF i(2)] by blast+
qed

text \<open>A conjunction: each rewrite moves to an operand of an operand.\<close>

lemma and_returns:
  assumes W: "world_ok S E"
  shows "is_i S w l \<Longrightarrow> is_i S w r \<Longrightarrow> height l \<le> n \<Longrightarrow> height r \<le> n \<Longrightarrow> n + 2 \<le> d \<Longrightarrow>
    \<exists>y. fold_depth S (Suc d) (int_node And w [l, r]) = Some y"
proof (induction n arbitrary: l r d)
  case 0
  then show ?case using height_pos [of l] by simp
next
  case (Suc n)
  note i = Suc.prems(1,2)
  note w = ivalsD(1,2) [OF W i(1)]
  obtain e where d: "d = Suc (Suc e)" using Suc.prems(5) by (cases d; cases "d - 1") auto
  let ?cf = "fold_depth S d"
  have deep: "\<exists>y. CreateAnd ?cf v m = Some y \<and> is_i S w y" if vm: "is_i S w v" "is_i S w m" "height v \<le> n" "match_const_int m" for v m
  proof -
    have "height m \<le> n" using match_const_height [OF vm(2,4)] height_pos [of v] vm(3) by simp
    then obtain y where y: "fold_depth S (Suc (Suc e)) (int_node And w [v, m]) = Some y"
      using Suc.IH [OF vm(1,2,3), of "Suc e"] Suc.prems(5) d by auto
    moreover have "is_i S w y"
      by (rule fold_int_typed [OF W int_binop_node(1) [OF W int_ops_mem(8) vm(1,2)] fold_ok_int_node [OF int_ops_mem(8)] y])
    ultimately show ?thesis using create_binop [OF int_ops_mem(8) vm(1,2)] d by (simp add: CreateAnd_def)
  qed
  have "\<exists>y. and_rewrites ?cf (int_node And w [l, r]) l r = Some y"
  proof (cases "match_and_shift l r")
    case (Some mvk)
    obtain m v k where s: "match_and_shift l r = Some (m, v, k)" using Some by (cases mvk) auto
    note D = match_and_shiftD [OF W i s]
    note m = match_and_shift_parts [OF i s]
    have h: "height v \<le> n" using m Suc.prems(3,4) by linarith
    obtain m' where m': "fold_depth S (Suc (Suc e)) (int_node Shl w [m, k]) = Some m'" "is_i S w m'" "match_const_int m'"
      using const_const_returns [OF W _ D(1,3) conjunct1 [OF m] D(4), of Shl e] by auto
    then have 1: "CreateShl ?cf m k = Some m'" using create_binop [OF int_ops_mem(11) D(1,3)] d by (simp add: CreateShl_def)
    obtain y where y: "CreateAnd ?cf v m' = Some y" "is_i S w y" using deep [OF D(2) m'(2) h m'(3)] by blast
    have "\<exists>z. CreateLShr ?cf y k = Some z"
      using plain_int_returns [OF W _ y(2) D(3), of LShr e] create_binop [OF int_ops_mem(12) y(2) D(3)] d
      by (simp add: CreateLShr_def int_ops_def)
    then show ?thesis using s 1 y(1) by (simp add: and_rewrites_def)
  next
    case None
    show ?thesis
    proof (cases "match_and_and l r")
      case (Some mmv)
      obtain m1 m2 v where s: "match_and_and l r = Some (m1, m2, v)" using Some by (cases mmv) auto
      note D = match_and_andD [OF W i s]
      note k = match_and_and_parts [OF i s]
      have h: "height v \<le> n" using k(3) Suc.prems(3,4) by linarith
      obtain m where m: "fold_depth S (Suc (Suc e)) (int_node And w [m1, m2]) = Some m" "is_i S w m" "match_const_int m"
        using const_const_returns [OF W _ D(1,2) k(1,2), of And e] by auto
      then have "CreateAnd ?cf m1 m2 = Some m" using create_binop [OF int_ops_mem(8) D(1,2)] d by (simp add: CreateAnd_def)
      moreover obtain y where "CreateAnd ?cf v m = Some y" using deep [OF D(3) m(2) h m(3)] by blast
      ultimately show ?thesis using s None by (simp add: and_rewrites_def)
    next
      case None': None
      then show ?thesis using None by (simp add: and_rewrites_def visitOperation_def)
    qed
  qed
  moreover have "\<exists>y. CreateConstantInt S ?cf (ap_and S a b) = Some y" if "ap_width S a = w" "ap_width S b = w" for a b
    using create_const [of S "ap_and S a b" w] apint_binopD [OF world_okD(3) [OF W]] that w d by simp
  ultimately have "\<exists>y. visitAnd S ?cf (int_node And w [l, r]) = Some y"
    unfolding visitAnd_def with_binary_node and_rewrites_def [symmetric]
    by (intro if_returns Some_returns try_const_returns [OF W i]) auto
  then show ?case by (simp add: visit_def)
qed

lemma create_and_returns:
  assumes "world_ok S E" "is_i S w v" "is_i S w m" "match_const_int m" "height v + 3 \<le> d"
  shows "\<exists>y. CreateAnd (fold_depth S d) v m = Some y"
proof -
  obtain e where d: "d = Suc e" using assms(5) by (cases d) auto
  have "height m \<le> height v" using match_const_height [OF assms(3,4)] height_pos [of v] by simp
  then show ?thesis
    using and_returns [OF assms(1-3), of "height v" e] assms(5) d create_binop [OF int_ops_mem(8) assms(2,3)]
    by (simp add: CreateAnd_def)
qed

lemma or_returns:
  assumes W: "world_ok S E" and i: "is_i S w l" "is_i S w r" and d: "height (int_node Or w [l, r]) + 1 \<le> d"
  shows "\<exists>y. fold_depth S (Suc d) (int_node Or w [l, r]) = Some y"
proof -
  let ?cf = "fold_depth S d"
  note w = ivalsD(1,2) [OF W i(1)]
  obtain e where e: "d = Suc (Suc e)" using d height_pos [of "int_node Or w [l, r]"] by (cases d; cases "d - 1") auto
  have "\<exists>y. or_rewrites S ?cf (int_node Or w [l, r]) l r = Some y"
  proof (cases "\<exists>v m1 v2 m2. match_and_mask l = Some (v, m1) \<and> match_and_mask r = Some (v2, m2) \<and> same_ref S v v2")
    case True
    then obtain v m1 v2 m2 where m: "match_and_mask l = Some (v, m1)" "match_and_mask r = Some (v2, m2)" "same_ref S v v2" by blast
    note a = match_and_maskD [OF W i(1) m(1)]
    note b = match_and_maskD [OF W i(2) m(2)]
    have k: "match_const_int m1" "match_const_int m2" "match_binop And l = Some (v, m1)"
      using m(1,2) by (auto simp: match_and_mask_def split: option.splits if_splits)
    have h: "height v < height l" using match_binop_int(1) [OF i(1) k(3) int_ops_mem(8)] by simp
    obtain m where "fold_depth S (Suc (Suc e)) (int_node Or w [m1, m2]) = Some m" and c: "is_i S w m" "match_const_int m"
      using const_const_returns [OF W _ a(2) b(2) k(1,2), of Or e] by auto
    then have "CreateOr ?cf m1 m2 = Some m" using create_binop [OF int_ops_mem(9) a(2) b(2)] e by (simp add: CreateOr_def)
    moreover have "height v + 3 \<le> d" using h d height_node(1) [of l Or w r] by linarith
    then obtain y where "CreateAnd ?cf v m = Some y" using create_and_returns [OF W a(1) c] by blast
    ultimately show ?thesis using m by (simp add: or_rewrites_def)
  next
    case False
    then show ?thesis
      by (cases "match_and_mask l"; cases "match_and_mask r") (auto simp: or_rewrites_def visitOperation_def)
  qed
  moreover have "\<exists>y. CreateConstantInt S ?cf (ap_or S a b) = Some y" if "ap_width S a = w" "ap_width S b = w" for a b
    using create_const [of S "ap_or S a b" w] apint_binopD [OF world_okD(3) [OF W]] that w e by simp
  ultimately have "\<exists>y. visitOr S ?cf (int_node Or w [l, r]) = Some y"
    unfolding visitOr_def with_binary_node or_rewrites_def [symmetric]
    by (intro if_returns Some_returns try_const_returns [OF W i]) auto
  then show ?thesis by (simp add: visit_def)
qed

lemma shl_returns:
  assumes W: "world_ok S E" and i: "is_i S w l" "is_i S w r" and d: "height (int_node Shl w [l, r]) + 1 \<le> d"
  shows "\<exists>y. fold_depth S (Suc d) (int_node Shl w [l, r]) = Some y"
proof -
  let ?cf = "fold_depth S d"
  note w = ivalsD(1,2) [OF W i(1)]
  note L = world_okD(3) [OF W]
  obtain e where e: "d = Suc e" using d by (cases d) auto
  have "\<exists>y. shl_rewrites S ?cf (int_node Shl w [l, r]) l r = Some y"
  proof (cases "match_lshr_const l = None \<or> as_const_int r = None")
    case True
    then show ?thesis by (auto simp: shl_rewrites_def visitOperation_def split: option.splits)
  next
    case False
    then obtain v k lv where m: "match_lshr_const l = Some (v, k)" "as_const_int r = Some lv" by auto
    note a = match_lshr_constD [OF W i(1) m(1)]
    obtain rv' where rv': "as_const_int k = Some rv'" using a(3) by (auto simp: match_const_int_def)
    have b: "match_binop LShr l = Some (v, k)" using m(1) by (auto simp: match_lshr_const_def split: option.splits if_splits)
    have "height v < height l" using match_binop_int(1) [OF i(1) b int_ops_mem(12)] by simp
    then have h: "height v + 3 \<le> d" using d height_node(1) [of l Shl w r] by linarith
    let ?n = "ap_limited S lv w"
    have "?n \<le> w" by (simp add: apint_lawsD [OF L])
    then have z: "ap_width S (ap_bits_from S w ?n) = w" using w by (simp add: apint_lawsD [OF L])
    have "CreateConstantInt S ?cf (ap_bits_from S w ?n) = Some (const_node S (ap_bits_from S w ?n))"
      using create_const [OF z w] e by simp
    moreover obtain y where "CreateAnd ?cf v (const_node S (ap_bits_from S w ?n)) = Some y"
      using create_and_returns [OF W a(1) _ _ h] const_node_is_i [OF W z w] by blast
    ultimately show ?thesis using m rv' by (simp add: shl_rewrites_def bitwidth_int Let_def visitOperation_def)
  qed
  moreover have "\<exists>y. CreateConstantInt S ?cf (ap_shl S a b) = Some y" if "ap_width S a = w" "ap_width S b = w" for a b
    using create_const [of S "ap_shl S a b" w] apint_binopD [OF L] that w e by simp
  ultimately have "\<exists>y. visitShl S ?cf (int_node Shl w [l, r]) = Some y"
    unfolding visitShl_def with_binary_node shl_rewrites_def [symmetric]
    by (intro if_returns Some_returns try_const_returns [OF W i]) auto
  then show ?thesis by (simp add: visit_def)
qed

lemma int_returns:
  assumes W: "world_ok S E" and x: "wt S x" "op_opcode x = c" "c \<in> int_ops" and d: "height x + 1 \<le> d"
  shows "\<exists>y. fold_depth S (Suc d) x = Some y"
proof -
  obtain w l r where n: "x = int_node c w [l, r]" "is_i S w l" "is_i S w r" using wt_int_op [OF x] by blast
  obtain e where e: "d = Suc e" using d by (cases d) auto
  consider "c = And" | "c = Or" | "c = Shl" | "c \<in> int_ops - {And, Or, Shl}" using x(3) by blast
  then show ?thesis
  proof cases
    case 1
    then have "height l < height x" "height r < height x" using n(1) by simp_all
    then have "height l \<le> height x - 1" "height r \<le> height x - 1" "height x - 1 + 2 \<le> d" using d by linarith+
    then show ?thesis using and_returns [OF W n(2,3)] n(1) 1 by blast
  next
    case 2
    then show ?thesis using or_returns [OF W n(2,3)] n(1) d by simp
  next
    case 3
    then show ?thesis using shl_returns [OF W n(2,3)] n(1) d by simp
  next
    case 4
    then show ?thesis using plain_int_returns [OF W _ n(2,3), of c e] n(1) e by simp
  qed
qed

section \<open>Unary operations and comparisons\<close>

lemma unary_returns:
  assumes W: "world_ok S E" and x: "wt S x" "op_opcode x = c" "c \<in> {Not, Trunc, ZExt, SExt}" and ok: "fold_ok S E x"
    and d: "height x + 1 \<le> d"
  shows "\<exists>y. fold_depth S (Suc d) x = Some y"
proof -
  let ?cf = "fold_depth S d"
  note L = world_okD(3) [OF W]
  obtain w n a where n: "x = int_node c n [a]" "is_i S w a" "widths_ok c w n" using wt_unary [OF x] by blast
  have t: "op_type a = Type Integer w" "wt S a" using n(2) by (simp_all add: is_i_def)
  note w = ivalsD(1,2) [OF W n(2)]
  have n': "0 < n" "n < 2 ^ 24" using n(3) w by (auto simp: widths_ok_def)
  obtain e where e: "d = Suc e" using d by (cases d) auto
  have K: "\<exists>y. CreateConstantInt S ?cf i = Some y" if "ap_width S i = n" for i
    using create_const [OF that n'] e by simp
  show ?thesis
  proof (cases "as_const_int a")
    case (Some i)
    note s = as_const_int_wt(2) [OF W n(2) Some]
    have ne: "c \<noteq> Not \<Longrightarrow> n \<noteq> w" using ok n(1) t Some x(3) by (auto simp: fold_ok_def)
    have "ap_width S (if c = Not then ap_not S i else if c = Trunc then ap_trunc S i n
        else if c = ZExt then ap_zext S i n else ap_sext S i n) = n"
      using n(3) ne s by (auto simp: widths_ok_def apint_lawsD [OF L])
    from K [OF this] show ?thesis
      using x(3) n(1) Some by (auto simp: visit_def visitNot_def visitTrunc_def visitZExt_def visitSExt_def bitwidth_int)
  next
    case None
    consider "c = ZExt" "n \<noteq> w" "match_unop Trunc a \<noteq> None" | "c \<noteq> ZExt \<or> n = w \<or> match_unop Trunc a = None" by blast
    then show ?thesis
    proof cases
      case 1
      then obtain v where v: "match_unop Trunc a = Some v" by blast
      then have "op_opcode a = Trunc" by (simp add: match_unop_def split: if_splits)
      then obtain w' n' v' where tr: "a = int_node Trunc n' [v']" "is_i S w' v'" "widths_ok Trunc w' n'"
        using wt_unary [of S a Trunc] t(2) by blast
      have vv: "v' = v" "n' = w" using v tr(1) t(1) by (simp_all add: match_unop_def)
      have vi: "is_i S w' v" "w \<le> w'" using tr(2,3) vv by (auto simp: widths_ok_def)
      have "height v < height a" using tr(1) vv by simp
      then have h: "height v + 3 \<le> d" using d height_node(3) [of a c n] unfolding n(1) by linarith
      have "\<exists>y. visitOperation x = Some y" by (simp add: visitOperation_def)
      moreover have "\<exists>y. do { m \<leftarrow> CreateConstantInt S ?cf (ap_low_bits S n w); CreateAnd ?cf v m } = Some y" if nw: "n = w'"
      proof -
        have z: "ap_width S (ap_low_bits S n w) = n" using n' vi(2) nw by (simp add: apint_lawsD [OF L])
        show ?thesis
          using create_const [OF z n'] create_and_returns [OF W _ _ _ h] const_node_is_i [OF W z n'] vi(1) nw e by simp
      qed
      moreover have "op_type v = Type Integer w'" using vi(1) by (simp add: is_i_def)
      ultimately show ?thesis using 1 n(1) None v t(1) by (simp add: visit_def visitZExt_def bitwidth_int)
    next
      case 2
      then show ?thesis
        using x(3) n(1) None t(1)
        by (auto simp: visit_def visitNot_def visitTrunc_def visitZExt_def visitSExt_def visitOperation_def split: option.splits)
    qed
  qed
qed

lemma icmp_returns:
  assumes W: "world_ok S E" and x: "wt S x" "op_opcode x = ICmp p"
  shows "\<exists>y. fold_depth S (Suc (Suc e)) x = Some y"
proof -
  obtain w l r where n: "x = int_node (ICmp p) 1 [l, r]" "is_i S w l" "is_i S w r" using wt_icmp [OF x] by blast
  have "\<exists>y. visitICmp S (fold_depth S (Suc e)) p x = Some y"
    unfolding visitICmp_def n(1) with_binary_node
    by (intro try_const_returns [OF W n(2,3)] if_returns Some_returns create_bool [OF world_okD(3) [OF W]])
      (simp add: int_ty_Some create_undef)
  then show ?thesis using x(2) by (simp add: visit_def)
qed

section \<open>Floating point\<close>

lemma create_float:
  assumes "type_of_apfloat S f = Some t"
  shows "\<exists>y. CreateConstantFloat S (fold_depth S (Suc d)) f = Some y"
proof -
  have "CreateConstantFloat S cf f = cf (float_node t f)" for cf
    using assms by (simp add: CreateConstantFloat_def mk_constant_float_data_def mk_operation_def opcode_num_nargs float_node_def)
  moreover have "fold_depth S (Suc d) (float_node t f) = Some (float_node t f)"
    by (simp add: float_node_def visit_def op_opcode_def visitOperation_def)
  ultimately show ?thesis by metis
qed

lemma float_op_returns:
  assumes W: "world_ok S E" and x: "wt S x" "op_opcode x = c" "c \<in> float_ops" and ok: "fold_ok S E x"
  shows "\<exists>y. fold_depth S (Suc (Suc e)) x = Some y"
proof -
  obtain t l r where n: "x = Operation (OperationData c t) [l, r]" "wt S l" "wt S r" "op_type l = t" "op_type r = t" "op_type x = t"
    by (rule wt_float_op [OF x])
  show ?thesis
  proof (cases "as_const_float l = None \<or> as_const_float r = None")
    case True
    then show ?thesis using n(1) x(2,3)
      by (auto simp: float_ops_def visit_def visitFAdd_def visitFSub_def visitFMul_def visitFDiv_def visitFRem_def
          with_binary_def try_const_float_def visitOperation_def split: option.splits)
  next
    case False
    then obtain a b where ab: "as_const_float l = Some a" "as_const_float r = Some b" by auto
    have ta: "type_of_apfloat S a = Some t" "type_of_apfloat S b = Some t"
      using as_const_float_wt(2) [OF n(2) ab(1)] as_const_float_wt(2) [OF n(3) ab(2)] n(4,5) by simp_all
    have sem: "fl_sem S a = fl_sem S b" by (rule type_of_apfloat_inj [OF llvm_lawsD(2) [OF world_okD(1) [OF W]] ta])
    have c: "c \<noteq> FRem" using ok n(1) ab by (auto simp: fold_ok_def op_opcode_def)
    note laws = float_op_lawsD(1-5) [OF llvm_lawsD(3) [OF world_okD(1) [OF W]] sem]
    have "type_of_apfloat S (fl_add S a b) = Some t" "type_of_apfloat S (fl_sub S a b) = Some t"
      "type_of_apfloat S (fl_mul S a b) = Some t" "type_of_apfloat S (fl_div S a b) = Some t"
      using ta(2) laws by (simp_all add: type_of_apfloat_def)
    note K = this [THEN create_float, of e]
    show ?thesis using n(1) x(2,3) ab c K
      by (auto simp: float_ops_def visit_def visitFAdd_def visitFSub_def visitFMul_def visitFDiv_def with_binary_def try_const_float_def)
  qed
qed

lemma float_test_returns:
  assumes W: "world_ok S E" and x: "wt S x" "op_opcode x = FIsNaN \<or> op_opcode x = FCmp p"
  shows "\<exists>y. fold_depth S (Suc (Suc e)) x = Some y"
proof -
  note B = create_bool [OF world_okD(3) [OF W], of e]
  have "op_opcode x \<notin> leaf_opcodes" using x(2) by (auto simp: leaf_opcodes_def)
  then obtain t ops where n: "x = Operation (OperationData (op_opcode x) t) ops" "wt_operation S (op_opcode x) t (map op_type ops)"
    by (rule wt_inner [OF x(1) refl])
  show ?thesis
  proof (cases "op_opcode x = FIsNaN")
    case True
    then obtain a where o: "operands x = [a]" using n by (cases x) (auto simp: wt_operation_def map_eq_Cons_conv)
    show ?thesis using True B o by (simp add: visit_def visitFIsNaN_def with_unary_def visitOperation_def split: option.splits)
  next
    case False
    then have c: "op_opcode x = FCmp p" using x(2) by simp
    then obtain l r where o: "operands x = [l, r]" using n by (cases x) (auto simp: wt_operation_def map_eq_Cons_conv)
    show ?thesis using c B o
      by (simp add: visit_def visitFCmp_def with_binary_def try_const_float_def visitOperation_def split: option.splits)
  qed
qed

section \<open>The size of an index\<close>

lemma bit_top: "2 ^ k \<le> n \<Longrightarrow> n < 2 ^ Suc k \<Longrightarrow> bit (n :: nat) k"
proof -
  assume a: "2 ^ k \<le> n" "n < 2 ^ Suc k"
  then have "n div 2 ^ k = 1" by (intro div_nat_eqI) (simp_all add: One_nat_def)
  then show ?thesis by (simp add: bit_iff_odd)
qed

lemma and_pred_zero_iff:
  assumes "2 ^ k \<le> n" "n < 2 ^ Suc k"
  shows "and n (n - 1) = 0 \<longleftrightarrow> n = (2 :: nat) ^ k"
proof
  assume z: "and n (n - 1) = 0"
  show "n = 2 ^ k"
  proof (rule ccontr)
    assume "n \<noteq> 2 ^ k"
    then have "bit (n - 1) k" using assms by (intro bit_top) auto
    then have "bit (and n (n - 1)) k" using bit_top [OF assms] by (simp add: bit_simps)
    then show False using z by simp
  qed
next
  assume "n = 2 ^ k"
  then show "and n (n - 1) = 0"
    by (auto intro!: bit_eqI simp: bit_simps mask_eq_exp_minus_1 [symmetric] exp_eq_0_imp_not_bit)
qed

lemma ilog2_value:
  assumes "clz_law L" "0 < n" "n < 2 ^ 64"
  obtains k where "k < 64" "2 ^ k \<le> n" "n < 2 ^ Suc k" "ilog2 L n = (if n = 2 ^ k then k else Suc k)"
proof -
  define k where "k = 63 - count_leading_zeros L n"
  have c: "count_leading_zeros L n < 64" "2 ^ k \<le> n" "n < 2 ^ (64 - count_leading_zeros L n)"
    using assms by (simp_all add: clz_law_def k_def)
  have k: "k < 64" "64 - count_leading_zeros L n = Suc k" using c(1) by (simp_all add: k_def)
  have "(n + (2 ^ 64 - 1)) mod 2 ^ 64 = n - 1"
  proof -
    have "n + (2 ^ 64 - 1) = (n - 1) + 2 ^ 64" using assms(2) by simp
    then show ?thesis using assms(3) by (metis less_imp_diff_less mod_add_self2 mod_less)
  qed
  then have p: "and n ((n + (2 ^ 64 - 1)) mod 2 ^ 64) = 0 \<longleftrightarrow> n = 2 ^ k"
    using and_pred_zero_iff [of k n] c k by simp
  have e: "2 ^ 64 + 64 - count_leading_zeros L n - (if b then 1 else 0) = 2 ^ 64 + (if b then k else Suc k)" for b
    using k c(1) by (cases b) simp_all
  have "(if n = 2 ^ k then k else Suc k) < 2 ^ 64" using k(1) by simp
  then have "ilog2 L n = (if n = 2 ^ k then k else Suc k)"
    unfolding ilog2_def Let_def p e by simp
  then show thesis using that [of k] c k by simp
qed

lemma ilog2_le: "clz_law L \<Longrightarrow> 0 < n \<Longrightarrow> n < 2 ^ 64 \<Longrightarrow> n \<le> 2 ^ w \<Longrightarrow> ilog2 L n \<le> w"
proof -
  assume a: "clz_law L" "0 < n" "n < 2 ^ 64" "n \<le> 2 ^ w"
  from ilog2_value [OF a(1-3)] obtain k where k: "2 ^ k \<le> n" "ilog2 L n = (if n = 2 ^ k then k else Suc k)" by metis
  show ?thesis
  proof (cases "n = 2 ^ k")
    case True
    then show ?thesis using a(4) k(2) by simp
  next
    case False
    then have "(2 :: nat) ^ k < 2 ^ w" using k(1) a(4) by linarith
    then show ?thesis using k(2) False by simp
  qed
qed

section \<open>Arrays\<close>

lemma create_array:
  assumes "clz_law S" "array_wf S w vs" "vs \<noteq> []"
  shows "CreateFixedArray S (fold_depth S (Suc d)) (Type Integer w) vs = Some (array_node w vs)"
proof -
  have l: "length vs < 2 ^ 64" "length vs \<le> 2 ^ w" "w < 2 ^ 24" using assms(2) by (simp_all add: array_wf_def size_max_def)
  have "ilog2 S (length vs) \<le> w" by (rule ilog2_le [OF assms(1) _ l(1,2)]) (use assms(3) in simp)
  moreover have "array_ty w = Some (Type Array w)" using l(3) by (simp add: array_ty_eq_Some)
  ultimately have "CreateFixedArray S cf (Type Integer w) vs = cf (array_node w vs)" for cf
    by (simp add: CreateFixedArray_def is_int_def bitwidth_int mk_operation_def opcode_num_nargs array_node_def)
  moreover have "fold_depth S (Suc d) (array_node w vs) = Some (array_node w vs)"
    by (simp add: array_node_def visit_def op_opcode_def visitFixedArray_def)
  ultimately show ?thesis by metis
qed

text \<open>
  The nodes on which a visitor of arrays reaches an assertion or reads past the end of an array: an
  allocation of the constant size zero, and a constant offset outside a fixed array.
\<close>

definition in_bounds :: "('i, 'f, 'z) ctx_scheme \<Rightarrow> ('i, 'f) op \<Rightarrow> bool" where
  "in_bounds S x \<longleftrightarrow>
     (case (op_opcode x, operands x) of
        (Alloc, [sz, _]) \<Rightarrow> (\<forall>i. as_const_int sz = Some i \<longrightarrow> ap_val S i \<noteq> 0)
      | (Load, [d, i]) \<Rightarrow> op_opcode d = FixedArray \<longrightarrow> (\<forall>c. as_const_int i = Some c \<longrightarrow> ap_val S c < length (operands d))
      | (Store, [d, i, _]) \<Rightarrow> op_opcode d = FixedArray \<longrightarrow> (\<forall>c. as_const_int i = Some c \<longrightarrow> ap_val S c < length (operands d))
      | _ \<Rightarrow> True)"

lemma alloc_returns:
  assumes W: "world_ok S E" "clz_law S" and x: "wt S x" "op_opcode x = Alloc" and b: "in_bounds S x"
  shows "\<exists>y. fold_depth S (Suc (Suc e)) x = Some y"
proof -
  have "Alloc \<notin> leaf_opcodes" by (simp add: leaf_opcodes_def)
  then obtain t ops where n: "x = Operation (OperationData Alloc t) ops" "list_all (wt S) ops"
      "wt_operation S Alloc t (map op_type ops)" "op_type x = t"
    by (rule wt_inner [OF x])
  then obtain w sz d where a: "ops = [sz, d]" "is_i S w sz" "is_i S 8 d"
    by (auto simp: wt_operation_def map_eq_Cons_conv is_i_def)
  show ?thesis
  proof (cases "\<exists>i. as_const_int sz = Some i \<and> ap_limited S i size_max < size_max")
    case False
    then show ?thesis using n(1) a(1) x(2)
      by (auto simp: visit_def visitAllocOp_def with_binary_def visitOperation_def split: option.splits)
  next
    case True
    then obtain i where i: "as_const_int sz = Some i" "ap_limited S i size_max < size_max" by blast
    note s = as_const_int_wt [OF W(1) a(2) i(1)]
    have k: "ap_limited S i size_max = ap_val S i" "ap_val S i < size_max" "ap_val S i \<noteq> 0"
      using i b n(1) a(1) by (auto simp: in_bounds_def op_opcode_def apint_lawsD [OF world_okD(3) [OF W(1)]])
    have wf: "array_wf S w (replicate (ap_val S i) d)" using k s(4-6) a(3) by (simp add: array_wf_def list_all_iff)
    have "op_type sz = Type Integer w" using a(2) by (simp add: is_i_def)
    then show ?thesis using n(1) a(1) x(2) i(1) k create_array [OF W(2) wf, of e]
      by (simp add: visit_def visitAllocOp_def with_binary_def CreateFixedArrayFill_def)
  qed
qed

lemma store_returns:
  assumes W: "world_ok S E" "clz_law S" and x: "wt S x" "op_opcode x = Store" and b: "in_bounds S x"
  shows "\<exists>y. fold_depth S (Suc (Suc e)) x = Some y"
proof -
  have "Store \<notin> leaf_opcodes" by (simp add: leaf_opcodes_def)
  then obtain t ops where "x = Operation (OperationData Store t) ops" "list_all (wt S) ops"
      "wt_operation S Store t (map op_type ops)" "op_type x = t"
    by (rule wt_inner [OF x])
  then obtain w d i v where n: "x = Operation (OperationData Store (Type Array w)) [d, i, v]" "wt S d" "op_type d = Type Array w"
    "is_i S w i" "is_i S 8 v"
    by (auto simp: wt_operation_def map_eq_Cons_conv is_i_def)
  show ?thesis
  proof (cases "\<exists>c. op_opcode d = FixedArray \<and> as_const_int i = Some c")
    case False
    then show ?thesis using n(1) x(2)
      by (auto simp: visit_def visitStoreOp_def visitOperation_def split: option.splits)
  next
    case True
    then obtain c where c: "op_opcode d = FixedArray" "as_const_int i = Some c" by blast
    define vs where "vs = operands d"
    have a: "array_wf S w vs" using wt_array_node [OF n(2) c(1) n(3)] by (simp add: vs_def)
    have k: "ap_val S c < length vs" using b n(1) c by (simp add: in_bounds_def op_opcode_def vs_def)
    then have "ap_limited S c size_max = ap_val S c"
      using a by (simp add: array_wf_def apint_lawsD [OF world_okD(3) [OF W(1)]])
    moreover have "array_wf S w (vs[ap_val S c := v])" using a n(5) by (simp add: array_wf_def list_all_update)
    moreover have "vs[ap_val S c := v] \<noteq> []" using k by auto
    moreover have "op_type i = Type Integer w" using n(4) by (simp add: is_i_def)
    ultimately show ?thesis using n(1) x(2) c k create_array [OF W(2), of w "vs[ap_val S c := v]" e]
      by (simp add: visit_def visitStoreOp_def vs_def)
  qed
qed

lemma chain_returns:
  assumes W: "world_ok S E" and off: "is_i S w off"
  shows "list_all (is_i S 8) vs \<Longrightarrow> is_i S 8 out \<Longrightarrow> \<exists>y. load_chain S (fold_depth S (Suc (Suc e))) off j vs out = Some y"
proof (induction vs arbitrary: j out)
  case (Cons v vs)
  let ?cf = "fold_depth S (Suc (Suc e))"
  note L = world_okD(3) [OF W]
  note w = ivalsD(1,2) [OF W off]
  define z where "z = ap_sext_or_trunc S (ap_make S 64 (nat (int j mod 2 ^ 64))) w"
  have z: "ap_width S z = w" using w by (simp add: z_def apint_lawsD [OF L])
  have zi: "is_i S w (const_node S z)" using const_node_is_i [OF W z w] by blast
  let ?n = "int_node (ICmp ICmp_EQ) 1 [off, const_node S z]"
  have n: "is_i S 1 ?n" by (rule icmp_node(1) [OF W off zi])
  obtain c where c: "?cf ?n = Some c" using icmp_returns [OF W, of ?n ICmp_EQ e] n by (auto simp: is_i_def)
  have ci: "is_i S 1 c" by (rule fold_int_typed [OF W n _ c]) (simp add: fold_ok_def)
  have 1: "CreateICmp_rhs S ?cf ICmp_EQ off (int j) = Some c"
  proof -
    have "CreateConstantInt S ?cf z = Some (const_node S z)" by (rule create_const [OF z w])
    moreover have "CreateICmp ?cf ICmp_EQ off (const_node S z) = ?cf ?n"
      using off zi by (simp add: CreateICmp_def is_i_def is_int_def int_ty_Some mk_operation_def opcode_num_nargs int_node_def del: fold_depth.simps)
    ultimately show ?thesis
      using off c unfolding z_def by (simp add: CreateICmp_rhs_def is_i_def is_int_def bitwidth_int del: fold_depth.simps)
  qed
  have v: "is_i S 8 v" using Cons.prems(1) by simp
  let ?s = "int_node Select 8 [c, v, out]"
  have s: "is_i S 8 ?s" using ci v Cons.prems(2) by (simp add: is_i_def int_node_def op_type_def wt_operation_def)
  have "\<exists>o'. ?cf ?s = Some o'"
    by (simp add: visit_def visitSelectOp_def visitOperation_def split: option.splits)
  then obtain o' where o': "?cf ?s = Some o'" by blast
  have oi: "is_i S 8 o'" by (rule fold_int_typed [OF W s _ o']) (simp add: fold_ok_def)
  have "CreateSelect ?cf c v out = ?cf ?s"
    using ci v Cons.prems(2)
    by (simp add: CreateSelect_def is_i_def int_ty_Some mk_operation_def opcode_num_nargs int_node_def del: fold_depth.simps)
  then show ?case using 1 o' Cons.IH [OF _ oi, of "j + 1"] Cons.prems(1) by (simp del: fold_depth.simps)
qed simp

lemma load_returns:
  assumes W: "world_ok S E" and x: "wt S x" "op_opcode x = Load" and b: "in_bounds S x"
  shows "\<exists>y. fold_depth S (Suc (Suc (Suc e))) x = Some y"
proof -
  obtain w d i where n: "x = int_node Load 8 [d, i]" "wt S d" "op_type d = Type Array w" "is_i S w i"
    by (rule wt_load [OF x])
  define vs where "vs = operands d"
  show ?thesis
  proof (cases "op_opcode d = FixedArray")
    case False
    then show ?thesis using n(1) by (simp add: visit_def visitLoadOp_def visitOperation_def)
  next
    case True
    have a: "array_wf S w vs" using wt_array_node [OF n(2) True n(3)] by (simp add: vs_def)
    show ?thesis
    proof (cases "as_const_int i")
      case (Some c)
      have k: "ap_val S c < length vs" using b n(1) True Some by (simp add: in_bounds_def vs_def)
      then have "ap_limited S c size_max = ap_val S c"
        using a by (simp add: array_wf_def apint_lawsD [OF world_okD(3) [OF W]])
      then show ?thesis using n(1) True Some k by (simp add: visit_def visitLoadOp_def vs_def)
    next
      case None
      have 8: "is_i S 8 (undef_node (Type Integer 8))"
        by (auto simp: is_i_def undef_node_def op_type_def wt_operation_def inhabited_def intro: exI [of _ "SInt 8 0"])
      have "\<exists>y. load_chain S (fold_depth S (Suc (Suc e))) i 0 vs (undef_node (Type Integer 8)) = Some y"
        by (rule chain_returns [OF W n(4) _ 8]) (use a in \<open>simp add: array_wf_def\<close>)
      then have "\<exists>y. visitLoadOp S (fold_depth S (Suc (Suc e))) x = Some y"
        using n(1) True None create_undef [of S "Suc e" "Type Integer 8"]
        by (simp add: visitLoadOp_def int_ty_Some vs_def visitOperation_def del: fold_depth.simps)
      then show ?thesis using n(1) by (simp add: visit_def del: fold_depth.simps(2)) (simp add: visit_def)
    qed
  qed
qed

section \<open>Every node\<close>

lemma select_returns:
  assumes "wt S x" "op_opcode x = Select"
  shows "\<exists>y. fold_depth S (Suc e) x = Some y"
proof -
  have "Select \<notin> leaf_opcodes" by (simp add: leaf_opcodes_def)
  then obtain t ops where n: "x = Operation (OperationData Select t) ops" "wt_operation S Select t (map op_type ops)"
    by (rule wt_inner [OF assms])
  then obtain c u v where "operands x = [c, u, v]" by (auto simp: wt_operation_def map_eq_Cons_conv)
  then show ?thesis using assms(2) by (simp add: visit_def visitSelectOp_def visitOperation_def split: option.splits)
qed

lemma bitcast_returns:
  assumes "wt S x" "op_opcode x = Bitcast"
  shows "\<exists>y. fold_depth S (Suc e) x = Some y"
proof -
  have "Bitcast \<notin> leaf_opcodes" by (simp add: leaf_opcodes_def)
  then obtain t ops where n: "x = Operation (OperationData Bitcast t) ops" "wt_operation S Bitcast t (map op_type ops)"
    by (rule wt_inner [OF assms])
  then obtain a where "operands x = [a]" by (auto simp: wt_operation_def int_ops_def float_ops_def map_eq_Cons_conv)
  then show ?thesis using assms(2) by (simp add: visit_def visitBitcast_def with_unary_def visitOperation_def split: option.splits)
qed

lemma not_invalid:
  assumes "wt S x"
  shows "op_opcode x \<noteq> Invalid"
proof
  assume i: "op_opcode x = Invalid"
  have "Invalid \<notin> leaf_opcodes" by (simp add: leaf_opcodes_def)
  from wt_inner [OF assms i this] obtain t ts where "wt_operation S Invalid t ts" by metis
  then show False by (simp add: wt_operation_def int_ops_def float_ops_def conv_ops_def)
qed

lemma opcode_kinds:
  obtains "c \<in> int_ops" | "c \<in> float_ops" | "c \<in> {Not, Trunc, ZExt, SExt}" | p where "c = ICmp p"
  | p where "c = FIsNaN \<or> c = FCmp p" | "c = Alloc" | "c = Load" | "c = Store" | "c = Select" | "c = Bitcast" | "c = Invalid"
  | "c \<in> leaf_opcodes \<union> {Undef, FixedArray, FNeg, FpTrunc, FpExt, FpToUI, FpToSI, UIToFp, SIToFp}"
  by (cases c) (simp_all add: int_ops_def float_ops_def leaf_opcodes_def)

lemma fold_depth_returns:
  assumes W: "world_ok S E" "clz_law S" and x: "wt S x" "fold_ok S E x" "in_bounds S x" and d: "height x + 2 \<le> d"
  shows "\<exists>y. fold_depth S d x = Some y"
proof -
  obtain e where e: "d = Suc (Suc (Suc e))"
    using d height_pos [of x] by (intro that [of "d - 3"]) simp
  have h: "height x + 1 \<le> Suc (Suc e)" using d e by simp
  have "\<exists>y. fold_depth S (Suc (Suc (Suc e))) x = Some y" (is ?goal)
  proof (cases "op_opcode x" rule: opcode_kinds)
    case 1
    then show ?goal by (rule int_returns [OF W(1) x(1) refl _ h])
  next
    case 2
    then show ?goal by (rule float_op_returns [OF W(1) x(1) refl _ x(2)])
  next
    case 3
    then show ?goal by (rule unary_returns [OF W(1) x(1) refl _ x(2) h])
  next
    case 11
    then show ?goal using not_invalid [OF x(1)] by simp
  next
    case 12
    then show ?goal by (auto simp: leaf_opcodes_def visit_def visitOperation_def visitFixedArray_def)
  qed (fact icmp_returns [OF W(1) x(1)] float_test_returns [OF W(1) x(1)] alloc_returns [OF W x(1) _ x(3)]
      load_returns [OF W(1) x(1) _ x(3)] store_returns [OF W x(1) _ x(3)] select_returns [OF x(1)] bitcast_returns [OF x(1)])+
  then show ?thesis using e by simp
qed


lemma ref_ctx_clz: "clz_law ref_ctx"
  using ref_clz_law by (simp add: ref_ctx_def clz_law_def)


section \<open>The index width of fixed arrays\<close>

text \<open>
  C37: on 64-bit integers other than zero \<^verbatim>\<open>ilog2\<close> is the rounded-up logarithm: the smallest number of
  index bits that can address that many elements.
\<close>

theorem ilog2_ceiling:
  assumes "clz_law L" "0 < n" "n < 2 ^ 64"
  shows "n \<le> 2 ^ ilog2 L n \<and> (\<forall>w. n \<le> 2 ^ w \<longrightarrow> ilog2 L n \<le> w)"
proof -
  from ilog2_value [OF assms] obtain k where "n < 2 ^ Suc k" "ilog2 L n = (if n = 2 ^ k then k else Suc k)" by metis
  then have "n \<le> 2 ^ ilog2 L n" by (simp split: if_splits)
  then show ?thesis using ilog2_le [OF assms] by blast
qed

lemma ilog2_ceiling_witness: "(5 :: nat) \<le> 2 ^ ilog2 ref_llvm 5 \<and> ilog2 ref_llvm 5 \<le> 3"
proof -
  have "(0 :: nat) < 5" "(5 :: nat) < 2 ^ 64" "(5 :: nat) \<le> 2 ^ 3" by simp_all
  with ilog2_ceiling [OF ref_clz_law] show ?thesis by blast
qed

text \<open>
  \<^verbatim>\<open>ilog2(0)\<close> wraps around to the largest 64-bit integer, so that creating a fixed array with no
  elements fails its assertion for every index type, and so does folding an allocation of the constant
  size zero.
\<close>

theorem empty_array_rejected:
  assumes "clz_law L"
  shows "ilog2 L 0 = 2 ^ 64 - 1 \<and> (desc t < 2 ^ 64 - 1 \<longrightarrow> CreateFixedArray L cf t [] = None)"
proof -
  have i: "ilog2 L 0 = 2 ^ 64 - 1" using assms by (simp add: ilog2_def clz_law_def Let_def)
  have "CreateFixedArray L cf t [] = None" if "desc t < 2 ^ 64 - 1"
  proof (cases "is_int t")
    case True
    then have "bitwidth t = Some (desc t)" by (simp add: bitwidth_def)
    then show ?thesis using True that i by (simp add: CreateFixedArray_def)
  qed (simp add: CreateFixedArray_def)
  then show ?thesis using i by blast
qed

lemma empty_array_rejected_witness:
  "ilog2 ref_llvm 0 = 2 ^ 64 - 1 \<and> CreateFixedArray ref_llvm Some (Type Integer 32) [] = None"
  using empty_array_rejected [OF ref_clz_law, of "Type Integer 32" Some] by simp

end
