(* ===== verification/IR_Overflow.thy ===== *)
theory IR_Overflow
  imports IR_Fold_Total
begin

text \<open>
  The overflow circuits \<^verbatim>\<open>BinaryOp::CreateUMulOverflow\<close> and \<^verbatim>\<open>BinaryOp::CreateSMulOverflow\<close>
  (src/IR/Operation.cpp): every node they build goes through the simplifier, and the bit they end in
  is compared with the exact product. The locale \<open>ir_world\<close> collects what building an expression
  guarantees when the operands have one value each.
\<close>

declare One_nat_def [simp del]

section \<open>Expressions with one value\<close>

definition exact :: "('i, 'f, 'z) ctx_scheme \<Rightarrow> 'f senv \<Rightarrow> nat \<Rightarrow> nat \<Rightarrow> ('i, 'f) op \<Rightarrow> bool" where
  "exact S E w n x \<longleftrightarrow> is_i S w x \<and> ivals S E x = {n}"

lemma exact_truth [simp]: "and (truth p) (truth q) = truth (p \<and> q)" "or (truth p) (truth q) = truth (p \<or> q)"
    "xor (truth p) (truth q) = truth (p \<noteq> q)"
  by (auto simp: truth_def)

lemma truth_inject [simp]: "truth p = truth q \<longleftrightarrow> p = q"
  by (simp add: truth_def)

section \<open>Bits of products\<close>

lemma two_power_step: "2 ^ k \<le> a \<longleftrightarrow> 2 ^ Suc k \<le> a \<or> bit a k" for a :: nat
proof -
  have "2 ^ k \<le> a" if "bit a k" using that bit_less_power [of a k k] by (metis linorder_not_le less_irrefl)
  moreover have "bit a k" if "2 ^ k \<le> a" "a < 2 ^ Suc k"
  proof -
    have "a div 2 ^ k = 1" using that by (intro div_nat_eqI) simp_all
    then show ?thesis by (simp add: bit_iff_odd)
  qed
  moreover have "2 ^ k \<le> a" if "2 ^ Suc k \<le> a" using that by simp
  ultimately show ?thesis using linorder_not_le by blast
qed

text \<open>
  What the loop of the circuits computes: some bit of \<open>b\<close> at a position \<open>i\<close> below \<open>j\<close> is set while \<open>a\<close>
  has a bit at \<open>m - i\<close> or above.
\<close>

definition crossing :: "nat \<Rightarrow> nat \<Rightarrow> nat \<Rightarrow> nat \<Rightarrow> bool" where
  "crossing m a b j \<longleftrightarrow> (\<exists>i\<in>{1..<j}. bit b i \<and> 2 ^ (m - i) \<le> a)"

lemma crossing_Suc: "1 \<le> j \<Longrightarrow> crossing m a b (Suc j) \<longleftrightarrow> crossing m a b j \<or> bit b j \<and> 2 ^ (m - j) \<le> a"
  by (auto simp: crossing_def less_Suc_eq)

lemma crossing_large:
  assumes "crossing m a b m"
  shows "\<exists>i\<in>{1..<m}. 2 ^ i \<le> b \<and> 2 ^ (m - i) \<le> a"
  using assms two_power_step unfolding crossing_def by blast

lemma top_bit:
  assumes "0 < (b :: nat)"
  obtains k where "bit b k" "2 ^ k \<le> b" "b < 2 ^ Suc k"
proof -
  obtain k where k: "2 ^ k \<le> b" "b < 2 ^ (k + 1)" using ex_power_ivl1 [of 2 b] assms by auto
  then have "b < 2 ^ Suc k" by (simp only: Suc_eq_plus1)
  then show thesis using that k(1) two_power_step [of k b] linorder_not_le by blast
qed

lemma no_crossing_small:
  assumes "\<not> crossing m a b m" "a < 2 ^ m" "b < 2 ^ m" "0 < b"
  shows "\<exists>k. a < 2 ^ (m - k) \<and> b < 2 ^ Suc k \<and> k < m"
proof -
  obtain k where k: "bit b k" "2 ^ k \<le> b" "b < 2 ^ Suc k" by (rule top_bit [OF assms(4)])
  have "k < m" using bit_less_power [OF assms(3) k(1)] .
  moreover have "a < 2 ^ (m - k)"
    using assms(1,2) k(1) calculation by (cases "k = 0") (auto simp: crossing_def not_le)
  ultimately show ?thesis using k(3) by blast
qed

lemma bit_below: "n < 2 ^ k \<Longrightarrow> \<not> bit n k" for n :: nat
  using bit_less_power by blast

text \<open>
  The bit at \<open>m\<close> together with the loop decides whether a number that the loop bounds reaches \<open>2 ^ m\<close>.
\<close>

lemma product_bit:
  assumes "c \<longrightarrow> 2 ^ m \<le> p" "\<not> c \<longrightarrow> p < 2 ^ Suc m"
  shows "c \<or> bit p m \<longleftrightarrow> 2 ^ m \<le> (p :: nat)"
  using assms two_power_step [of m p] by (metis linorder_not_le)

lemma product_bits:
  assumes "c \<longrightarrow> 2 ^ m \<le> p" "\<not> c \<longrightarrow> p \<le> 2 ^ Suc m"
  shows "bit p (Suc m) \<noteq> bit p m \<or> c \<longleftrightarrow> 2 ^ m \<le> (p :: nat)"
proof (cases "c \<or> p = 2 ^ Suc m")
  case True
  have "bit (2 ^ Suc m :: nat) (Suc m) \<noteq> bit (2 ^ Suc m :: nat) m" by (simp only: bit_exp_iff) simp
  then show ?thesis using True assms(1) by auto
next
  case False
  then have "p < 2 ^ Suc m" using assms(2) by simp
  then show ?thesis using False bit_below [of p "Suc m"] two_power_step [of m p] by auto
qed

lemma crossing_product: "crossing m a b m \<Longrightarrow> 2 ^ m \<le> a * b"
proof -
  assume "crossing m a b m"
  then obtain i where i: "i \<in> {1..<m}" "2 ^ i \<le> b" "2 ^ (m - i) \<le> a" using crossing_large by blast
  have "2 ^ m = (2 :: nat) ^ (m - i) * 2 ^ i" using i(1) by (simp flip: power_add)
  then show "2 ^ m \<le> a * b" using mult_le_mono [OF i(3,2)] by simp
qed

lemma no_crossing_product:
  assumes "\<not> crossing m a b m" "a < 2 ^ m" "b < 2 ^ m"
  shows "a * b < 2 ^ Suc m" "0 < m \<Longrightarrow> (a + 1) * (b + 1) \<le> 2 ^ Suc m"
proof -
  have "a * b < 2 ^ Suc m \<and> (0 < m \<longrightarrow> (a + 1) * (b + 1) \<le> 2 ^ Suc m)"
  proof (cases "b = 0")
    case True
    then show ?thesis using assms(2) by simp
  next
    case False
    then obtain k where k: "a < 2 ^ (m - k)" "b < 2 ^ Suc k" "k < m" using no_crossing_small [OF assms] by blast
    have e: "2 ^ Suc m = (2 :: nat) ^ (m - k) * 2 ^ Suc k" using k(3) by (simp flip: power_add)
    have "(a + 1) * (b + 1) \<le> 2 ^ Suc m" unfolding e using k(1,2) by (intro mult_le_mono) simp_all
    moreover have "a * b < (a + 1) * (b + 1)" by (simp add: algebra_simps)
    ultimately show ?thesis by simp
  qed
  then show "a * b < 2 ^ Suc m" "0 < m \<Longrightarrow> (a + 1) * (b + 1) \<le> 2 ^ Suc m" by simp_all
qed

lemma umul_bits:
  assumes "a < 2 ^ w" "b < 2 ^ w"
  shows "crossing w a b w \<or> bit (a * b mod 2 ^ (w + 1)) w \<longleftrightarrow> 2 ^ w \<le> a * b"
proof -
  have "bit (a * b mod 2 ^ (w + 1)) w = bit (a * b) w" by (simp add: bit_take_bit_iff flip: take_bit_eq_mod)
  then show ?thesis using product_bit [of "crossing w a b w" w "a * b"] crossing_product no_crossing_product(1) [OF _ assms] by blast
qed

text \<open>The one's complement magnitude that the signed circuit feeds to the loop.\<close>

definition magnitude :: "nat \<Rightarrow> nat \<Rightarrow> nat" where
  "magnitude w a = (if a < 2 ^ (w - 1) then a else 2 ^ w - 1 - a)"

lemma magnitude_bound: "0 < w \<Longrightarrow> a < 2 ^ w \<Longrightarrow> magnitude w a < 2 ^ (w - 1)"
  using power_Suc [of "2 :: nat" "w - 1"] by (auto simp: magnitude_def)

lemma to_signed_magnitude:
  assumes "a < 2 ^ w"
  shows "to_signed w a = (if a < 2 ^ (w - 1) then int (magnitude w a) else - int (magnitude w a + 1))"
  using assms by (simp add: to_signed_def magnitude_def of_nat_diff)

lemma sign_bit: "0 < w \<Longrightarrow> a < 2 ^ w \<Longrightarrow> bit a (w - 1) \<longleftrightarrow> \<not> a < 2 ^ (w - 1)" for a :: nat
  using two_power_step [of "w - 1" a] by (auto simp: not_less)

lemma ashr_sign:
  assumes "0 < w" "a < 2 ^ w"
  shows "ashr_val w a (w - 1) = (if a < 2 ^ (w - 1) then 0 else 2 ^ w - 1)"
proof (cases "a < 2 ^ (w - 1)")
  case True
  then show ?thesis by (simp add: ashr_val_def to_signed_def of_signed_def)
next
  case False
  have "int (magnitude w a) < 2 ^ (w - 1)" using magnitude_bound [OF assms] by (metis of_nat_less_iff of_nat_numeral of_nat_power)
  then have "int (magnitude w a) + 1 \<le> 2 ^ (w - 1)" by linarith
  then have "to_signed w a div 2 ^ (w - 1) = - 1"
    using False assms
    by (intro int_div_pos_eq [of _ _ _ "2 ^ (w - 1) - int (magnitude w a + 1)"]) (auto simp: to_signed_magnitude)
  then show ?thesis using False by (simp add: ashr_val_def of_signed_def nat_diff_distrib zmod_minus1 nat_power_eq)
qed

lemma xor_sign:
  assumes "0 < w" "a < 2 ^ w"
  shows "xor (ashr_val w a (w - 1)) a = magnitude w a"
proof -
  have "and a (xor (mask w) a) = 0" "or a (xor (mask w) a) = mask w"
    by (rule bit_eqI, use bit_less_power [OF assms(2)] in \<open>auto simp: bit_simps\<close>)+
  then have "a + xor (mask w) a = mask w" by (metis disjunctive_add_eq_or)
  then have "xor (2 ^ w - 1) a = 2 ^ w - 1 - a" by (simp add: mask_eq_exp_minus_1)
  then show ?thesis by (simp add: ashr_sign [OF assms] magnitude_def)
qed

lemma signed_product_bit:
  assumes "to_signed w a * to_signed w b = int p" "k < n"
  shows "bit (of_signed n (to_signed w a) * of_signed n (to_signed w b) mod 2 ^ n) k = bit p k"
proof -
  have "int (of_signed n (to_signed w a) * of_signed n (to_signed w b) mod 2 ^ n) = int (p mod 2 ^ n)"
    by (simp add: of_signed_def zmod_int mod_mult_eq flip: assms(1))
  then have "of_signed n (to_signed w a) * of_signed n (to_signed w b) mod 2 ^ n = take_bit n p"
    by (simp only: of_nat_eq_iff take_bit_eq_mod)
  then show ?thesis using assms(2) by (simp add: bit_take_bit_iff)
qed

lemma smul_bits:
  assumes w: "1 < w" and ab: "a < 2 ^ w" "b < 2 ^ w"
  defines "m \<equiv> of_signed (w + 1) (to_signed w a) * of_signed (w + 1) (to_signed w b) mod 2 ^ (w + 1)"
  shows "bit a (w - 1) = bit b (w - 1) \<and>
      ((bit m w \<noteq> bit m (w - 1)) \<or> crossing (w - 1) (magnitude w a) (magnitude w b) (w - 1))
    \<longleftrightarrow> 2 ^ (w - 1) \<le> to_signed w a * to_signed w b"
proof -
  let ?A = "magnitude w a" and ?B = "magnitude w b" and ?k = "w - 1"
  have w': "0 < w" "Suc ?k = w" "0 < ?k" using w by simp_all
  note s = to_signed_magnitude [OF ab(1)] to_signed_magnitude [OF ab(2)] sign_bit [OF w'(1) ab(1)] sign_bit [OF w'(1) ab(2)]
  have AB: "?A < 2 ^ ?k" "?B < 2 ^ ?k" using magnitude_bound w'(1) ab by blast+
  show ?thesis
  proof (cases "bit a ?k = bit b ?k")
    case True
    define p where "p = (if bit a ?k then (?A + 1) * (?B + 1) else ?A * ?B)"
    have p: "to_signed w a * to_signed w b = int p"
    proof (cases "bit a ?k")
      case neg: True
      then have "to_signed w a = - int (?A + 1)" "to_signed w b = - int (?B + 1)" using True s by simp_all
      then show ?thesis using neg by (simp only: p_def minus_mult_minus if_True of_nat_mult)
    qed (use True s in \<open>simp add: p_def\<close>)
    have "?A * ?B \<le> p" by (simp add: p_def algebra_simps)
    then have "crossing ?k ?A ?B ?k \<longrightarrow> 2 ^ ?k \<le> p" using crossing_product order_trans by blast
    moreover have "\<not> crossing ?k ?A ?B ?k \<longrightarrow> p \<le> 2 ^ Suc ?k"
      using no_crossing_product [OF _ AB] w'(3) by (simp add: p_def less_imp_le)
    ultimately have "(bit p (Suc ?k) \<noteq> bit p ?k \<or> crossing ?k ?A ?B ?k) = (2 ^ ?k \<le> p)" by (rule product_bits)
    moreover have "bit m w = bit p w" "bit m ?k = bit p ?k" unfolding m_def using w by (simp_all add: signed_product_bit [OF p])
    moreover have "2 ^ ?k \<le> int p \<longleftrightarrow> 2 ^ ?k \<le> p" by (metis of_nat_le_iff of_nat_numeral of_nat_power)
    ultimately show ?thesis using True w'(2) p by simp
  next
    case False
    then have "to_signed w a * to_signed w b \<le> 0" using s by (auto simp: mult_le_0_iff)
    then show ?thesis using False by (auto simp: not_le intro: le_less_trans)
  qed
qed

locale ir_world =
  fixes S :: "('i, 'f, 'z) ctx_scheme" and E :: "'f senv"
  assumes world: "world_ok S E" and clz: "clz_law S"
begin

lemma exact_type: "exact S E w n x \<Longrightarrow> op_type x = Type Integer w \<and> 0 < w \<and> w < 2 ^ 24 \<and> n < 2 ^ w"
  using ivalsD [OF world, of w x] by (auto simp: exact_def is_i_def)

lemma fold_exact:
  assumes "is_i S w x" "ivals S E x \<subseteq> {n}" "fold_ok S E x" "in_bounds S x"
  shows "returns (constant_fold S x) (exact S E w n)"
proof -
  have x: "wt S x" using assms(1) by (simp add: is_i_def)
  obtain y where y: "constant_fold S x = Some y"
    using fold_depth_returns [OF world clz x assms(3,4), of "height x + 4"] by (auto simp: constant_fold_def)
  then have "refines S E y x"
    using sound_folderD [OF fold_depth_sound [OF world] x assms(3)] by (simp add: constant_fold_def)
  then have "is_i S w y" "ivals S E y \<subseteq> {n}" using refines_int [OF world assms(1)] assms(2) by auto
  moreover have "ivals S E y \<noteq> {}" using ivalsD(3) [OF world] calculation(1) by blast
  ultimately show ?thesis using y by (auto simp: returns_def exact_def)
qed

lemma binop_exact:
  assumes "c \<in> int_ops" "exact S E w a l" "exact S E w b r" "int_sem c w a b = {n}"
  shows "returns (create_int_binop (constant_fold S) c l r) (exact S E w n)"
proof -
  have i: "is_i S w l" "is_i S w r" using assms(2,3) by (simp_all add: exact_def)
  have "is_i S w (int_node c w [l, r])" "ivals S E (int_node c w [l, r]) \<subseteq> {n}"
    using int_binop_node [OF world assms(1) i] assms(2-4) by (simp_all add: exact_def)
  moreover have "fold_ok S E (int_node c w [l, r])" "in_bounds S (int_node c w [l, r])"
    using assms(1) by (auto simp: fold_ok_def in_bounds_def int_ops_def)
  ultimately show ?thesis unfolding create_binop [OF assms(1) i] by (rule fold_exact)
qed

lemma unary_exact:
  assumes "exact S E w a x" "widths_ok c w n" "w \<noteq> n \<or> c = Not"
  shows "returns (CreateUnary (constant_fold S) c x (Type Integer n)) (exact S E n (unary_sem c w n a))"
proof -
  have i: "is_i S w x" "ivals S E x = {a}" and c: "c \<in> {Not, Trunc, ZExt, SExt}"
    using assms(1) widths_ok_opcode [OF assms(2)] by (simp_all add: exact_def)
  have "is_i S n (int_node c n [x])" "ivals S E (int_node c n [x]) \<subseteq> {unary_sem c w n a}"
    using unary_node [OF world i(1) assms(2)] i(2) by simp_all
  moreover have "fold_ok S E (int_node c n [x])" "in_bounds S (int_node c n [x])"
    using c assms(3) i(1) by (auto simp: fold_ok_def in_bounds_def is_i_def)
  ultimately have "returns (constant_fold S (int_node c n [x])) (exact S E n (unary_sem c w n a))" by (rule fold_exact)
  then show ?thesis
    using c by (auto simp: CreateUnary_def opcode_num_low mk_operation_def opcode_num_nargs int_node_def)
qed

lemma const_exact:
  assumes "ap_width S i = w" "0 < w" "w < 2 ^ 24"
  shows "returns (CreateConstantInt S (constant_fold S) i) (exact S E w (ap_val S i))"
proof -
  have "CreateConstantInt S cf i = cf (const_node S i)" for cf
    using assms by (simp add: CreateConstantInt_def mk_constant_int_data_def type_of_apint_def int_ty_Some
        mk_operation_def opcode_num_nargs const_node_def)
  moreover have "is_i S w (const_node S i)" "ivals S E (const_node S i) = {ap_val S i}"
    using const_node [OF world, of i] assms by simp_all
  moreover have "fold_ok S E (const_node S i)" "in_bounds S (const_node S i)"
    by (simp_all add: fold_ok_def in_bounds_def const_node_def op_opcode_def)
  ultimately show ?thesis using fold_exact by simp
qed

lemma icmp_exact:
  assumes "exact S E w a l" "exact S E w b r"
  shows "returns (CreateICmp (constant_fold S) p l r) (exact S E 1 (truth (icmp_sem p w a b)))"
proof -
  have i: "is_i S w l" "is_i S w r" using assms by (simp_all add: exact_def)
  have "CreateICmp cf p l r = cf (int_node (ICmp p) 1 [l, r])" for cf
    using i by (simp add: CreateICmp_def int_ty_Some mk_operation_def opcode_num_nargs int_node_def is_i_def is_int_def)
  moreover have "is_i S 1 (int_node (ICmp p) 1 [l, r])"
      "ivals S E (int_node (ICmp p) 1 [l, r]) \<subseteq> {truth (icmp_sem p w a b)}"
    using icmp_node [OF world i] assms by (auto simp: exact_def)
  moreover have "fold_ok S E (int_node (ICmp p) 1 [l, r])" "in_bounds S (int_node (ICmp p) 1 [l, r])"
    by (simp_all add: fold_ok_def in_bounds_def)
  ultimately show ?thesis using fold_exact by simp
qed

lemma binop_const_exact:
  assumes "c \<in> int_ops" "exact S E w a l" "k < w" "int_sem c w a k = {n}"
  shows "returns (create_binop_const_rhs S (constant_fold S) c l (int k)) (exact S E w n)"
proof -
  note t = exact_type [OF assms(2)]
  have k: "k < 2 ^ w" using assms(3) less_trans [OF _ less_exp] by blast
  then have v: "ap_val S (ap_make_signed S w (int k)) = k" "ap_width S (ap_make_signed S w (int k)) = w"
    using apint_lawsD(4,5) [OF world_okD(3) [OF world], of w] t by (simp_all add: of_signed_def)
  then have "returns (CreateConstantInt S (constant_fold S) (ap_make_signed S w (int k))) (exact S E w k)"
    using const_exact [OF v(2)] t by simp
  then show ?thesis
    using t binop_exact [OF assms(1,2) _ assms(4)]
    by (auto simp: create_binop_const_rhs_def is_int_def bitwidth_int intro: returns_bind)
qed

lemma extract_bit_exact:
  assumes "exact S E w a x" "1 < w" "k < w"
  shows "returns (extract_bit S (constant_fold S) x k) (exact S E 1 (truth (bit a k)))"
proof -
  note t = exact_type [OF assms(1)]
  have "returns (create_binop_const_rhs S (constant_fold S) LShr x (int k)) (exact S E w (drop_bit k a))"
    by (rule binop_const_exact [OF _ assms(1,3)]) simp_all
  moreover have "returns (CreateTrunc (constant_fold S) (Type Integer 1) y) (exact S E 1 (truth (bit a k)))"
    if y: "exact S E w (drop_bit k a) y" for y
  proof -
    have "drop_bit k a mod 2 ^ 1 = truth (bit a k)" by (simp add: truth_def bit_iff_odd_drop_bit odd_iff_mod_2_eq_one)
    then have "returns (CreateUnary (constant_fold S) Trunc y (Type Integer 1)) (exact S E 1 (truth (bit a k)))"
      using unary_exact [OF y, of Trunc 1] assms(2) by (simp add: widths_ok_def)
    then show ?thesis using exact_type [OF y] assms(2) by (simp add: CreateTrunc_def is_int_def bitwidth_int)
  qed
  ultimately show ?thesis
    using t assms(3) by (auto simp: extract_bit_def is_int_def bitwidth_int int_ty_Some intro: returns_bind)
qed

lemma bool_op_exact:
  "exact S E 1 (truth p) l \<Longrightarrow> exact S E 1 (truth q) r \<Longrightarrow> returns (CreateAnd (constant_fold S) l r) (exact S E 1 (truth (p \<and> q)))"
  "exact S E 1 (truth p) l \<Longrightarrow> exact S E 1 (truth q) r \<Longrightarrow> returns (CreateOr (constant_fold S) l r) (exact S E 1 (truth (p \<or> q)))"
  "exact S E 1 (truth p) l \<Longrightarrow> exact S E 1 (truth q) r \<Longrightarrow> returns (CreateXor (constant_fold S) l r) (exact S E 1 (truth (p \<noteq> q)))"
  by (simp_all add: CreateAnd_def CreateOr_def CreateXor_def binop_exact)

text \<open>The loop over \<open>j, \<dots>, m - 1\<close>, entered with what the iterations before it computed.\<close>

lemma umul_loop_exact:
  assumes "exact S E w a x" "exact S E w b y" "1 < w" "m \<le> w"
  shows "1 < j \<Longrightarrow> j \<le> m \<Longrightarrow> exact S E 1 (truth (2 ^ (Suc m - j) \<le> a)) ov \<Longrightarrow> exact S E 1 (truth (crossing m a b j)) v \<Longrightarrow>
    returns (umul_loop S (constant_fold S) x y m [j..<m] ov v) (exact S E 1 (truth (crossing m a b m)))"
proof (induction "m - j" arbitrary: j ov v)
  case 0
  then show ?case by simp
next
  case (Suc d)
  then have j: "j < m" "[j..<m] = j # [Suc j..<m]" by (simp_all add: upt_conv_Cons)
  have lt: "m - j < w" "j < w" using j(1) Suc.prems(1) assms(4) by simp_all
  have "Suc m - j = Suc (m - j)" using j(1) by simp
  then have o': "(2 ^ (Suc m - j) \<le> a \<or> bit a (m - j)) = (2 ^ (m - j) \<le> a)" by (simp only: two_power_step [of "m - j" a])
  have v': "crossing m a b (Suc j) \<longleftrightarrow> crossing m a b j \<or> 2 ^ (m - j) \<le> a \<and> bit b j"
    using crossing_Suc [of j] Suc.prems(1) by auto
  show ?case
    unfolding j(2) umul_loop.simps
  proof (rule returns_bind [OF extract_bit_exact [OF assms(1,3) lt(1)]],
      rule returns_bind [OF bool_op_exact(2) [OF Suc.prems(3), unfolded o']], assumption, unfold o',
      rule returns_bind [OF extract_bit_exact [OF assms(2,3) lt(2)]],
      rule returns_bind [OF bool_op_exact(1)], assumption, assumption,
      rule returns_bind [OF bool_op_exact(2) [OF Suc.prems(4)]], assumption)
    fix ai ov' bi c v''
    assume "exact S E 1 (truth (2 ^ (m - j) \<le> a)) ov'"
      and "exact S E 1 (truth (crossing m a b j \<or> 2 ^ (m - j) \<le> a \<and> bit b j)) v''"
    then show "returns (umul_loop S (constant_fold S) x y m [Suc j..<m] ov' v'') (exact S E 1 (truth (crossing m a b m)))"
      using Suc.hyps(1) [of "Suc j" ov' v''] Suc.hyps(2) Suc.prems(1) j(1) v' by simp
  qed
qed

lemma circuit_start:
  assumes "exact S E w a x" "exact S E w b y" "1 < w" "1 < m" "m \<le> w" "a < 2 ^ m"
  shows "returns (extract_bit S (constant_fold S) x (m - 1)) (exact S E 1 (truth (2 ^ (Suc m - 2) \<le> a)))"
    and "exact S E 1 (truth (2 ^ (Suc m - 2) \<le> a)) t \<Longrightarrow> exact S E 1 (truth (bit b 1)) u \<Longrightarrow>
      returns (CreateAnd (constant_fold S) t u) (exact S E 1 (truth (crossing m a b 2)))"
proof -
  have "bit a (m - 1) \<longleftrightarrow> 2 ^ (m - 1) \<le> a" using sign_bit [OF _ assms(6)] assms(4) by (simp add: not_less)
  moreover have "Suc m - 2 = m - 1" using assms(4) by simp
  ultimately show "returns (extract_bit S (constant_fold S) x (m - 1)) (exact S E 1 (truth (2 ^ (Suc m - 2) \<le> a)))"
    using extract_bit_exact [OF assms(1,3), of "m - 1"] assms(4,5) by simp
  have "{1..<2} = {1 :: nat}" by auto
  then have "crossing m a b 2 \<longleftrightarrow> 2 ^ (Suc m - 2) \<le> a \<and> bit b 1" by (simp add: crossing_def) blast
  then show "exact S E 1 (truth (2 ^ (Suc m - 2) \<le> a)) t \<Longrightarrow> exact S E 1 (truth (bit b 1)) u \<Longrightarrow>
      returns (CreateAnd (constant_fold S) t u) (exact S E 1 (truth (crossing m a b 2)))"
    using bool_op_exact(1) by simp
qed

lemma ext_exact:
  assumes "exact S E w a x" "w < n" "n < 2 ^ 24"
  shows "returns (CreateZExt (constant_fold S) (Type Integer n) x) (exact S E n a)"
    and "returns (CreateSExt (constant_fold S) (Type Integer n) x) (exact S E n (of_signed n (to_signed w a)))"
  using unary_exact [OF assms(1), of ZExt n] unary_exact [OF assms(1), of SExt n] exact_type [OF assms(1)] assms(2,3)
  by (simp_all add: CreateZExt_def CreateSExt_def is_int_def bitwidth_int widths_ok_def)

lemma umul_overflow_exact:
  assumes a: "exact S E w a x" and b: "exact S E w b y" and w: "w + 1 < 2 ^ 24"
  shows "returns (CreateUMulOverflow S (constant_fold S) x y) (exact S E 1 (truth (2 ^ w \<le> a * b)))"
proof -
  note t = exact_type [OF a] exact_type [OF b]
  show ?thesis
  proof (cases "w < 2")
    case True
    then have "w = 1" using t by auto
    moreover from this have "a = 0 \<or> a = 1" "b = 0 \<or> b = 1" using t by auto
    ultimately have "\<not> 2 ^ w \<le> a * b" by auto
    moreover have "returns (CreateBool S (constant_fold S) False) (exact S E 1 (truth False))"
      using const_exact [of "ap_make S 1 0" 1] apint_lawsD(2,3) [OF world_okD(3) [OF world], of 1 0]
      by (simp add: CreateBool_def truth_def)
    ultimately show ?thesis using True t by (simp add: CreateUMulOverflow_def is_int_def bitwidth_int)
  next
    case False
    then have w2: "1 < w" "2 \<le> w" "w \<le> w" "1 < w + 1" "w < w + 1" by simp_all
    note C = circuit_start [OF a b w2(1,1,3)]
    have "returns (umul_loop S (constant_fold S) x y w [2..<w] ov v) (exact S E 1 (truth (crossing w a b w)))"
      if "exact S E 1 (truth (2 ^ (Suc w - 2) \<le> a)) ov" "exact S E 1 (truth (crossing w a b 2)) v" for ov v
      using umul_loop_exact [OF a b w2(1,3) _ w2(2)] that by simp
    note L = this
    have M: "returns (CreateMul (constant_fold S) za zb) (exact S E (w + 1) (a * b mod 2 ^ (w + 1)))"
      if "exact S E (w + 1) a za" "exact S E (w + 1) b zb" for za zb
      using binop_exact [OF _ that] by (simp add: CreateMul_def)
    show ?thesis
      using False t w
      apply (simp add: CreateUMulOverflow_def is_int_def bitwidth_int int_ty_Some)
      apply (rule returns_bind [OF C(1)], fast)
      apply (rule returns_bind [OF C(1)], fast)
      apply (rule returns_bind [OF extract_bit_exact [OF b w2(1,1)]])
      apply (rule returns_bind [OF C(2)], fast, assumption, assumption)
      apply (rule returns_bind [OF L], assumption, assumption)
      apply (rule returns_bind [OF ext_exact(1) [OF a w2(5)]], simp)
      apply (rule returns_bind [OF ext_exact(1) [OF b w2(5)]], simp)
      apply (rule returns_bind [OF M], assumption, assumption)
      apply (rule returns_bind [OF extract_bit_exact [OF _ w2(4,5)]], assumption)
      apply (subst umul_bits [symmetric])
        apply simp_all
      apply (rule bool_op_exact(2))
       apply simp_all
      done
  qed
qed

lemma smul_loop_umul: "smul_loop S cf ax bx w is = umul_loop S cf ax bx (w - 1) is"
proof (induction "is")
  case (Cons i "is")
  have "w - i - 1 = w - 1 - i" by simp
  then show ?case by (intro ext) (simp only: smul_loop.simps umul_loop.simps Cons.IH)
qed (intro ext, simp)

lemma smul_circuit:
  assumes a: "exact S E w a x" "a < 2 ^ (w - 1)" and b: "exact S E w b y" "b < 2 ^ (w - 1)" and w: "1 < w"
    and k: "\<And>v. exact S E 1 (truth (crossing (w - 1) a b (w - 1))) v \<Longrightarrow> returns (k v) Q"
  shows "returns (do {
      ov \<leftarrow> extract_bit S (constant_fold S) x (w - 2);
      top \<leftarrow> extract_bit S (constant_fold S) x (w - 2);
      b1 \<leftarrow> extract_bit S (constant_fold S) y 1;
      v \<leftarrow> CreateAnd (constant_fold S) top b1;
      v' \<leftarrow> smul_loop S (constant_fold S) x y w [2..<w - 1] ov v;
      k v' }) Q"
proof (cases "w = 2")
  case True
  have lt: "w - 2 < w" "1 < w" using w by simp_all
  have "\<not> bit b 1" using bit_below [of b 1] b(2) True by simp
  moreover have "\<not> crossing (w - 1) a b (w - 1)" using True by (simp add: crossing_def)
  ultimately have c: "(p \<and> bit b 1) = crossing (w - 1) a b (w - 1)" for p by simp
  show ?thesis
    apply (rule returns_bind [OF extract_bit_exact [OF a(1) w lt(1)]])
    apply (rule returns_bind [OF extract_bit_exact [OF a(1) w lt(1)]])
    apply (rule returns_bind [OF extract_bit_exact [OF b(1) w lt(2)]])
    apply (rule returns_bind [OF bool_op_exact(1) [unfolded c]], assumption, assumption)
    using k True by (simp add: c)
next
  case False
  then have m: "1 < w - 1" "w - 1 \<le> w" "2 \<le> w - 1" "w - 2 = w - 1 - 1" using w by simp_all
  note C = circuit_start [OF a(1) b(1) w m(1,2) a(2)]
  show ?thesis
    unfolding m(4) smul_loop_umul
    apply (rule returns_bind [OF C(1)])
    apply (rule returns_bind [OF C(1)])
    apply (rule returns_bind [OF extract_bit_exact [OF b(1) w w]])
    apply (rule returns_bind [OF C(2)], assumption, assumption)
    by (rule returns_bind [OF umul_loop_exact [OF a(1) b(1) w m(2) _ m(3)]]) (simp_all add: k)
qed

lemma magnitude_exact:
  assumes "exact S E w a x" "1 < w" and k: "\<And>m. exact S E w (magnitude w a) m \<Longrightarrow> returns (k m) Q"
  shows "returns (do {
      s \<leftarrow> create_binop_const_rhs S (constant_fold S) AShr x (int w - 1);
      m \<leftarrow> CreateXor (constant_fold S) s x;
      k m }) Q"
proof -
  have "returns (create_binop_const_rhs S (constant_fold S) AShr x (int (w - 1))) (exact S E w (ashr_val w a (w - 1)))"
    by (rule binop_const_exact [OF _ assms(1)]) (use assms(2) in simp_all)
  moreover have "int (w - 1) = int w - 1" using assms(2) by simp
  moreover have "returns (CreateXor (constant_fold S) s x) (exact S E w (magnitude w a))"
    if "exact S E w (ashr_val w a (w - 1)) s" for s
    using binop_exact [OF _ that assms(1), of Xor] xor_sign [of w a] exact_type [OF assms(1)] by (simp add: CreateXor_def)
  ultimately show ?thesis using k by (auto intro!: returns_bind simp del: of_nat_diff)
qed

lemma smul_overflow_exact:
  assumes a: "exact S E w a x" and b: "exact S E w b y" and w: "w + 1 < 2 ^ 24"
  shows "returns (CreateSMulOverflow S (constant_fold S) x y)
    (exact S E 1 (truth (2 ^ (w - 1) \<le> to_signed w a * to_signed w b)))"
proof -
  note t = exact_type [OF a] exact_type [OF b]
  show ?thesis
  proof (cases "w < 2")
    case True
    then have w1: "w = 1" using t by auto
    then have "a = 0 \<or> a = 1" "b = 0 \<or> b = 1" using t by auto
    then have "truth (2 ^ (w - 1) \<le> to_signed w a * to_signed w b) = and a b"
      using w1 by (auto simp: to_signed_def truth_def)
    moreover have "returns (CreateAnd (constant_fold S) x y) (exact S E w (and a b))"
      using binop_exact [OF _ a b, of And] by (simp add: CreateAnd_def)
    ultimately show ?thesis using True t w1 by (simp add: CreateSMulOverflow_def is_int_def bitwidth_int)
  next
    case False
    then have w2: "1 < w" "w - 1 < w" "1 < w + 1" "w < w + 1" "w - 1 < w + 1" by simp_all
    define m where "m = of_signed (w + 1) (to_signed w a) * of_signed (w + 1) (to_signed w b) mod 2 ^ (w + 1)"
    have M: "returns (CreateMul (constant_fold S) za zb) (exact S E (w + 1) m)"
      if "exact S E (w + 1) (of_signed (w + 1) (to_signed w a)) za" "exact S E (w + 1) (of_signed (w + 1) (to_signed w b)) zb" for za zb
      using binop_exact [OF _ that] by (simp add: CreateMul_def m_def)
    have bound: "magnitude w a < 2 ^ (w - 1)" "magnitude w b < 2 ^ (w - 1)" using magnitude_bound t by simp_all
    have final: "(bit a (w - 1) = bit b (w - 1)) \<and>
          ((bit m w \<noteq> bit m (w - 1)) \<or> crossing (w - 1) (magnitude w a) (magnitude w b) (w - 1))
        \<longleftrightarrow> 2 ^ (w - 1) \<le> to_signed w a * to_signed w b"
      using smul_bits [OF w2(1)] t by (simp add: m_def)
    show ?thesis
      using False t w
      apply (simp add: CreateSMulOverflow_def is_int_def bitwidth_int int_ty_Some flip: final)
      apply (rule magnitude_exact [OF a w2(1)], rule magnitude_exact [OF b w2(1)])
      apply (rule smul_circuit [OF _ bound(1) _ bound(2) w2(1)], assumption, assumption)
      apply (rule returns_bind [OF extract_bit_exact [OF a w2(1,2)]])
      apply (rule returns_bind [OF extract_bit_exact [OF b w2(1,2)]])
      apply (rule returns_bind [OF icmp_exact], assumption, assumption)
      apply (rule returns_bind [OF ext_exact(2) [OF a w2(4)]], simp)
      apply (rule returns_bind [OF ext_exact(2) [OF b w2(4)]], simp)
      apply (rule returns_bind [OF M], assumption, assumption)
      apply (rule returns_bind [OF extract_bit_exact [OF _ w2(3,4)]], assumption)
      apply (rule returns_bind [OF extract_bit_exact [OF _ w2(3,5)]], assumption)
      apply (rule returns_bind [OF bool_op_exact(3)], assumption, assumption)
      apply (rule returns_bind [OF bool_op_exact(2)], assumption, assumption)
      apply (simp add: bool_op_exact(1))
      done
  qed
qed

end

interpretation reference: ir_world ref_ctx default_env
  by unfold_locales (rule default_world ref_ctx_clz)+

section \<open>The circuits\<close>

lemma exact_beh:
  assumes "world_ok S E"
  shows "exact S E w n x \<longleftrightarrow> wt S x \<and> op_type x = Type Integer w \<and> beh S E x = {SInt w n}"
proof -
  have "beh S E x = {SInt w n} \<longleftrightarrow> ivals S E x = {n}" if i: "is_i S w x"
  proof -
    have "beh S E x = SInt w ` ivals S E x" by (rule ivalsD(5) [OF assms i])
    moreover have "SInt w ` A = {SInt w n} \<longleftrightarrow> A = {n}" for A
      using inj_image_eq_iff [of "SInt w" A "{n}"] by (simp add: inj_def)
    ultimately show ?thesis by simp
  qed
  then show ?thesis by (auto simp: exact_def is_i_def)
qed

text \<open>
  C13: the circuit built by \<^verbatim>\<open>CreateUMulOverflow\<close> for two operands of width \<open>w\<close> that have the values \<open>a\<close>
  and \<open>b\<close> is built without failing an assertion and has exactly one value, which is 1 if and only if
  the product \<open>a * b\<close> does not fit into \<open>w\<close> bits. Every node of the circuit has passed through the
  simplifier.
\<close>

theorem umul_overflow_correct:
  assumes "world_ok S E" "clz_law S" "w + 1 < 2 ^ 24"
    and "wt S x" "op_type x = Type Integer w" "beh S E x = {SInt w a}"
    and "wt S y" "op_type y = Type Integer w" "beh S E y = {SInt w b}"
  shows "\<exists>r. CreateUMulOverflow S (constant_fold S) x y = Some r \<and> beh S E r = {SInt 1 (if 2 ^ w \<le> a * b then 1 else 0)}"
proof -
  have "ir_world S E" using assms(1,2) by (rule ir_world.intro)
  moreover have "exact S E w a x" "exact S E w b y" using assms by (simp_all add: exact_beh)
  ultimately have "returns (CreateUMulOverflow S (constant_fold S) x y) (exact S E 1 (truth (2 ^ w \<le> a * b)))"
    using assms(3) by (intro ir_world.umul_overflow_exact)
  then show ?thesis using assms(1) by (auto simp: returns_def exact_beh truth_def)
qed

lemma byte_const_exact:
  assumes "n < 256"
  shows "wt ref_ctx (byte_const n) \<and> op_type (byte_const n) = Type Integer 8 \<and> beh ref_ctx E (byte_const n) = {SInt 8 n}"
  using assms by (simp add: byte_const_def op_type_def type_of_apint_def int_ty_eq_Some ref_eval)

lemma umul_overflow_correct_witness:
  "\<exists>r. CreateUMulOverflow ref_ctx (constant_fold ref_ctx) (byte_const 200) (byte_const 2) = Some r
     \<and> beh ref_ctx default_env r = {SInt 1 1}"
  using umul_overflow_correct [OF default_world ref_ctx_clz, of 8 "byte_const 200" 200 "byte_const 2" 2]
    byte_const_exact [of 200] byte_const_exact [of 2] by simp

text \<open>
  C18: the circuit built by \<^verbatim>\<open>CreateSMulOverflow\<close> is built without failing an assertion and has exactly
  one value, which is 1 if and only if the signed product is at least \<open>2 ^ (w - 1)\<close>. A product below
  \<open>- 2 ^ (w - 1)\<close> is not reported.
\<close>

theorem smul_overflow_detects_upper:
  assumes "world_ok S E" "clz_law S" "w + 1 < 2 ^ 24"
    and "wt S x" "op_type x = Type Integer w" "beh S E x = {SInt w a}"
    and "wt S y" "op_type y = Type Integer w" "beh S E y = {SInt w b}"
  shows "\<exists>r. CreateSMulOverflow S (constant_fold S) x y = Some r
    \<and> beh S E r = {SInt 1 (if 2 ^ (w - 1) \<le> to_signed w a * to_signed w b then 1 else 0)}"
proof -
  have "ir_world S E" using assms(1,2) by (rule ir_world.intro)
  moreover have "exact S E w a x" "exact S E w b y" using assms by (simp_all add: exact_beh)
  ultimately have "returns (CreateSMulOverflow S (constant_fold S) x y)
      (exact S E 1 (truth (2 ^ (w - 1) \<le> to_signed w a * to_signed w b)))"
    using assms(3) by (intro ir_world.smul_overflow_exact)
  then show ?thesis using assms(1) by (auto simp: returns_def exact_beh truth_def)
qed

lemma smul_overflow_detects_upper_witness:
  "\<exists>r. CreateSMulOverflow ref_ctx (constant_fold ref_ctx) (byte_const 128) (byte_const 255) = Some r
     \<and> beh ref_ctx default_env r = {SInt 1 1}"
  using smul_overflow_detects_upper [OF default_world ref_ctx_clz, of 8 "byte_const 128" 128 "byte_const 255" 255]
    byte_const_exact [of 128] byte_const_exact [of 255] by (simp add: to_signed_def)


end
