(* ===== verification/Assertion_List.thy ===== *)
theory Assertion_List
  imports IR_Fold_Total Sparse_Vector
begin

text \<open>
  Assertions and the list of assertions that a solver is given: \<^verbatim>\<open>Assertion\<close> (src/IR/Assertion.cpp) and
  \<^verbatim>\<open>AssertionList\<close> (src/Model/AssertionList.cpp), which keeps a sparse vector, a set for lookups and the
  position up to which the assertions have been proven satisfiable. References are compared by
  \<open>same_ref\<close>, the equality of pointers; \<open>None\<close> is an abort or an exception.
\<close>

declare One_nat_def [simp del]

section \<open>Assertions\<close>

type_synonym ('i, 'f) assertion = "('i, 'f) op"

definition mk_assertion :: "('i, 'f) op \<Rightarrow> ('i, 'f) assertion option" where
  "mk_assertion x = do { b \<leftarrow> int_ty 1; ensure (op_type x = b); Some x }"

definition assertion_constant :: "('i, 'f, 'z) llvm_scheme \<Rightarrow> ('i, 'f) folder \<Rightarrow> bool \<Rightarrow> ('i, 'f) assertion option" where
  "assertion_constant L cf b = do { x \<leftarrow> CreateConstantInt L cf (ap_make L 1 (if b then 1 else 0)); mk_assertion x }"

definition assertion_empty :: "('i, 'f, 'z) llvm_scheme \<Rightarrow> ('i, 'f) folder \<Rightarrow> ('i, 'f) assertion option" where
  "assertion_empty L cf = assertion_constant L cf True"

definition is_constant_value :: "('i, 'f, 'z) llvm_scheme \<Rightarrow> ('i, 'f) assertion \<Rightarrow> bool \<Rightarrow> bool" where
  "is_constant_value L a b = (case as_const_int a of Some i \<Rightarrow> ap_eq_u64 L i (if b then 1 else 0) | None \<Rightarrow> False)"

definition assertion_not :: "('i, 'f) folder \<Rightarrow> ('i, 'f) assertion \<Rightarrow> ('i, 'f) assertion option" where
  "assertion_not cf a = do { x \<leftarrow> CreateNot cf a; mk_assertion x }"

definition assertion_eq :: "('i, 'f, 'z) ctx_scheme \<Rightarrow> ('i, 'f) assertion \<Rightarrow> ('i, 'f) assertion \<Rightarrow> bool" where
  "assertion_eq S a b = same_ref S a b"

section \<open>The list\<close>

record ('i, 'f) assertion_list =
  al_list :: "('i, 'f) assertion sparse_vector"
  al_lookup :: "('i, 'f) assertion list"
  al_mark :: nat

definition al_empty :: "('i, 'f) assertion_list" where
  "al_empty = \<lparr>al_list = sv_empty, al_lookup = [], al_mark = 0\<rparr>"

definition al_size :: "('i, 'f) assertion_list \<Rightarrow> nat" where
  "al_size al = length (al_lookup al)"

definition al_is_empty :: "('i, 'f) assertion_list \<Rightarrow> bool" where
  "al_is_empty al \<longleftrightarrow> al_size al = 0"

definition al_get :: "('i, 'f) assertion_list \<Rightarrow> nat \<Rightarrow> ('i, 'f) assertion option" where
  "al_get al i = result_option (sv_get (al_list al) i)"

definition al_clear :: "('i, 'f) assertion_list \<Rightarrow> ('i, 'f) assertion_list" where
  "al_clear al = al\<lparr>al_list := sv_clear (al_list al), al_lookup := [], al_mark := 0\<rparr>"

definition mark_sat :: "('i, 'f) assertion_list \<Rightarrow> ('i, 'f) assertion_list" where
  "mark_sat al = (let v = compress (al_list al) in al\<lparr>al_list := v, al_mark := size_of v\<rparr>)"

definition al_contains :: "('i, 'f, 'z) ctx_scheme \<Rightarrow> ('i, 'f) assertion_list \<Rightarrow> ('i, 'f) assertion \<Rightarrow> bool" where
  "al_contains S al a \<longleftrightarrow> list_ex (assertion_eq S a) (al_lookup al)"

definition al_push :: "('i, 'f) assertion \<Rightarrow> ('i, 'f) assertion_list \<Rightarrow> ('i, 'f) assertion_list" where
  "al_push a al = al\<lparr>al_list := fst (emplace_back a (al_list al)), al_lookup := a # al_lookup al\<rparr>"

text \<open>\<^verbatim>\<open>matches(op, Not(Or(lhs, rhs)))\<close>\<close>

definition match_not_or :: "('i, 'f) op \<Rightarrow> (('i, 'f) op \<times> ('i, 'f) op) option" where
  "match_not_or x = (case match_unop Not x of Some y \<Rightarrow> match_binop Or y | None \<Rightarrow> None)"

text \<open>
  The loop of \<^verbatim>\<open>insert\<close> for the assertion \<open>a\<close>; the list is the stack \<^verbatim>\<open>decomposed\<close>, its top first, and \<open>n\<close>
  bounds the number of iterations.
\<close>

fun insert_loop :: "('i, 'f, 'z) ctx_scheme \<Rightarrow> ('i, 'f) folder \<Rightarrow> ('i, 'f) assertion \<Rightarrow> nat \<Rightarrow> ('i, 'f) op list \<Rightarrow>
    ('i, 'f) assertion_list \<Rightarrow> ('i, 'f) assertion_list option" where
  "insert_loop S cf a n [] al = Some al"
| "insert_loop S cf a 0 (x # st) al = None"
| "insert_loop S cf a (Suc n) (x # st) al =
     (case match_binop And x of
        Some (l, r) \<Rightarrow> insert_loop S cf a n (r # l # st) al
      | None \<Rightarrow>
          (case match_not_or x of
             Some (l, r) \<Rightarrow> do { l' \<leftarrow> CreateNot cf l; r' \<leftarrow> CreateNot cf r; insert_loop S cf a n (r' # l' # st) al }
           | None \<Rightarrow>
               if is_constant_value S a True then insert_loop S cf a n st al
               else do {
                 b \<leftarrow> mk_assertion x;
                 if al_contains S al b then insert_loop S cf a n st al
                 else insert_loop S cf a n st (al_push b al) }))"

text \<open>A node of height \<open>h\<close> is decomposed in at most \<open>3 ^ h\<close> iterations.\<close>

fun al_insert :: "('i, 'f, 'z) ctx_scheme \<Rightarrow> ('i, 'f) folder \<Rightarrow> ('i, 'f) assertion list \<Rightarrow>
    ('i, 'f) assertion_list \<Rightarrow> ('i, 'f) assertion_list option" where
  "al_insert S cf [] al = Some al"
| "al_insert S cf (a # as) al = do { al' \<leftarrow> insert_loop S cf a (3 ^ height a) [a] al; al_insert S cf as al' }"

definition al_of_list :: "('i, 'f, 'z) ctx_scheme \<Rightarrow> ('i, 'f) folder \<Rightarrow> ('i, 'f) assertion list \<Rightarrow> ('i, 'f) assertion_list option" where
  "al_of_list S cf as = al_insert S cf as al_empty"

definition al_erase :: "('i, 'f, 'z) ctx_scheme \<Rightarrow> nat \<Rightarrow> ('i, 'f) assertion_list \<Rightarrow> ('i, 'f) assertion_list option" where
  "al_erase S i al = do {
     a \<leftarrow> al_get al i;
     v \<leftarrow> result_option (sv_erase i (al_list al));
     Some (al\<lparr>al_list := v, al_lookup := filter (\<lambda>b. \<not> assertion_eq S a b) (al_lookup al)\<rparr>) }"

definition checkpoint :: "('i, 'f) assertion_list \<Rightarrow> nat" where
  "checkpoint al = sv_end (al_list al)"

text \<open>\<^verbatim>\<open>auto it = list_.iterator_at(i); if (it != end && !it.valid()) ++it;\<close>\<close>

definition valid_from :: "'a sparse_vector \<Rightarrow> nat \<Rightarrow> nat option" where
  "valid_from v i = do {
     it \<leftarrow> result_option (iterator_at v i);
     if it = sv_end v then Some it
     else do { ok \<leftarrow> result_option (sv_valid v it); Some (if ok then it else sv_next v it) } }"

fun erase_positions :: "('i, 'f, 'z) ctx_scheme \<Rightarrow> nat list \<Rightarrow> ('i, 'f) assertion_list \<Rightarrow> ('i, 'f) assertion_list option" where
  "erase_positions S [] al = Some al"
| "erase_positions S (i # is) al = do { al' \<leftarrow> al_erase S i al; erase_positions S is al' }"

definition restore :: "('i, 'f, 'z) ctx_scheme \<Rightarrow> nat \<Rightarrow> ('i, 'f) assertion_list \<Rightarrow> ('i, 'f) assertion_list option" where
  "restore S cp al = do { it \<leftarrow> valid_from (al_list al) cp; erase_positions S (sv_iterate (al_list al) it) al }"

text \<open>
  The ranges \<^verbatim>\<open>unproven()\<close> and \<^verbatim>\<open>proven()\<close>: the positions that a loop over them visits, stopping where the
  iterator equals the end of the range.
\<close>

definition unproven :: "('i, 'f) assertion_list \<Rightarrow> nat list option" where
  "unproven al = do { it \<leftarrow> valid_from (al_list al) (al_mark al); Some (sv_iterate (al_list al) it) }"

definition proven :: "('i, 'f) assertion_list \<Rightarrow> nat list option" where
  "proven al = do {
     it \<leftarrow> valid_from (al_list al) (al_mark al);
     Some (takeWhile (\<lambda>i. i \<noteq> it) (sv_iterate (al_list al) (sv_begin (al_list al)))) }"

section \<open>Meaning and invariant\<close>

definition holds :: "('i, 'f, 'z) ctx_scheme \<Rightarrow> 'f senv \<Rightarrow> ('i, 'f) op \<Rightarrow> bool" where
  "holds S E x \<longleftrightarrow> beh S E x = {SInt 1 1}"

definition elems :: "('i, 'f) assertion_list \<Rightarrow> ('i, 'f) assertion list" where
  "elems al = sv_list (al_list al)"

definition al_models :: "('i, 'f, 'z) ctx_scheme \<Rightarrow> ('i, 'f) assertion_list \<Rightarrow> 'f senv set" where
  "al_models S al = {E. world_ok S E \<and> (\<forall>x\<in>set (elems al). holds S E x)}"

text \<open>Structurally equal nodes share one address: what \<^verbatim>\<open>OperationCache\<close> is for.\<close>

definition hash_consed :: "('i, 'f, 'z) ctx_scheme \<Rightarrow> bool" where
  "hash_consed S \<longleftrightarrow> (\<forall>x y. same_ref S x y \<longleftrightarrow> x = y)"

definition al_wf :: "('i, 'f, 'z) ctx_scheme \<Rightarrow> ('i, 'f) assertion_list \<Rightarrow> bool" where
  "al_wf S al \<longleftrightarrow> set (al_lookup al) = set (elems al) \<and> distinct (al_lookup al) \<and> distinct (elems al)
     \<and> size_of (al_list al) = length (elems al) \<and> al_mark al \<le> backing_size (al_list al) \<and> list_all (is_i S 1) (elems al)"

lemma holds_ivals:
  assumes "world_ok S E" "is_i S 1 x"
  shows "holds S E x \<longleftrightarrow> ivals S E x = {1}"
proof -
  have "beh S E x = SInt 1 ` ivals S E x" by (rule ivalsD(5) [OF assms])
  moreover have "SInt 1 ` A = {SInt 1 1} \<longleftrightarrow> A = {1}" for A
    using inj_image_eq_iff [of "SInt 1" A "{1}"] by (simp add: inj_def)
  ultimately show ?thesis by (simp add: holds_def)
qed

lemma bit_values:
  assumes "world_ok S E" "is_i S 1 x"
  shows "ivals S E x \<subseteq> {0, 1}" "ivals S E x \<noteq> {}"
  using ivalsD(3,4) [OF assms] by (auto simp: less_2_cases_iff One_nat_def)

lemma bit_cases:
  assumes "world_ok S E" "is_i S 1 x"
  shows "ivals S E x = {0} \<or> ivals S E x = {1} \<or> ivals S E x = {0, 1}"
  using bit_values [OF assms] by blast

lemma sv_list_emplace_back [simp]: "sv_list (fst (emplace_back x v)) = sv_list v @ [x]"
  by (simp add: sv_list_def emplace_back_def List.map_filter_def)

lemma al_push_fields [simp]:
  "elems (al_push a al) = elems al @ [a]" "al_lookup (al_push a al) = a # al_lookup al" "al_mark (al_push a al) = al_mark al"
  "size_of (al_list (al_push a al)) = size_of (al_list al) + 1"
  "elements (al_list (al_push a al)) = elements (al_list al) @ [Value a]"
  by (simp_all add: al_push_def elems_def, simp_all add: emplace_back_def)

lemma mk_assertion_bool: "is_i S 1 x \<Longrightarrow> mk_assertion x = Some x"
  by (simp add: mk_assertion_def is_i_def int_ty_Some)

section \<open>Decomposition\<close>

lemma holds_and:
  assumes W: "world_ok S E" and i: "is_i S 1 l" "is_i S 1 r"
  shows "holds S E (int_node And 1 [l, r]) \<longleftrightarrow> holds S E l \<and> holds S E r"
proof -
  have "ivals S E (int_node And 1 [l, r]) = (\<Union>a\<in>ivals S E l. \<Union>b\<in>ivals S E r. {and a b})"
    using int_binop_node(2) [OF W _ i, of And] by simp
  then show ?thesis
    using bit_cases [OF W i(1)] bit_cases [OF W i(2)] int_binop_node(1) [OF W _ i, of And]
    by (elim disjE) (simp_all add: holds_ivals [OF W] i)
qed

lemma not_node:
  assumes "world_ok S E" "is_i S 1 x"
  shows "is_i S 1 (int_node Not 1 [x])" "ivals S E (int_node Not 1 [x]) = (\<lambda>a. 1 - a) ` ivals S E x"
  using unary_node [OF assms, of Not 1] by (simp_all add: widths_ok_def One_nat_def)

lemma holds_nor:
  assumes W: "world_ok S E" and i: "is_i S 1 l" "is_i S 1 r"
  shows "holds S E (int_node Not 1 [int_node Or 1 [l, r]]) \<longleftrightarrow> ivals S E l = {0} \<and> ivals S E r = {0}"
proof -
  have o: "is_i S 1 (int_node Or 1 [l, r])" "ivals S E (int_node Or 1 [l, r]) = (\<Union>a\<in>ivals S E l. \<Union>b\<in>ivals S E r. {or a b})"
    using int_binop_node [OF W _ i, of Or] by simp_all
  have n: "is_i S 1 (int_node Not 1 [int_node Or 1 [l, r]])"
      "ivals S E (int_node Not 1 [int_node Or 1 [l, r]]) = (\<lambda>a. 1 - a) ` ivals S E (int_node Or 1 [l, r])"
    using not_node [OF W o(1)] by simp_all
  show ?thesis
    using bit_cases [OF W i(1)] bit_cases [OF W i(2)]
    by (elim disjE) (simp_all add: holds_ivals [OF W n(1)] n(2) o(2))
qed

lemma not_result:
  assumes W: "world_ok S E0" and i: "is_i S 1 x"
  shows "\<exists>y. CreateNot (constant_fold S) x = Some y \<and> is_i S 1 y \<and> height y \<le> height x + 1
    \<and> (\<forall>E. world_ok S E \<longrightarrow> ivals S E y = (\<lambda>a. 1 - a) ` ivals S E x)"
proof -
  let ?n = "int_node Not 1 [x]"
  have n: "is_i S 1 ?n" "\<And>E. world_ok S E \<Longrightarrow> ivals S E ?n = (\<lambda>a. 1 - a) ` ivals S E x"
    using not_node(1) [OF W i] not_node(2) [OF _ i] by simp_all
  obtain d where d: "height ?n + 4 = Suc (Suc d)" by (intro that [of "height ?n + 2"]) simp
  have c: "CreateNot (constant_fold S) x = visitNot S (fold_depth S (Suc d)) ?n"
    using i by (simp add: CreateNot_def CreateUnary_def is_i_def is_int_def opcode_num_low mk_operation_def opcode_num_nargs
        constant_fold_def d visit_def flip: int_node_def)
  show ?thesis
  proof (cases "as_const_int x")
    case (Some k)
    note k = as_const_int_wt [OF W i Some]
    have wd: "ap_width S (ap_not S k) = 1" "ap_val S (ap_not S k) = 1 - ap_val S k"
      using k(2) world_okD(3) [OF W] by (simp_all add: ap_laws)
    then have "visitNot S (fold_depth S (Suc d)) ?n = Some (const_node S (ap_not S k))"
      using Some create_const [OF wd(1), of d] by (simp add: visitNot_def)
    moreover have "is_i S 1 (const_node S (ap_not S k))" using const_node(1) [OF W, of "ap_not S k"] wd(1) by simp
    moreover have "ivals S E (const_node S (ap_not S k)) = (\<lambda>a. 1 - a) ` ivals S E x" if "world_ok S E" for E
      using const_node(2) [OF that, of "ap_not S k"] wd as_const_int_wt(3) [OF that i Some] by simp
    ultimately show ?thesis using c by (simp add: const_node_def)
  next
    case None
    show ?thesis
    proof (cases "match_unop Not x")
      case no: None
      then have "visitNot S (fold_depth S (Suc d)) ?n = Some ?n" using None by (simp add: visitNot_def visitOperation_def)
      then show ?thesis using c n by (simp add: int_node_def)
    next
      case (Some v)
      then have o: "op_opcode x = Not" "operands x = [v]" by (auto simp: match_unop_def split: if_splits list.splits)
      obtain u k a where x: "x = int_node Not k [a]" "is_i S u a" "widths_ok Not u k"
        using wt_unary [of S x Not] i o(1) unfolding is_i_def by blast
      then have v: "x = int_node Not 1 [v]" "is_i S 1 v" using i o(2) by (auto simp: widths_ok_def is_i_def)
      have "ivals S E x = (\<lambda>a. 1 - a) ` ivals S E v" if "world_ok S E" for E using not_node(2) [OF that v(2)] v(1) by simp
      then have "(\<lambda>a. 1 - a) ` ivals S E x = ivals S E v" if "world_ok S E" for E
        using bit_values(1) [OF that v(2)] that by (force simp: image_image)
      moreover have "visitNot S (fold_depth S (Suc d)) ?n = Some v" using None Some by (simp add: visitNot_def)
      moreover have "height v \<le> height x + 1" using height_operand [of v x] o(2) by simp
      ultimately show ?thesis using c v(2) by simp
    qed
  qed
qed

text \<open>The result of inserting: new elements at the end, everything else in place.\<close>

definition extends :: "('i, 'f) assertion_list \<Rightarrow> ('i, 'f) assertion_list \<Rightarrow> bool" where
  "extends al al' \<longleftrightarrow> al_mark al' = al_mark al
     \<and> (\<exists>new. elements (al_list al') = elements (al_list al) @ map Value new \<and> elems al' = elems al @ new
          \<and> set new \<inter> set (elems al) = {} \<and> set (al_lookup al') = set (al_lookup al) \<union> set new)"

definition insert_ok :: "('i, 'f, 'z) ctx_scheme \<Rightarrow> ('i, 'f) op list \<Rightarrow> ('i, 'f) assertion_list \<Rightarrow> ('i, 'f) assertion_list \<Rightarrow> bool" where
  "insert_ok S xs al al' \<longleftrightarrow> al_wf S al' \<and> extends al al'
     \<and> (\<forall>E. world_ok S E \<longrightarrow> (\<forall>x\<in>set (elems al'). holds S E x) = ((\<forall>x\<in>set (elems al). holds S E x) \<and> (\<forall>x\<in>set xs. holds S E x)))"

lemma insert_ok_refl: "al_wf S al \<Longrightarrow> (\<And>E. world_ok S E \<Longrightarrow> \<forall>x\<in>set (elems al). holds S E x \<Longrightarrow> \<forall>x\<in>set xs. holds S E x) \<Longrightarrow> insert_ok S xs al al"
  by (auto simp: insert_ok_def extends_def)

lemma insert_ok_trans:
  assumes "insert_ok S xs al al1" "insert_ok S ys al1 al2"
  shows "insert_ok S (xs @ ys) al al2"
proof -
  obtain new1 where 1: "elements (al_list al1) = elements (al_list al) @ map Value new1" "elems al1 = elems al @ new1"
      "set new1 \<inter> set (elems al) = {}" "set (al_lookup al1) = set (al_lookup al) \<union> set new1" "al_mark al1 = al_mark al"
    using assms(1) unfolding insert_ok_def extends_def by blast
  obtain new2 where 2: "elements (al_list al2) = elements (al_list al1) @ map Value new2" "elems al2 = elems al1 @ new2"
      "set new2 \<inter> set (elems al1) = {}" "set (al_lookup al2) = set (al_lookup al1) \<union> set new2" "al_mark al2 = al_mark al1"
    using assms(2) unfolding insert_ok_def extends_def by blast
  have "extends al al2" unfolding extends_def using 1 2 by (intro conjI exI [of _ "new1 @ new2"]) auto
  then show ?thesis using assms unfolding insert_ok_def by auto
qed

lemma insert_ok_weaken: "insert_ok S xs al al' \<Longrightarrow> (\<And>E. world_ok S E \<Longrightarrow> (\<forall>x\<in>set xs. holds S E x) = (\<forall>x\<in>set ys. holds S E x)) \<Longrightarrow> insert_ok S ys al al'"
  by (simp add: insert_ok_def)

lemma push_ok:
  assumes "al_wf S al" "x \<notin> set (elems al)" "is_i S 1 x"
  shows "insert_ok S [x] al (al_push x al)"
  unfolding insert_ok_def extends_def
  using assms by (auto simp: al_wf_def backing_size_def intro: exI [of _ "[x]"])

lemma power3_split: "a \<le> h \<Longrightarrow> b \<le> h \<Longrightarrow> Suc (3 ^ a + 3 ^ b) \<le> (3 :: nat) ^ Suc h"
proof -
  assume "a \<le> h" "b \<le> h"
  then have "(3 :: nat) ^ a \<le> 3 ^ h" "(3 :: nat) ^ b \<le> 3 ^ h" "(1 :: nat) \<le> 3 ^ h" by (simp_all add: power_increasing)
  then have "Suc (3 ^ a + 3 ^ b) \<le> 3 * (3 :: nat) ^ h" by linarith
  then show ?thesis by simp
qed

lemma match_not_or_shape:
  assumes "is_i S 1 x" "match_not_or x = Some (l, r)"
  shows "x = int_node Not 1 [int_node Or 1 [l, r]]" "is_i S 1 l" "is_i S 1 r"
proof -
  obtain y where y: "match_unop Not x = Some y" "match_binop Or y = Some (l, r)" using assms(2) by (auto simp: match_not_or_def split: option.splits)
  then have o: "op_opcode x = Not" "operands x = [y]" by (auto simp: match_unop_def split: if_splits list.splits)
  obtain u k a where "x = int_node Not k [a]" "is_i S u a" "widths_ok Not u k"
    using wt_unary [of S x Not] assms(1) o(1) unfolding is_i_def by blast
  then have x: "x = int_node Not 1 [y]" "is_i S 1 y" using assms(1) o(2) by (auto simp: widths_ok_def is_i_def)
  note y = match_binop_int [OF x(2) y(2)]
  show "x = int_node Not 1 [int_node Or 1 [l, r]]" "is_i S 1 l" "is_i S 1 r" using x(1) y by simp_all
qed

lemma as_const_int_node [simp]: "as_const_int (int_node c w ops) = None"
  by (simp add: as_const_int_def int_node_def)

lemma insert_loop_ok:
  assumes W: "world_ok S E0" and hc: "hash_consed S"
  shows "al_wf S al \<Longrightarrow> list_all (is_i S 1) st \<Longrightarrow> sum_list (map (\<lambda>x. 3 ^ height x) st) \<le> n \<Longrightarrow>
    (is_constant_value S a True \<Longrightarrow> \<forall>x\<in>set st. x = a) \<Longrightarrow>
    \<exists>al'. insert_loop S (constant_fold S) a n st al = Some al' \<and> insert_ok S st al al'"
proof (induction n arbitrary: st al)
  case 0
  then have "st = []" by (cases st) auto
  then show ?case using insert_ok_refl [OF 0(1)] by simp
next
  case (Suc n)
  show ?case
  proof (cases st)
    case Nil
    then show ?thesis using insert_ok_refl [OF Suc.prems(1)] by simp
  next
    case (Cons x st')
    have i: "is_i S 1 x" "list_all (is_i S 1) st'" using Suc.prems(2) Cons by simp_all
    have f: "3 ^ height x + sum_list (map (\<lambda>x. 3 ^ height x) st') \<le> Suc n" using Suc.prems(3) Cons by simp
    have f': "sum_list (map (\<lambda>x. 3 ^ height x) st') \<le> n" using f one_le_power [of "3 :: nat" "height x"] by linarith
    have t: "is_constant_value S a True \<Longrightarrow> \<forall>x\<in>set st'. x = a" using Suc.prems(4) Cons by simp
    have split: "\<exists>al'. insert_loop S (constant_fold S) a n (r' # l' # st') al = Some al' \<and> insert_ok S st al al'"
      if lr: "is_i S 1 l'" "is_i S 1 r'" "height l' < height x" "height r' < height x" "as_const_int x = None"
        and eq: "\<And>E. world_ok S E \<Longrightarrow> holds S E x = (holds S E l' \<and> holds S E r')" for l' r'
    proof -
      obtain h where h: "height x = Suc h" "height l' \<le> h" "height r' \<le> h" using lr(3,4) by (cases "height x") auto
      have "\<not> is_constant_value S a True" using Suc.prems(4) Cons lr(5) by (auto simp: is_constant_value_def)
      moreover have "sum_list (map (\<lambda>x. 3 ^ height x) (r' # l' # st')) \<le> n" using power3_split [OF h(2,3)] f h(1) by simp
      ultimately obtain al' where al': "insert_loop S (constant_fold S) a n (r' # l' # st') al = Some al'" "insert_ok S (r' # l' # st') al al'"
        using Suc.IH [OF Suc.prems(1), of "r' # l' # st'"] i lr by auto
      have "insert_ok S st al al'" by (rule insert_ok_weaken [OF al'(2)]) (use Cons eq in auto)
      then show ?thesis using al'(1) by blast
    qed
    consider (both) l r where "match_binop And x = Some (l, r)"
      | (nor) l r where "match_binop And x = None" "match_not_or x = Some (l, r)"
      | (leaf) "match_binop And x = None" "match_not_or x = None" by (metis option.exhaust surj_pair)
    then show ?thesis
    proof cases
      case both
      note m = match_binop_int [OF i(1) both int_ops_mem(8)]
      have "insert_loop S (constant_fold S) a (Suc n) st al = insert_loop S (constant_fold S) a n (r # l # st') al"
        using both by (simp add: Cons)
      moreover have "height l < height x" "height r < height x" "as_const_int x = None" unfolding m(1) by simp_all
      moreover have "holds S E x = (holds S E l \<and> holds S E r)" if "world_ok S E" for E
        unfolding m(1) by (rule holds_and [OF that m(2,3)])
      ultimately show ?thesis using split [OF m(2,3)] by simp
    next
      case nor
      note m = match_not_or_shape [OF i(1) nor(2)]
      obtain l' where l: "CreateNot (constant_fold S) l = Some l'" "is_i S 1 l'" "height l' \<le> height l + 1"
          "\<And>E. world_ok S E \<Longrightarrow> ivals S E l' = (\<lambda>a. 1 - a) ` ivals S E l" using not_result [OF W m(2)] by blast
      obtain r' where r: "CreateNot (constant_fold S) r = Some r'" "is_i S 1 r'" "height r' \<le> height r + 1"
          "\<And>E. world_ok S E \<Longrightarrow> ivals S E r' = (\<lambda>a. 1 - a) ` ivals S E r" using not_result [OF W m(3)] by blast
      have "holds S E x = (holds S E l' \<and> holds S E r')" if E: "world_ok S E" for E
      proof -
        have "ivals S E l' = {1} \<longleftrightarrow> ivals S E l = {0}" using bit_cases [OF E m(2)] l(4) [OF E] by auto
        moreover have "ivals S E r' = {1} \<longleftrightarrow> ivals S E r = {0}" using bit_cases [OF E m(3)] r(4) [OF E] by auto
        ultimately show ?thesis using holds_nor [OF E m(2,3)] holds_ivals [OF E] l(2) r(2) m(1) by simp
      qed
      moreover have "height (int_node Or 1 [l, r]) < height x" unfolding m(1) by simp
      then have "height l + 1 < height x" "height r + 1 < height x"
        using height_node(1) [of l Or 1 r] height_node(2) [of r Or 1 l] by linarith+
      moreover have "insert_loop S (constant_fold S) a (Suc n) st al = insert_loop S (constant_fold S) a n (r' # l' # st') al"
        using nor l(1) r(1) by (simp add: Cons)
      moreover have "as_const_int x = None" unfolding m(1) by simp
      ultimately show ?thesis using split [OF l(2) r(2)] l(3) r(3) by simp
    next
      case leaf
      show ?thesis
      proof (cases "is_constant_value S a True")
        case True
        then have "x = a" using Suc.prems(4) Cons by simp
        have "holds S E x" if "world_ok S E" for E
        proof -
          obtain k where k: "as_const_int x = Some k" "ap_eq_u64 S k 1"
            using True \<open>x = a\<close> by (auto simp: is_constant_value_def split: option.splits)
          then show ?thesis using as_const_int_wt(3) [OF that i(1) k(1)] holds_ivals [OF that i(1)] world_okD(3) [OF that] by (simp add: ap_laws)
        qed
        moreover obtain al' where al': "insert_loop S (constant_fold S) a n st' al = Some al'" "insert_ok S st' al al'"
          using Suc.IH [OF Suc.prems(1) i(2) f' t] by blast
        ultimately have "insert_ok S st al al'" by (intro insert_ok_weaken [OF al'(2)]) (use Cons in auto)
        then show ?thesis using al'(1) leaf True Cons by simp
      next
        case False
        show ?thesis
        proof (cases "x \<in> set (elems al)")
          case in_list: True
          then have "al_contains S al x" using Suc.prems(1) hc by (auto simp: al_contains_def assertion_eq_def hash_consed_def al_wf_def list_ex_iff)
          moreover obtain al' where al': "insert_loop S (constant_fold S) a n st' al = Some al'" "insert_ok S st' al al'"
            using Suc.IH [OF Suc.prems(1) i(2) f' t] by blast
          moreover have "insert_ok S st al al'" using al'(2) in_list Cons unfolding insert_ok_def by auto
          ultimately show ?thesis using leaf False Cons by (simp add: mk_assertion_bool [OF i(1)])
        next
          case new: False
          then have "\<not> al_contains S al x" using Suc.prems(1) hc by (auto simp: al_contains_def assertion_eq_def hash_consed_def al_wf_def list_ex_iff)
          note p = push_ok [OF Suc.prems(1) new i(1)]
          moreover have "al_wf S (al_push x al)" using p by (simp add: insert_ok_def)
          then obtain al' where al': "insert_loop S (constant_fold S) a n st' (al_push x al) = Some al'" "insert_ok S st' (al_push x al) al'"
            using Suc.IH [OF _ i(2) f' t] by blast
          moreover have "insert_ok S st al al'" using insert_ok_trans [OF p al'(2)] Cons by simp
          ultimately show ?thesis using leaf False Cons \<open>\<not> al_contains S al x\<close> by (simp add: mk_assertion_bool [OF i(1)])
        qed
      qed
    qed
  qed
qed

lemma al_insert_ok:
  assumes W: "world_ok S E0" and hc: "hash_consed S"
  shows "al_wf S al \<Longrightarrow> list_all (is_i S 1) as \<Longrightarrow> \<exists>al'. al_insert S (constant_fold S) as al = Some al' \<and> insert_ok S as al al'"
proof (induction as arbitrary: al)
  case Nil
  then show ?case using insert_ok_refl [OF Nil(1)] by simp
next
  case (Cons a as)
  obtain al1 where al1: "insert_loop S (constant_fold S) a (3 ^ height a) [a] al = Some al1" "insert_ok S [a] al al1"
    using insert_loop_ok [OF W hc Cons.prems(1), of "[a]"] Cons.prems(2) by auto
  then obtain al2 where "al_insert S (constant_fold S) as al1 = Some al2" "insert_ok S as al1 al2"
    using Cons.IH [of al1] Cons.prems(2) by (auto simp: insert_ok_def)
  then show ?case using al1 insert_ok_trans [OF al1(2)] by force
qed

section \<open>Erasing, checkpoints and the proven part\<close>

definition vals :: "'a elem list \<Rightarrow> 'a list" where
  "vals es = List.map_filter (\<lambda>e. case e of Value x \<Rightarrow> Some x | Index _ \<Rightarrow> None) es"

lemma vals_simps [simp]:
  "vals [] = []" "vals (Value x # es) = x # vals es" "vals (Index n # es) = vals es" "vals (es @ es') = vals es @ vals es'"
  "vals (map Value xs) = xs"
  by (simp_all add: vals_def List.map_filter_def o_def)

lemma elems_vals: "elems al = vals (elements (al_list al))"
  by (simp add: elems_def vals_def sv_list_def)

lemma split_at: "i < length es \<Longrightarrow> es ! i = e \<Longrightarrow> es = take i es @ e # drop (Suc i) es"
  using id_take_nth_drop by blast

lemma al_erase_at:
  assumes hc: "hash_consed S" and wf: "al_wf S al" and es: "elements (al_list al) = pre @ Value a # post"
  shows "\<exists>h al'. al_erase S (length pre) al = Some al' \<and> al_wf S al' \<and> elements (al_list al') = pre @ Index h # post
    \<and> al_mark al' = al_mark al"
proof -
  let ?v = "al_list al"
  let ?w = "?v\<lparr>elements := pre @ Index (sv_head ?v) # post, sv_head := length pre, size_of := size_of ?v - 1\<rparr>"
  have e: "elems al = vals pre @ a # vals post" using es by (simp add: elems_vals)
  have g: "al_get al (length pre) = Some a" using es by (simp add: al_get_def sv_get_def backing_size_def)
  have f: "(\<lambda>b. \<not> assertion_eq S a b) = (\<lambda>b. b \<noteq> a)" using hc by (auto simp: assertion_eq_def hash_consed_def)
  have "sv_erase (length pre) ?v = Inr ?w" using es by (simp add: sv_erase_def backing_size_def)
  then have r: "al_erase S (length pre) al = Some (al\<lparr>al_list := ?w, al_lookup := filter (\<lambda>b. b \<noteq> a) (al_lookup al)\<rparr>)"
    using g f by (simp add: al_erase_def)
  have "elems (al\<lparr>al_list := ?w, al_lookup := filter (\<lambda>b. b \<noteq> a) (al_lookup al)\<rparr>) = vals pre @ vals post" by (simp add: elems_vals)
  then have "al_wf S (al\<lparr>al_list := ?w, al_lookup := filter (\<lambda>b. b \<noteq> a) (al_lookup al)\<rparr>)"
    using wf e es by (auto simp: al_wf_def backing_size_def)
  then show ?thesis using r by auto
qed

lemma erase_suffix:
  assumes hc: "hash_consed S"
  shows "al_wf S al \<Longrightarrow> elements (al_list al) = pre @ map Value new \<Longrightarrow>
    \<exists>al'. erase_positions S [length pre..<length pre + length new] al = Some al' \<and> al_wf S al' \<and> elems al' = vals pre
      \<and> al_mark al' = al_mark al"
proof (induction new arbitrary: pre al)
  case Nil
  then show ?case by (simp add: elems_vals)
next
  case (Cons x new)
  obtain h al1 where al1: "al_erase S (length pre) al = Some al1" "al_wf S al1" "elements (al_list al1) = (pre @ [Index h]) @ map Value new"
      "al_mark al1 = al_mark al"
    using al_erase_at [OF hc Cons.prems(1), of pre x "map Value new"] Cons.prems(2) by auto
  have "[length pre..<length pre + length (x # new)] = length pre # [length (pre @ [Index h])..<length (pre @ [Index h]) + length new]"
    by (simp add: upt_conv_Cons del: upt_Suc)
  then show ?case using Cons.IH [OF al1(2,3)] al1(1,4) by (auto simp del: upt_Suc)
qed

lemma valid_from_skip: "i \<le> length (elements v) \<Longrightarrow> valid_from v i = Some (skip_to is_value (drop i (elements v)) i)"
proof -
  assume i: "i \<le> length (elements v)"
  show ?thesis
  proof (cases "i = length (elements v)")
    case True
    then show ?thesis by (simp add: valid_from_def iterator_at_def backing_size_def sv_end_def)
  next
    case False
    then have "drop i (elements v) = elements v ! i # drop (Suc i) (elements v)" using i by (simp add: Cons_nth_drop_Suc)
    then show ?thesis using i False
      by (simp add: valid_from_def iterator_at_def backing_size_def sv_end_def sv_valid_def sv_next_def)
  qed
qed

lemma iterate_from:
  assumes "i \<le> length (elements v)"
  shows "sv_iterate v (skip_to is_value (drop i (elements v)) i) = filter (\<lambda>j. is_value (elements v ! j)) [i..<length (elements v)]"
  using iterate_pos_skip [OF assms, of is_value] by (simp add: sv_iterate_def)

lemma takeWhile_append_stop: "(\<forall>x\<in>set xs. x \<noteq> k) \<Longrightarrow> ys = [] \<or> hd ys = k \<Longrightarrow> takeWhile (\<lambda>x. x \<noteq> k) (xs @ ys) = xs"
  by (cases ys) (simp_all add: takeWhile_append)

lemma proven_positions:
  assumes "al_mark al \<le> length (elements (al_list al))"
  shows "unproven al = Some (filter (\<lambda>j. is_value (elements (al_list al) ! j)) [al_mark al..<length (elements (al_list al))])"
    and "proven al = Some (filter (\<lambda>j. is_value (elements (al_list al) ! j)) [0..<al_mark al])"
proof -
  let ?v = "al_list al" and ?m = "al_mark al" and ?es = "elements (al_list al)"
  let ?it = "skip_to is_value (drop ?m ?es) ?m" and ?P = "\<lambda>j. is_value (?es ! j)"
  show "unproven al = Some (filter ?P [?m..<length ?es])"
    using iterate_from [OF assms] by (simp add: unproven_def valid_from_skip [OF assms])
  have "sv_iterate ?v (sv_begin ?v) = filter ?P [0..<length ?es]" using iterate_from [of 0 ?v] by (simp add: sv_begin_skip)
  also have "[0..<length ?es] = [0..<?m] @ [?m..<length ?es]" using assms by (metis le_add_diff_inverse upt_add_eq_append zero_le)
  finally have "sv_iterate ?v (sv_begin ?v) = filter ?P [0..<?m] @ filter ?P [?m..<length ?es]" by simp
  moreover have "filter ?P [?m..<length ?es] = [] \<or> hd (filter ?P [?m..<length ?es]) = ?it"
    using skip_to_drop [OF assms, of is_value] by (simp add: Let_def split: if_splits)
  moreover have "\<forall>x\<in>set (filter ?P [0..<?m]). x \<noteq> ?it" using skip_to_ge [of ?m is_value "drop ?m ?es"] by auto
  ultimately have "takeWhile (\<lambda>i. i \<noteq> ?it) (sv_iterate ?v (sv_begin ?v)) = filter ?P [0..<?m]"
    by (simp only: takeWhile_append_stop)
  then show "proven al = Some (filter ?P [0..<?m])" by (simp add: proven_def valid_from_skip [OF assms])
qed

lemma get_positions:
  "i \<le> j \<Longrightarrow> j \<le> length (elements (al_list al)) \<Longrightarrow>
    map (al_get al) (filter (\<lambda>j. is_value (elements (al_list al) ! j)) [i..<j]) = map Some (vals (take (j - i) (drop i (elements (al_list al)))))"
proof (induction "j - i" arbitrary: i)
  case 0
  then show ?case by simp
next
  case (Suc n)
  let ?es = "elements (al_list al)"
  have lt: "i < j" "i < length ?es" using Suc.hyps(2) Suc.prems by simp_all
  have dr: "take (j - i) (drop i ?es) = ?es ! i # take (j - Suc i) (drop (Suc i) ?es)"
    using lt by (simp add: Cons_nth_drop_Suc [symmetric] Suc_diff_Suc [symmetric])
  have "[i..<j] = i # [Suc i..<j]" using lt by (simp add: upt_conv_Cons)
  then show ?case
    using Suc.hyps(1) [of "Suc i"] Suc.hyps(2) Suc.prems lt dr
    by (cases "?es ! i") (simp_all add: al_get_def sv_get_def backing_size_def)
qed

section \<open>Histories\<close>

datatype ('i, 'f) al_op = Insert "('i, 'f) assertion list" | Erase nat | Mark_Sat | Clear | Restore nat

fun al_step :: "('i, 'f, 'z) ctx_scheme \<Rightarrow> ('i, 'f) al_op \<Rightarrow> ('i, 'f) assertion_list \<Rightarrow> ('i, 'f) assertion_list option" where
  "al_step S (Insert as) al = al_insert S (constant_fold S) as al"
| "al_step S (Erase i) al = al_erase S i al"
| "al_step S Mark_Sat al = Some (mark_sat al)"
| "al_step S Clear al = Some (al_clear al)"
| "al_step S (Restore cp) al = restore S cp al"

fun al_run :: "('i, 'f, 'z) ctx_scheme \<Rightarrow> ('i, 'f) al_op list \<Rightarrow> ('i, 'f) assertion_list \<Rightarrow> ('i, 'f) assertion_list option" where
  "al_run S [] al = Some al"
| "al_run S (c # cs) al = do { al' \<leftarrow> al_step S c al; al_run S cs al' }"

fun al_op_ok :: "('i, 'f, 'z) ctx_scheme \<Rightarrow> ('i, 'f) al_op \<Rightarrow> bool" where
  "al_op_ok S (Insert as) = list_all (is_i S 1) as"
| "al_op_ok S _ = True"

lemma al_wf_empty: "al_wf S al_empty"
  by (simp add: al_wf_def al_empty_def elems_def sv_empty_def sv_list_def List.map_filter_def)

lemma al_erase_wf: "hash_consed S \<Longrightarrow> al_wf S al \<Longrightarrow> al_erase S i al = Some al' \<Longrightarrow> al_wf S al'"
proof -
  assume a: "hash_consed S" "al_wf S al" "al_erase S i al = Some al'"
  let ?es = "elements (al_list al)"
  obtain x where i: "i < length ?es" "?es ! i = Value x"
    using a(3) by (auto simp: al_erase_def al_get_def sv_get_def backing_size_def Option.bind_eq_Some_conv split: if_splits elem.splits)
  then have "?es = take i ?es @ Value x # drop (Suc i) ?es" "length (take i ?es) = i" using split_at [OF i] by simp_all
  then show "al_wf S al'" using al_erase_at [OF a(1,2)] a(3) by (metis option.inject)
qed

lemma erase_positions_wf: "hash_consed S \<Longrightarrow> al_wf S al \<Longrightarrow> erase_positions S is al = Some al' \<Longrightarrow> al_wf S al'"
  by (induction "is" arbitrary: al) (auto simp: Option.bind_eq_Some_conv intro: al_erase_wf)

lemma vals_filter: "vals (filter is_value es) = vals es \<and> length (filter is_value es) = length (vals es)"
proof (induction es)
  case (Cons e es)
  then show ?case by (cases e) simp_all
qed simp

lemma mark_sat_fields:
  assumes "al_wf S al"
  shows "elems (mark_sat al) = elems al \<and> al_lookup (mark_sat al) = al_lookup al
    \<and> al_mark (mark_sat al) = length (elements (al_list (mark_sat al))) \<and> size_of (al_list (mark_sat al)) = length (elems al)"
  using assms by (auto simp: mark_sat_def Let_def compress_def elems_vals al_wf_def backing_size_def vals_filter)

lemma al_step_wf:
  assumes W: "world_ok S E0" "hash_consed S" and wf: "al_wf S al" and ok: "al_op_ok S c" and st: "al_step S c al = Some al'"
  shows "al_wf S al'"
proof (cases c)
  case (Insert as)
  then show ?thesis using al_insert_ok [OF W wf, of as] ok st by (auto simp: insert_ok_def)
next
  case (Erase i)
  then show ?thesis using al_erase_wf [OF W(2) wf] st by simp
next
  case Mark_Sat
  then show ?thesis using mark_sat_fields [OF wf] st wf by (auto simp: al_wf_def backing_size_def)
next
  case Clear
  then show ?thesis using st by (auto simp: al_wf_def al_clear_def sv_clear_def elems_vals)
next
  case (Restore cp)
  then show ?thesis using erase_positions_wf [OF W(2) wf] st by (auto simp: restore_def Option.bind_eq_Some_conv)
qed

lemma al_run_wf:
  assumes W: "world_ok S E0" "hash_consed S"
  shows "al_wf S al \<Longrightarrow> list_all (al_op_ok S) cs \<Longrightarrow> al_run S cs al = Some al' \<Longrightarrow> al_wf S al'"
  by (induction cs arbitrary: al) (auto simp: Option.bind_eq_Some_conv intro: al_step_wf [OF W])

section \<open>An example history\<close>

definition flag :: "string \<Rightarrow> (ref_int, ref_float) op" where
  "flag s = Operation (ConstantData ConstantNamed (Type Integer 1) (Named s)) []"

definition both_flags :: "(ref_int, ref_float) op" where
  "both_flags = Operation (OperationData And (Type Integer 1)) [flag ''a'', flag ''b'']"

lemma hash_consed_ref [simp]: "hash_consed ref_ctx"
  by (simp add: hash_consed_def ref_ctx_def llvm.defs)

lemma same_ref_ref [simp]: "same_ref ref_ctx = (=)"
  by (simp add: ref_ctx_def llvm.defs)

lemma flag_bool [simp]: "is_i ref_ctx 1 (flag s)"
proof -
  have "inhabited ref_ctx (Type Integer 1)" by (auto simp: inhabited_def intro: exI [of _ "SInt 1 0"])
  then show ?thesis by (simp add: is_i_def flag_def op_type_def)
qed

lemma both_flags_bool [simp]: "is_i ref_ctx 1 both_flags"
  using flag_bool [of "''a''"] flag_bool [of "''b''"]
  by (simp add: is_i_def both_flags_def wt_operation_def int_ops_def op_type_def is_int_def flag_def)

lemma insert_both_flags: "al_insert ref_ctx cf [both_flags] al_empty
   = Some \<lparr>al_list = \<lparr>elements = [Value (flag ''b''), Value (flag ''a'')], size_of = 2, sv_head = no_head\<rparr>,
        al_lookup = [flag ''a'', flag ''b''], al_mark = 0\<rparr>"
proof -
  have fuel: "3 ^ height both_flags = Suc (Suc (Suc 6))" by (simp add: both_flags_def flag_def numeral_2_eq_2)
  have parts: "match_binop And both_flags = Some (flag ''a'', flag ''b'')" "is_constant_value ref_ctx both_flags True = False"
    by (simp_all add: both_flags_def matcher_defs op_opcode_def is_constant_value_def as_const_int_def)
  have leaf: "match_binop And (flag s) = None" "match_not_or (flag s) = None" "mk_assertion (flag s) = Some (flag s)"
      "flag s = flag t \<longleftrightarrow> s = t" for s t
    by (simp_all add: flag_def match_not_or_def matcher_defs op_opcode_def mk_assertion_def op_type_def int_ty_Some)
  show ?thesis
    by (simp only: al_insert.simps fuel insert_loop.simps parts leaf option.case prod.case if_False Option.bind.bind_lunit)
      (simp add: al_contains_def al_empty_def sv_empty_def al_push_def emplace_back_def assertion_eq_def leaf)
qed

text \<open>
  C16: after any history of insertions, erasures, markings, clearings and restorations the list holds no
  assertion twice, \<^verbatim>\<open>size()\<close> is the number of assertions it holds, \<^verbatim>\<open>contains\<close> answers whether an
  assertion is one of them, and the loops over \<^verbatim>\<open>proven()\<close> and \<^verbatim>\<open>unproven()\<close> never fail and together
  visit every assertion once.
\<close>

theorem assertion_list_invariant:
  assumes "world_ok S E0" "hash_consed S" "list_all (al_op_ok S) cs" "al_run S cs al_empty = Some al"
  shows "distinct (elems al) \<and> al_size al = length (elems al) \<and> (\<forall>x. al_contains S al x = (x \<in> set (elems al)))
    \<and> (\<exists>p u. proven al = Some p \<and> unproven al = Some u \<and> map (al_get al) (p @ u) = map Some (elems al))"
proof -
  have wf: "al_wf S al" by (rule al_run_wf [OF assms(1,2) al_wf_empty assms(3,4)])
  then have "al_size al = length (elems al)" by (simp add: al_size_def al_wf_def flip: distinct_card)
  moreover have "al_contains S al x = (x \<in> set (elems al))" for x
    using wf assms(2) by (auto simp: al_contains_def assertion_eq_def hash_consed_def al_wf_def list_ex_iff)
  moreover have "\<exists>p u. proven al = Some p \<and> unproven al = Some u \<and> map (al_get al) (p @ u) = map Some (elems al)"
  proof -
    let ?es = "elements (al_list al)" and ?m = "al_mark al"
    have m: "?m \<le> length ?es" using wf by (simp add: al_wf_def backing_size_def)
    have "elems al = vals (take ?m ?es @ drop ?m ?es)" by (simp add: elems_vals)
    then have "elems al = vals (take ?m ?es) @ vals (drop ?m ?es)" by (simp only: vals_simps)
    then show ?thesis using get_positions [of 0 ?m al] get_positions [of ?m "length ?es" al] proven_positions [OF m] m by simp
  qed
  ultimately show ?thesis using wf by (simp add: al_wf_def)
qed

lemma assertion_list_invariant_witness:
  "\<exists>al. al_run ref_ctx [Insert [both_flags], Mark_Sat, Erase 0] al_empty = Some al \<and> elems al = [flag ''a'']
    \<and> al_size al = length (elems al) \<and> al_contains ref_ctx al (flag ''a'') \<and> \<not> al_contains ref_ctx al (flag ''b'')"
proof -
  let ?cs = "[Insert [both_flags], Mark_Sat, Erase 0]"
  obtain al where al: "al_run ref_ctx ?cs al_empty = Some al" "elems al = [flag ''a'']"
    by (simp add: insert_both_flags mark_sat_def Let_def compress_def al_erase_def al_get_def sv_get_def backing_size_def sv_erase_def
        assertion_eq_def elems_vals flag_def del: al_insert.simps)
  have "list_all (al_op_ok ref_ctx) ?cs" by simp
  from assertion_list_invariant [OF default_world hash_consed_ref this al(1)] show ?thesis
    using al by (auto simp: flag_def)
qed

text \<open>
  C4: inserting assertions never fails, also when they have to be decomposed, and the assertions of the
  resulting list hold in exactly the environments in which the old ones and the inserted ones hold.
\<close>

theorem assertion_insert_models:
  assumes "world_ok S E0" "hash_consed S" "al_wf S al" "list_all (is_i S 1) as"
  shows "\<exists>al'. al_insert S (constant_fold S) as al = Some al' \<and> al_wf S al'
    \<and> al_models S al' = al_models S al \<inter> {E. \<forall>a\<in>set as. holds S E a}"
proof -
  obtain al' where "al_insert S (constant_fold S) as al = Some al'" "insert_ok S as al al'"
    using al_insert_ok [OF assms(1-4)] by blast
  then show ?thesis by (auto simp: insert_ok_def al_models_def)
qed

lemma assertion_insert_models_witness:
  "\<exists>al. al_insert ref_ctx (constant_fold ref_ctx) [both_flags] al_empty = Some al \<and> elems al = [flag ''b'', flag ''a'']
    \<and> al_models ref_ctx al = al_models ref_ctx al_empty \<inter> {E. holds ref_ctx E both_flags}"
  using assertion_insert_models [OF default_world hash_consed_ref al_wf_empty, of "[both_flags]"]
  by (simp add: insert_both_flags elems_vals del: al_insert.simps)

lemma restore_ok:
  assumes "world_ok S E0" "hash_consed S" "al_wf S al" "list_all (is_i S 1) as" "al_insert S (constant_fold S) as al = Some al'"
  shows "\<exists>al''. restore S (checkpoint al) al' = Some al'' \<and> al_wf S al'' \<and> elems al'' = elems al
    \<and> set (al_lookup al'') = set (al_lookup al) \<and> al_mark al'' = al_mark al"
proof -
  have ok: "insert_ok S as al al'" using al_insert_ok [OF assms(1-4)] assms(5) by auto
  then obtain new where new: "elements (al_list al') = elements (al_list al) @ map Value new" "al_mark al' = al_mark al" "al_wf S al'"
    unfolding insert_ok_def extends_def by blast
  let ?v = "al_list al'" and ?k = "length (elements (al_list al))"
  have le: "?k \<le> length (elements ?v)" using new(1) by simp
  have "filter (\<lambda>j. is_value (elements ?v ! j)) [?k..<length (elements ?v)] = [?k..<?k + length new]"
    using new(1) by (auto simp: nth_append intro!: filter_True)
  then have "restore S (checkpoint al) al' = erase_positions S [?k..<?k + length new] al'"
    using iterate_from [OF le] by (simp add: restore_def checkpoint_def sv_end_def valid_from_skip [OF le])
  then obtain al'' where "restore S (checkpoint al) al' = Some al''" "al_wf S al''" "elems al'' = elems al" "al_mark al'' = al_mark al"
    using erase_suffix [OF assms(2) new(3,1)] new(2) by (auto simp: elems_vals)
  then show ?thesis using assms(3) by (auto simp: al_wf_def)
qed

text \<open>
  C17: restoring the checkpoint taken before an insertion gives back the assertions, the lookup set and
  the mark of the list before it.
\<close>

theorem checkpoint_restore:
  assumes "world_ok S E0" "hash_consed S" "al_wf S al" "list_all (is_i S 1) as" "al_insert S (constant_fold S) as al = Some al'"
  shows "\<exists>al''. restore S (checkpoint al) al' = Some al'' \<and> al_wf S al'' \<and> elems al'' = elems al
    \<and> set (al_lookup al'') = set (al_lookup al) \<and> al_mark al'' = al_mark al"
  by (rule restore_ok [OF assms])

lemma checkpoint_restore_witness:
  "\<exists>al al'. al_insert ref_ctx (constant_fold ref_ctx) [both_flags] al_empty = Some al \<and> al_size al = 2
    \<and> restore ref_ctx (checkpoint (al_empty :: (ref_int, ref_float) assertion_list)) al = Some al' \<and> elems al' = elems al_empty"
proof -
  have "list_all (is_i ref_ctx 1) [both_flags]" by simp
  from checkpoint_restore [OF default_world hash_consed_ref al_wf_empty this insert_both_flags] show ?thesis
    by (auto simp: al_size_def insert_both_flags simp del: al_insert.simps)
qed

end
