(* ===== verification/IR_Fold_Closed.thy ===== *)
theory IR_Fold_Closed
  imports IR_Simplifier
begin

text \<open>
  What the simplifier can put into an expression. The visitors of \<^verbatim>\<open>src/IR/OperationSimplifier.cpp\<close> return parts
  of the node they are given, constants, and nodes of a few opcodes; so a condition on the nodes of an
  expression that those opcodes meet is kept by folding. The locale states this once; it is
  interpreted for the conditions under which the transforms are analysed.
\<close>

section \<open>Results of fallible functions\<close>

definition yields :: "'a option \<Rightarrow> ('a \<Rightarrow> bool) \<Rightarrow> bool" where
  "yields r Q \<longleftrightarrow> (\<forall>y. r = Some y \<longrightarrow> Q y)"

lemma yieldsD: "yields r Q \<Longrightarrow> r = Some y \<Longrightarrow> Q y"
  by (simp add: yields_def)

lemma yields_simps [simp]: "yields None Q" "yields (Some x) Q \<longleftrightarrow> Q x" "yields (visitOperation z) R \<longleftrightarrow> R z"
  by (simp_all add: yields_def visitOperation_def)

lemma yields_bind: "yields f R \<Longrightarrow> (\<And>x. R x \<Longrightarrow> yields (g x) Q) \<Longrightarrow> yields (Option.bind f g) Q"
  by (cases f) simp_all

lemma yields_bind_any: "(\<And>x. yields (g x) Q) \<Longrightarrow> yields (Option.bind f g) Q"
  by (cases f) simp_all

lemma yields_if: "(b \<Longrightarrow> yields p Q) \<Longrightarrow> (\<not> b \<Longrightarrow> yields q Q) \<Longrightarrow> yields (if b then p else q) Q"
  by simp

lemma yields_try:
  "(\<And>a b. yields (func a b) Q) \<Longrightarrow> yields rest Q \<Longrightarrow> yields (try_const_int l r func rest) Q"
  "(\<And>a b. yields (func' a b) Q) \<Longrightarrow> yields rest Q \<Longrightarrow> yields (try_const_float l r func' rest) Q"
  by (simp_all add: try_const_int_def try_const_float_def split: option.split)

section \<open>Conditions on all nodes\<close>

primrec all_nodes :: "(('i, 'f) opdata \<Rightarrow> ty list \<Rightarrow> bool) \<Rightarrow> ('i, 'f) op \<Rightarrow> bool" where
  "all_nodes P (Operation d ops) \<longleftrightarrow> list_all id (map (all_nodes P) ops) \<and> P d (map op_type ops)"

lemma all_nodes_operands: "all_nodes P x \<Longrightarrow> y \<in> set (operands x) \<Longrightarrow> all_nodes P y"
  by (cases x) (auto simp: list_all_iff)

lemma all_nodes_mono: "(\<And>d ts. P d ts \<Longrightarrow> Q d ts) \<Longrightarrow> all_nodes P x \<Longrightarrow> all_nodes Q x"
  by (induction x) (auto simp: list_all_iff)

definition fresh_opcodes :: "opcode set" where
  "fresh_opcodes = {Not, And, Or, Shl, LShr, Select, FixedArray} \<union> range ICmp"

definition keeps :: "(('i, 'f) opdata \<Rightarrow> ty list \<Rightarrow> bool) \<Rightarrow> ('i, 'f) folder \<Rightarrow> bool" where
  "keeps P cf \<longleftrightarrow> (\<forall>x. all_nodes P x \<longrightarrow> yields (cf x) (all_nodes P))"

locale node_condition =
  fixes P :: "('i, 'f) opdata \<Rightarrow> ty list \<Rightarrow> bool"
  assumes const: "P (ConstantIntData t i) []" "P (ConstantFloatData t f) []"
    and fresh: "c \<in> fresh_opcodes \<Longrightarrow> P (OperationData c t) ts"
    and undef: "P d ts \<Longrightarrow> data_opcode d \<in> {Undef, Load} \<Longrightarrow> P (OperationData Undef t) []"
begin

lemma good_undef: "all_nodes P x \<Longrightarrow> op_opcode x \<in> {Undef, Load} \<Longrightarrow> P (OperationData Undef t) []"
  by (cases x) (auto simp: op_opcode_def intro: undef)

lemma make_good:
  assumes "keeps P cf" "P d (map op_type ops)" "list_all (all_nodes P) ops"
  shows "yields (do { n \<leftarrow> mk_operation d ops; cf n }) (all_nodes P)"
  using assms by (auto simp: keeps_def mk_operation_def Let_def list_all_iff ensure_def)

lemma create_const_good:
  assumes "keeps P cf"
  shows "yields (CreateConstantInt S cf i) (all_nodes P)" "yields (CreateConstantFloat S cf f) (all_nodes P)"
    "yields (CreateBool S cf b) (all_nodes P)" "yields (CreateIntOfValue S cf v) (all_nodes P)" "yields (CreateDouble S cf k) (all_nodes P)"
proof -
  show i: "yields (CreateConstantInt S cf i) (all_nodes P)" for i
    by (auto simp: CreateConstantInt_def mk_constant_int_data_def const intro!: yields_bind_any [where f = "type_of_apint S i"] make_good [OF assms])
  show f: "yields (CreateConstantFloat S cf f) (all_nodes P)" for f
    by (auto simp: CreateConstantFloat_def mk_constant_float_data_def const intro!: yields_bind_any [where f = "type_of_apfloat S f"] make_good [OF assms])
  show "yields (CreateBool S cf b) (all_nodes P)" "yields (CreateIntOfValue S cf v) (all_nodes P)" "yields (CreateDouble S cf k) (all_nodes P)"
    unfolding CreateBool_def CreateDouble_def CreateIntOfValue_def by (simp_all add: i f yields_bind_any)
qed

lemma create_undef_good: "keeps P cf \<Longrightarrow> P (OperationData Undef t) [] \<Longrightarrow> yields (CreateUndef cf t) (all_nodes P)"
  unfolding CreateUndef_def by (rule make_good) simp_all

lemma create_binop_good:
  assumes "keeps P cf" "all_nodes P l" "all_nodes P r" "c \<in> fresh_opcodes"
  shows "yields (create_int_binop cf c l r) (all_nodes P)"
  unfolding create_int_binop_def CreateBinary_def using assms
  by (intro yields_bind_any make_good) (simp_all add: fresh)

lemma create_logic_good:
  assumes "keeps P cf" "all_nodes P l" "all_nodes P r"
  shows "yields (CreateAnd cf l r) (all_nodes P)" "yields (CreateOr cf l r) (all_nodes P)" "yields (CreateShl cf l r) (all_nodes P)" "yields (CreateLShr cf l r) (all_nodes P)"
  unfolding CreateAnd_def CreateOr_def CreateShl_def CreateLShr_def
  by (rule create_binop_good [OF assms]; simp add: fresh_opcodes_def)+

lemma create_array_good:
  assumes "keeps P cf" "list_all (all_nodes P) vs"
  shows "yields (CreateFixedArray S cf t vs) (all_nodes P)"
  unfolding CreateFixedArray_def using assms
  by (intro yields_bind_any make_good) (simp_all add: fresh fresh_opcodes_def)

lemma create_icmp_good:
  assumes "keeps P cf" "all_nodes P l"
  shows "yields (CreateICmp_rhs S cf c l k) (all_nodes P)"
  unfolding CreateICmp_rhs_def CreateICmp_def using assms
  by (intro yields_bind_any yields_bind [OF create_const_good(1)] make_good) (simp_all add: fresh fresh_opcodes_def)

lemma create_select_good:
  assumes "keeps P cf" "all_nodes P c" "all_nodes P u" "all_nodes P v"
  shows "yields (CreateSelect cf c u v) (all_nodes P)"
  unfolding CreateSelect_def using assms
  by (intro yields_bind_any make_good) (simp_all add: fresh fresh_opcodes_def)

lemma load_chain_good: "keeps P cf \<Longrightarrow> all_nodes P off \<Longrightarrow> list_all (all_nodes P) vs \<Longrightarrow> all_nodes P out \<Longrightarrow> yields (load_chain S cf off k vs out) (all_nodes P)"
proof (induction vs arbitrary: k out)
  case (Cons v vs)
  show ?case unfolding load_chain.simps
    by (rule yields_bind [OF create_icmp_good], use Cons.prems in simp_all)
      (rule yields_bind [OF create_select_good], use Cons in simp_all)
qed simp

lemma binary_good: "all_nodes P x \<Longrightarrow> (\<And>l r. operands x = [l, r] \<Longrightarrow> all_nodes P l \<Longrightarrow> all_nodes P r \<Longrightarrow> yields (k l r) Q) \<Longrightarrow> yields (with_binary x k) Q"
  by (cases x) (auto simp: with_binary_def split: list.split)

lemma unary_good: "all_nodes P x \<Longrightarrow> (\<And>y. operands x = [y] \<Longrightarrow> all_nodes P y \<Longrightarrow> yields (k y) Q) \<Longrightarrow> yields (with_unary x k) Q"
  by (cases x) (auto simp: with_unary_def split: list.split)

lemma match_binop_good: "match_binop c x = Some (l, r) \<Longrightarrow> all_nodes P x \<Longrightarrow> all_nodes P l \<and> all_nodes P r"
  by (cases x) (auto simp: match_binop_def split: if_splits list.splits)

lemma match_good:
  assumes "all_nodes P l" "all_nodes P r"
  shows "match_lshr_const l = Some (v, s) \<Longrightarrow> all_nodes P v \<and> all_nodes P s"
    and "match_and_mask l = Some (v, m) \<Longrightarrow> all_nodes P v \<and> all_nodes P m"
    and "match_and_shift l r = Some (m, v, s) \<Longrightarrow> all_nodes P m \<and> all_nodes P v \<and> all_nodes P s"
    and "match_and_and l r = Some (m, m', v) \<Longrightarrow> all_nodes P m \<and> all_nodes P m' \<and> all_nodes P v"
  using assms unfolding match_lshr_const_def match_and_mask_def match_and_shift_def match_and_and_def match_masked_def match_mask_and_def
  by (auto split: option.splits if_splits bool.splits dest: match_binop_good)

lemmas good_rules = create_const_good create_undef_good create_logic_good

lemma arith_good:
  assumes "keeps P cf" "all_nodes P x"
  shows "yields (visitAdd S cf x) (all_nodes P)" "yields (visitSub S cf x) (all_nodes P)" "yields (visitMul S cf x) (all_nodes P)" "yields (visitXor S cf x) (all_nodes P)"
    "yields (visitLShr S cf x) (all_nodes P)" "yields (visitAShr S cf x) (all_nodes P)"
    "yields (visitUDiv S cf x) (all_nodes P)" "yields (visitSDiv S cf x) (all_nodes P)" "yields (visitURem S cf x) (all_nodes P)" "yields (visitSRem S cf x) (all_nodes P)"
  unfolding visitAdd_def visitSub_def visitMul_def visitXor_def visitLShr_def visitAShr_def visitUDiv_def visitSDiv_def visitURem_def visitSRem_def
  using assms
  by (auto intro!: binary_good yields_if yields_try yields_bind_any good_rules intro: good_undef simp: is_undef_def)

lemma and_good:
  assumes "keeps P cf" "all_nodes P x"
  shows "yields (visitAnd S cf x) (all_nodes P)" "yields (visitOr S cf x) (all_nodes P)"
proof -
  show "yields (visitAnd S cf x) (all_nodes P)" unfolding visitAnd_def
  proof (intro binary_good [OF assms(2)] yields_if yields_try good_rules assms)
    fix l r assume lr: "all_nodes P l" "all_nodes P r"
    have "yields (do { m \<leftarrow> CreateShl cf msk shift; y \<leftarrow> CreateAnd cf v m; CreateLShr cf y shift }) (all_nodes P)"
      if "match_and_shift l r = Some (msk, v, shift)" for msk v shift
      using match_good(3) [OF lr that] by (auto intro!: yields_bind [where R = "all_nodes P"] good_rules assms)
    moreover have "yields (do { m \<leftarrow> CreateAnd cf mask1 mask2; CreateAnd cf v m }) (all_nodes P)"
      if "match_and_and l r = Some (mask1, mask2, v)" for mask1 mask2 v
      using match_good(4) [OF lr that] by (auto intro!: yields_bind [where R = "all_nodes P"] good_rules assms)
    ultimately show "yields (case match_and_shift l r of
          Some (msk, v, shift) \<Rightarrow> do { m \<leftarrow> CreateShl cf msk shift; y \<leftarrow> CreateAnd cf v m; CreateLShr cf y shift }
        | None \<Rightarrow> (case match_and_and l r of
               Some (mask1, mask2, v) \<Rightarrow> do { m \<leftarrow> CreateAnd cf mask1 mask2; CreateAnd cf v m }
             | None \<Rightarrow> visitOperation x)) (all_nodes P)"
      using assms(2) by (auto split: option.split)
  qed simp_all
  show "yields (visitOr S cf x) (all_nodes P)" unfolding visitOr_def
  proof (intro binary_good [OF assms(2)] yields_if yields_try good_rules assms)
    fix l r assume lr: "all_nodes P l" "all_nodes P r"
    have "yields (do { m \<leftarrow> CreateOr cf m1 m2; CreateAnd cf v1 m }) (all_nodes P)"
      if "match_and_mask l = Some (v1, m1)" "match_and_mask r = Some (v2, m2)" for v1 m1 v2 m2
      using match_good(2) [OF lr that(1)] match_good(2) [OF lr(2,1) that(2)]
      by (auto intro!: yields_bind [where R = "all_nodes P"] good_rules assms)
    then show "yields (case (match_and_mask l, match_and_mask r) of
          (Some (v1, m1), Some (v2, m2)) \<Rightarrow>
            if same_ref S v1 v2 then do { m \<leftarrow> CreateOr cf m1 m2; CreateAnd cf v1 m } else visitOperation x
        | _ \<Rightarrow> visitOperation x) (all_nodes P)"
      using assms(2) by (auto split: option.split)
  qed simp_all
qed

lemma shl_good:
  assumes "keeps P cf" "all_nodes P x"
  shows "yields (visitShl S cf x) (all_nodes P)"
  unfolding visitShl_def
proof (intro binary_good [OF assms(2)] yields_if yields_try good_rules assms)
  fix l r assume lr: "all_nodes P l" "all_nodes P r"
  have "yields (do { mask \<leftarrow> CreateConstantInt S cf k; CreateAnd cf v mask }) (all_nodes P)"
    if "match_lshr_const l = Some (v, s)" for v s k
    using match_good(1) [OF lr that] by (auto intro!: yields_bind [where R = "all_nodes P"] good_rules assms)
  then show "yields (case (match_lshr_const l, as_const_int r) of
          (Some (v, rshift), Some lv) \<Rightarrow>
            (case as_const_int rshift of
               Some rval \<Rightarrow> do {
                 w \<leftarrow> bitwidth (op_type x);
                 let shift = ap_limited S lv w;
                 if ap_eq S lv rval \<and> shift \<noteq> w
                 then do { mask \<leftarrow> CreateConstantInt S cf (ap_bits_from S w shift); CreateAnd cf v mask }
                 else visitOperation x }
             | None \<Rightarrow> None)
        | _ \<Rightarrow> visitOperation x) (all_nodes P)"
    using assms(2) by (auto simp: Let_def split: option.split intro!: yields_bind_any [where f = "bitwidth (op_type x)"])
qed simp_all

lemma float_good:
  assumes "keeps P cf" "all_nodes P x"
  shows "yields (visitFAdd S cf x) (all_nodes P)" "yields (visitFSub S cf x) (all_nodes P)" "yields (visitFMul S cf x) (all_nodes P)"
    "yields (visitFDiv S cf x) (all_nodes P)" "yields (visitFRem S cf x) (all_nodes P)" "yields (visitFCmp S cf c x) (all_nodes P)"
    "yields (visitFIsNaN S cf x) (all_nodes P)"
  unfolding visitFAdd_def visitFSub_def visitFMul_def visitFDiv_def visitFRem_def visitFCmp_def visitFIsNaN_def
  using assms by (auto intro!: binary_good unary_good yields_if yields_try good_rules split: option.split)

lemma unary_visit_good:
  assumes "keeps P cf" "all_nodes P x"
  shows "yields (visitNot S cf x) (all_nodes P)" "yields (visitTrunc S cf x) (all_nodes P)" "yields (visitSExt S cf x) (all_nodes P)"
    "yields (visitZExt S cf x) (all_nodes P)" "yields (visitBitcast x) (all_nodes P)"
proof -
  have m: "all_nodes P v" if "match_unop c y = Some v" "all_nodes P y" for c y v
    using that by (cases y) (auto simp: match_unop_def split: if_splits list.splits)
  show "yields (visitNot S cf x) (all_nodes P)" "yields (visitTrunc S cf x) (all_nodes P)" "yields (visitSExt S cf x) (all_nodes P)"
    "yields (visitBitcast x) (all_nodes P)"
    unfolding visitNot_def visitTrunc_def visitSExt_def visitBitcast_def
    using assms by (auto intro!: unary_good yields_bind_any good_rules split: option.split intro: m)
  show "yields (visitZExt S cf x) (all_nodes P)" unfolding visitZExt_def
  proof (rule unary_good [OF assms(2)])
    fix y assume y: "all_nodes P y"
    have "yields (do { mask \<leftarrow> CreateConstantInt S cf k; CreateAnd cf v mask }) (all_nodes P)" if "match_unop Trunc y = Some v" for v k
      using m [OF that y] by (auto intro!: yields_bind [where R = "all_nodes P"] good_rules assms)
    then show "yields (case as_const_int y of
         Some i \<Rightarrow> do { n \<leftarrow> bitwidth (op_type x); CreateConstantInt S cf (ap_zext S i n) }
       | None \<Rightarrow>
         if op_type x = op_type y then Some y
         else (case match_unop Trunc y of
                 Some inner \<Rightarrow> do {
                   bw1 \<leftarrow> bitwidth (op_type x);
                   bw2 \<leftarrow> bitwidth (op_type inner);
                   tbw \<leftarrow> bitwidth (op_type y);
                   if bw1 = bw2
                   then do { mask \<leftarrow> CreateConstantInt S cf (ap_low_bits S bw1 tbw); CreateAnd cf inner mask }
                   else visitOperation x }
               | None \<Rightarrow> visitOperation x)) (all_nodes P)"
      using assms y by (auto split: option.split intro!: good_rules yields_bind_any [where f = "bitwidth t" for t])
  qed
qed

lemma select_good: "all_nodes P x \<Longrightarrow> yields (visitSelectOp S x) (all_nodes P)"
  by (cases x) (auto simp: visitSelectOp_def split: list.split option.split)

lemma icmp_good: "keeps P cf \<Longrightarrow> all_nodes P x \<Longrightarrow> yields (visitICmp S cf c x) (all_nodes P)"
  unfolding visitICmp_def
  by (auto intro!: binary_good yields_if yields_try yields_bind_any good_rules intro: good_undef simp: is_undef_def)

lemma array_good:
  assumes "keeps P cf" "all_nodes P x"
  shows "yields (visitAllocOp S cf x) (all_nodes P)" "yields (visitStoreOp S cf x) (all_nodes P)" "yields (visitFixedArray x) (all_nodes P)"
    "op_opcode x = Load \<Longrightarrow> yields (visitLoadOp S cf x) (all_nodes P)"
proof -
  show "yields (visitAllocOp S cf x) (all_nodes P)" unfolding visitAllocOp_def CreateFixedArrayFill_def
    using assms by (auto intro!: binary_good create_array_good simp: list_all_iff split: option.split)
  have ops: "list_all (all_nodes P) (operands y)" if "all_nodes P y" for y
    using that by (auto simp: list_all_iff intro: all_nodes_operands)
  have upd: "list_all (all_nodes P) (vs[k := v])" if "list_all (all_nodes P) vs" "all_nodes P v" for vs k v
    using that set_update_subset_insert [of vs k v] by (auto simp: list_all_iff)
  show "yields (visitStoreOp S cf x) (all_nodes P)" using assms
    by (cases x) (auto simp: visitStoreOp_def Let_def split: list.split option.split intro!: yields_bind_any create_array_good upd ops)
  show "yields (visitFixedArray x) (all_nodes P)" using assms by (simp add: visitFixedArray_def)
  assume load: "op_opcode x = Load"
  show "yields (visitLoadOp S cf x) (all_nodes P)" unfolding visitLoadOp_def
  proof (rule binary_good [OF assms(2)])
    fix d off assume d: "all_nodes P d" "all_nodes P off"
    have "yields (do { u \<leftarrow> CreateUndef cf t; load_chain S cf off 0 (operands d) u }) (all_nodes P)" for t
      using good_undef [OF assms(2)] load d ops
      by (auto intro!: yields_bind [where R = "all_nodes P"] create_undef_good load_chain_good assms)
    moreover have "all_nodes P (operands d ! k)" if "k < length (operands d)" for k
      using all_nodes_operands [OF d(1)] that by simp
    ultimately show "yields (if op_opcode d = FixedArray
     then (case as_const_int off of
             Some i \<Rightarrow> do { let k = ap_limited S i size_max; ensure (k < length (operands d)); Some (operands d ! k) }
           | None \<Rightarrow>
               if length (operands d) < 1024
               then do { t \<leftarrow> int_ty 8; u \<leftarrow> CreateUndef cf t; load_chain S cf off 0 (operands d) u }
               else visitOperation x)
     else visitOperation x) (all_nodes P)"
      using assms(2) by (auto simp: Let_def ensure_def split: option.split intro!: yields_bind_any [where f = "int_ty 8"])
  qed
qed

lemma visit_good: "keeps P cf \<Longrightarrow> all_nodes P x \<Longrightarrow> yields (visit S cf x) (all_nodes P)"
  unfolding visit_def
  by (cases "op_opcode x") (simp_all add: arith_good and_good shl_good float_good unary_visit_good select_good icmp_good array_good)

lemma fold_depth_keeps: "keeps P (fold_depth S n)"
  by (induction n) (auto simp: keeps_def visit_good)

lemma constant_fold_keeps: "keeps P (constant_fold S)"
  using fold_depth_keeps [of S] by (simp add: keeps_def constant_fold_def)

end

end
