(* ===== verification/Model_Eval.thy ===== *)
theory Model_Eval
  imports IR_Fold_Total
begin

text \<open>
  The evaluator of expressions under a model of the solver: \<^verbatim>\<open>ModelEvaluator\<close> of src/Solver/ModelEval.cpp.
  The two objects it holds pointers to, the model and the e-graph, are the fields of a record: the
  virtual \<^verbatim>\<open>Model::lookup\<close> and \<^verbatim>\<open>EGraph::extract\<close>. \<open>None\<close> is an abort (\<^verbatim>\<open>CAFFEINE_ASSERT\<close>,
  \<^verbatim>\<open>CAFFEINE_ABORT\<close> or \<^verbatim>\<open>CAFFEINE_UNIMPLEMENTED\<close>).
\<close>

declare One_nat_def [simp del]

section \<open>The visitor\<close>

record ('i, 'f) evaluator =
  lookup :: "symbol \<Rightarrow> nat option \<Rightarrow> ('i, 'f) ir_value option"
  egraph_extract :: "('i, 'f) op \<Rightarrow> ('i, 'f) op option"

type_synonym ('i, 'f) evaluation = "('i, 'f) op \<Rightarrow> ('i, 'f) ir_value option"

definition op_symbol :: "('i, 'f) op \<Rightarrow> symbol option" where
  "op_symbol x = (case op_data x of ConstantData _ _ s \<Rightarrow> Some s | _ \<Rightarrow> None)"

definition evalConstant :: "('i, 'f, 'z) ctx_scheme \<Rightarrow> ('i, 'f, 'm) evaluator_scheme \<Rightarrow> ('i, 'f) evaluation" where
  "evalConstant S M x = do {
     s \<leftarrow> op_symbol x;
     v \<leftarrow> lookup M s None;
     t \<leftarrow> value_type S v;
     if is_void t
     then (if is_int (op_type x) then do { w \<leftarrow> bitwidth (op_type x); Some (Int_Value (ap_make S w 0)) }
           else if is_float (op_type x) then do {
             sem \<leftarrow> llvm_flt_semantics S (op_type x);
             (case sem of Some f \<Rightarrow> Some (Float_Value (fl_zero S f)) | None \<Rightarrow> None) }
           else None)
     else Some v }"

definition evalConstantArray ::
  "('i, 'f, 'z) ctx_scheme \<Rightarrow> ('i, 'f, 'm) evaluator_scheme \<Rightarrow> ('i, 'f) evaluation \<Rightarrow> ('i, 'f) evaluation" where
  "evalConstantArray S M ev x = do {
     s \<leftarrow> op_symbol x;
     sz \<leftarrow> operand_at x 0;
     n \<leftarrow> ev sz;
     i \<leftarrow> apint n;
     v \<leftarrow> lookup M s (Some (ap_limited S i size_max));
     t \<leftarrow> value_type S v;
     ensure (\<not> is_void t);
     Some v }"

text \<open>The loop of \<^verbatim>\<open>visitFixedArray\<close> over the indices still to do.\<close>

fun eval_bytes :: "('i, 'f, 'z) ctx_scheme \<Rightarrow> ('i, 'f) evaluation \<Rightarrow> ('i, 'f) op \<Rightarrow> nat list \<Rightarrow> byte list option" where
  "eval_bytes S ev x [] = Some []"
| "eval_bytes S ev x (i # is) = do {
     y \<leftarrow> operand_at x i;
     v \<leftarrow> ev y;
     b \<leftarrow> apint v;
     ensure (ap_width S b = 8);
     bs \<leftarrow> eval_bytes S ev x is;
     Some (word_of_nat (ap_limited S b 255) # bs) }"

definition evalFixedArray :: "('i, 'f, 'z) ctx_scheme \<Rightarrow> ('i, 'f) evaluation \<Rightarrow> ('i, 'f) evaluation" where
  "evalFixedArray S ev x = do {
     size_val \<leftarrow> array_size S (constant_fold S) x;
     n \<leftarrow> ev size_val;
     i \<leftarrow> apint n;
     w \<leftarrow> bitwidth (op_type size_val);
     let sz = ap_limited S i (2 ^ 64 - 1);
     ensure (sz \<le> size_max);
     bytes \<leftarrow> eval_bytes S ev x [0..<sz];
     t \<leftarrow> int_ty w;
     value_of_array (sa_of_vector bytes) t }"

definition evalAlloc :: "('i, 'f, 'z) ctx_scheme \<Rightarrow> ('i, 'f) evaluation \<Rightarrow> ('i, 'f) evaluation" where
  "evalAlloc S ev x = do {
     size_val \<leftarrow> array_size S (constant_fold S) x;
     n \<leftarrow> ev size_val;
     i \<leftarrow> apint n;
     let sz = ap_limited S i (2 ^ 64 - 1);
     ensure (sz \<le> size_max);
     w \<leftarrow> bitwidth (op_type size_val);
     t \<leftarrow> int_ty w;
     value_of_array (sa_of_vector (replicate sz 0)) t }"

text \<open>The macros \<^verbatim>\<open>VISIT_BINOP\<close> and \<^verbatim>\<open>VISIT_UNOP\<close>.\<close>

definition eval_binop :: "(('i, 'f) ir_value \<Rightarrow> ('i, 'f) ir_value \<Rightarrow> ('i, 'f) ir_value option) \<Rightarrow> ('i, 'f) evaluation \<Rightarrow> ('i, 'f) evaluation" where
  "eval_binop f ev x = do { l \<leftarrow> operand_at x 0; r \<leftarrow> operand_at x 1; a \<leftarrow> ev l; b \<leftarrow> ev r; f a b }"

definition eval_unop :: "(('i, 'f) ir_value \<Rightarrow> ('i, 'f) ir_value option) \<Rightarrow> ('i, 'f) evaluation \<Rightarrow> ('i, 'f) evaluation" where
  "eval_unop f ev x = do { y \<leftarrow> operand_at x 0; a \<leftarrow> ev y; f a }"

text \<open>\<^verbatim>\<open>visitTrunc\<close>, \<^verbatim>\<open>visitZExt\<close> and \<^verbatim>\<open>visitSExt\<close> pass the width of the node's type.\<close>

definition eval_cast :: "(('i, 'f) ir_value \<Rightarrow> nat \<Rightarrow> ('i, 'f) ir_value option) \<Rightarrow> ('i, 'f) evaluation \<Rightarrow> ('i, 'f) evaluation" where
  "eval_cast f ev x = do { y \<leftarrow> operand_at x 0; a \<leftarrow> ev y; w \<leftarrow> bitwidth (op_type x); f a w }"

definition evalSelect :: "('i, 'f, 'z) ctx_scheme \<Rightarrow> ('i, 'f) evaluation \<Rightarrow> ('i, 'f) evaluation" where
  "evalSelect S ev x = do {
     c \<leftarrow> operand_at x 0;
     cv \<leftarrow> ev c;
     i \<leftarrow> apint cv;
     y \<leftarrow> operand_at x (if ap_eq_u64 S i 1 then 1 else 2);
     ev y }"

definition evalICmp :: "('i, 'f, 'z) ctx_scheme \<Rightarrow> ('i, 'f) evaluation \<Rightarrow> icmp_opcode \<Rightarrow> ('i, 'f) evaluation" where
  "evalICmp S ev p x = do {
     l \<leftarrow> operand_at x 0;
     r \<leftarrow> operand_at x 1;
     a \<leftarrow> ev l;
     b \<leftarrow> ev r;
     e \<leftarrow> value_eq S a b;
     (case p of ICmp_EQ \<Rightarrow> Some (value_of_bool S e) | ICmp_NE \<Rightarrow> Some (value_of_bool S (\<not> e)) | _ \<Rightarrow> None) }"

definition evalLoad :: "('i, 'f, 'z) ctx_scheme \<Rightarrow> ('i, 'f) evaluation \<Rightarrow> ('i, 'f) evaluation" where
  "evalLoad S ev x = eval_binop (load_value S) ev x"

definition evalStore :: "('i, 'f, 'z) ctx_scheme \<Rightarrow> ('i, 'f) evaluation \<Rightarrow> ('i, 'f) evaluation" where
  "evalStore S ev x = do {
     d \<leftarrow> operand_at x 0;
     i \<leftarrow> operand_at x 1;
     b \<leftarrow> operand_at x 2;
     dv \<leftarrow> ev d;
     iv \<leftarrow> ev i;
     bv \<leftarrow> ev b;
     store_value S dv iv bv }"

definition evalEGraphNode :: "('i, 'f, 'm) evaluator_scheme \<Rightarrow> ('i, 'f) evaluation \<Rightarrow> ('i, 'f) evaluation" where
  "evalEGraphNode M ev x = do { y \<leftarrow> egraph_extract M x; ev y }"

text \<open>The dispatch of \<^verbatim>\<open>ConstOpVisitor\<close>; \<open>ev\<close> is the recursive call.\<close>

definition eval_visit ::
  "('i, 'f, 'z) ctx_scheme \<Rightarrow> ('i, 'f, 'm) evaluator_scheme \<Rightarrow> ('i, 'f) evaluation \<Rightarrow> ('i, 'f) evaluation" where
  "eval_visit S M ev x =
     (case op_opcode x of
        ConstantNamed \<Rightarrow> evalConstant S M x | ConstantNumbered \<Rightarrow> evalConstant S M x
      | ConstantInt \<Rightarrow> map_option Int_Value (as_const_int x)
      | ConstantFloat \<Rightarrow> map_option Float_Value (as_const_float x)
      | ConstantArray \<Rightarrow> evalConstantArray S M ev x
      | EGraphNode \<Rightarrow> evalEGraphNode M ev x
      | Add \<Rightarrow> eval_binop (bvadd S) ev x | Sub \<Rightarrow> eval_binop (bvsub S) ev x | Mul \<Rightarrow> eval_binop (bvmul S) ev x
      | UDiv \<Rightarrow> eval_binop (bvudiv S) ev x | SDiv \<Rightarrow> eval_binop (bvsdiv S) ev x
      | URem \<Rightarrow> eval_binop (bvurem S) ev x | SRem \<Rightarrow> eval_binop (bvsrem S) ev x
      | And \<Rightarrow> eval_binop (bvand S) ev x | Or \<Rightarrow> eval_binop (bvor S) ev x | Xor \<Rightarrow> eval_binop (bvxor S) ev x
      | Shl \<Rightarrow> eval_binop (bvshl S) ev x | LShr \<Rightarrow> eval_binop (bvlshr S) ev x | AShr \<Rightarrow> eval_binop (bvashr S) ev x
      | FAdd \<Rightarrow> eval_binop (fadd S) ev x | FSub \<Rightarrow> eval_binop (fsub S) ev x | FMul \<Rightarrow> eval_binop (fmul S) ev x
      | FDiv \<Rightarrow> eval_binop (fdiv S) ev x | FRem \<Rightarrow> eval_binop (frem S) ev x
      | Not \<Rightarrow> eval_unop (bvnot S) ev x | FNeg \<Rightarrow> eval_unop (fneg S) ev x | FIsNaN \<Rightarrow> eval_unop (FIsNaN_value S) ev x
      | Trunc \<Rightarrow> eval_cast (trunc_value S) ev x | ZExt \<Rightarrow> eval_cast (zext_value S) ev x | SExt \<Rightarrow> eval_cast (sext_value S) ev x
      | Bitcast \<Rightarrow> eval_unop (\<lambda>v. bitcast_value S v (op_type x)) ev x
      | Select \<Rightarrow> evalSelect S ev x | ICmp p \<Rightarrow> evalICmp S ev p x
      | Alloc \<Rightarrow> evalAlloc S ev x | Load \<Rightarrow> evalLoad S ev x | Store \<Rightarrow> evalStore S ev x
      | FixedArray \<Rightarrow> evalFixedArray S ev x
      | _ \<Rightarrow> None)"

text \<open>\<^verbatim>\<open>ModelEvaluator::visit\<close> with at most \<open>d\<close> nested calls.\<close>

primrec eval_depth :: "('i, 'f, 'z) ctx_scheme \<Rightarrow> ('i, 'f, 'm) evaluator_scheme \<Rightarrow> nat \<Rightarrow> ('i, 'f) evaluation" where
  "eval_depth S M 0 x = None"
| "eval_depth S M (Suc d) x = eval_visit S M (eval_depth S M d) x"

text \<open>
  \<^verbatim>\<open>Model::evaluate\<close>. A node of height \<open>h\<close> makes at most \<open>h\<close> nested calls, one more for the size node
  of a fixed array; extracting from the e-graph may need more, which the depth \<open>d\<close> adds.
\<close>

definition evaluate :: "('i, 'f, 'z) ctx_scheme \<Rightarrow> ('i, 'f, 'm) evaluator_scheme \<Rightarrow> nat \<Rightarrow> ('i, 'f) evaluation" where
  "evaluate S M d x = eval_depth S M (height x + 1 + d) x"

section \<open>Values represented\<close>

fun represents :: "('i, 'f, 'z) ctx_scheme \<Rightarrow> ('i, 'f) ir_value \<Rightarrow> 'f sval \<Rightarrow> bool" where
  "represents S (Int_Value i) (SInt w n) \<longleftrightarrow> ap_width S i = w \<and> ap_val S i = n"
| "represents S (Float_Value f) (SFloat g) \<longleftrightarrow> f = g"
| "represents S (Array_Value a w) (SArr w' bs) \<longleftrightarrow> w = w' \<and> sa_wf a \<and> sa_size a \<le> size_max \<and> map unat (sa_list a) = bs"
| "represents S _ _ \<longleftrightarrow> False"

primrec everywhere :: "(('i, 'f) op \<Rightarrow> bool) \<Rightarrow> ('i, 'f) op \<Rightarrow> bool" where
  "everywhere P (Operation d ops) \<longleftrightarrow> P (Operation d ops) \<and> list_all id (map (everywhere P) ops)"

lemma everywhereD: "everywhere P x \<Longrightarrow> P x" "everywhere P x \<Longrightarrow> y \<in> set (operands x) \<Longrightarrow> everywhere P y"
  by (cases x; auto simp: list_all_iff)+

text \<open>
  The nodes that the evaluator gets right. It calls \<^verbatim>\<open>Value(bool)\<close> for comparisons, which is no boolean
  when they are false; fills an allocation with zeros; reads the length of a fixed array modulo the
  number of indices; and cuts sizes at the largest \<^verbatim>\<open>size_t\<close>. \<open>st\<close> gives the type of a symbol.
\<close>

definition sizes_fit :: "('i, 'f, 'z) ctx_scheme \<Rightarrow> 'f senv \<Rightarrow> ('i, 'f) op \<Rightarrow> bool" where
  "sizes_fit S E y \<longleftrightarrow> (\<forall>n\<in>ivals S E y. n \<le> size_max)"

definition eval_node_ok :: "('i, 'f, 'z) ctx_scheme \<Rightarrow> 'f senv \<Rightarrow> (symbol \<Rightarrow> ty) \<Rightarrow> ('i, 'f) op \<Rightarrow> bool" where
  "eval_node_ok S E st x \<longleftrightarrow>
     (case (op_opcode x, operands x) of
        (ICmp _, _) \<Rightarrow> beh S E x = {SInt 1 1}
      | (Alloc, [sz, d]) \<Rightarrow> SInt 8 0 \<in> beh S E d \<and> sizes_fit S E sz
      | (FixedArray, ops) \<Rightarrow> length ops < 2 ^ desc (op_type x)
      | (ConstantNamed, _) \<Rightarrow> (\<forall>s. op_symbol x = Some s \<longrightarrow> op_type x = st s)
      | (ConstantNumbered, _) \<Rightarrow> (\<forall>s. op_symbol x = Some s \<longrightarrow> op_type x = st s)
      | (ConstantArray, [sz]) \<Rightarrow> sizes_fit S E sz \<and> (\<forall>s. op_symbol x = Some s \<longrightarrow> op_type x = st s)
      | (Bitcast, _) \<Rightarrow> (\<forall>v u r. represents S v u \<longrightarrow> bitcast_value S v (op_type x) = Some r \<longrightarrow>
                            represents S r (conv E Bitcast (op_type x) u))
      | _ \<Rightarrow> True)"

abbreviation eval_ok :: "('i, 'f, 'z) ctx_scheme \<Rightarrow> 'f senv \<Rightarrow> (symbol \<Rightarrow> ty) \<Rightarrow> ('i, 'f) op \<Rightarrow> bool" where
  "eval_ok S E st \<equiv> everywhere (eval_node_ok S E st)"

text \<open>The model and the e-graph describe the environment \<open>E\<close>.\<close>

definition agrees :: "('i, 'f, 'z) ctx_scheme \<Rightarrow> ('i, 'f, 'm) evaluator_scheme \<Rightarrow> 'f senv \<Rightarrow> (symbol \<Rightarrow> ty) \<Rightarrow> bool" where
  "agrees S M E st \<longleftrightarrow>
     (\<forall>c s v. evalConstant S M (Operation (ConstantData c (st s) s) []) = Some v \<longrightarrow> inhabited S (st s) \<longrightarrow>
        represents S v (sym_val E (st s) s))
   \<and> (\<forall>s n v t w. st s = Type Array w \<longrightarrow> lookup M s (Some n) = Some v \<longrightarrow> value_type S v = Some t \<longrightarrow> \<not> is_void t \<longrightarrow>
        represents S v (SArr w (map (arr_val E s) [0..<n])))
   \<and> (\<forall>x y. op_opcode x = EGraphNode \<longrightarrow> egraph_extract M x = Some y \<longrightarrow> wt S y \<and> eval_ok S E st y \<and> beh S E y \<subseteq> beh S E x)"

section \<open>Soundness\<close>

definition sound_eval :: "('i, 'f, 'z) ctx_scheme \<Rightarrow> 'f senv \<Rightarrow> (symbol \<Rightarrow> ty) \<Rightarrow> ('i, 'f) evaluation \<Rightarrow> bool" where
  "sound_eval S E st ev \<longleftrightarrow>
     (\<forall>x v. wt S x \<longrightarrow> eval_ok S E st x \<longrightarrow> ev x = Some v \<longrightarrow> (\<exists>u\<in>beh S E x. represents S v u))"

lemma sound_evalD:
  "sound_eval S E st ev \<Longrightarrow> wt S x \<Longrightarrow> eval_ok S E st x \<Longrightarrow> ev x = Some v \<Longrightarrow> \<exists>u\<in>beh S E x. represents S v u"
  unfolding sound_eval_def by blast

lemma eval_int:
  assumes "world_ok S E" "sound_eval S E st ev" "is_i S w x" "eval_ok S E st x" "ev x = Some v"
  shows "\<exists>i. v = Int_Value i \<and> ap_width S i = w \<and> ap_val S i \<in> ivals S E x"
proof -
  obtain u where u: "u \<in> beh S E x" "represents S v u"
    using sound_evalD [OF assms(2) _ assms(4,5)] assms(3) by (auto simp: is_i_def)
  then obtain n where n: "u = SInt w n" "n \<in> ivals S E x" using ivalsD(5) [OF assms(1,3)] by auto
  then show ?thesis using u(2) by (cases v) auto
qed

lemma eval_array:
  assumes "world_ok S E" "sound_eval S E st ev" "wt S x" "op_type x = Type Array w" "eval_ok S E st x" "ev x = Some v"
  shows "\<exists>a. v = Array_Value a w \<and> sa_wf a \<and> sa_size a \<le> size_max \<and> SArr w (map unat (sa_list a)) \<in> beh S E x"
proof -
  obtain u where u: "u \<in> beh S E x" "represents S v u" using sound_evalD [OF assms(2,3,5,6)] by auto
  have "typed S (beh S E x) (Type Array w)" using wt_typed [OF world_okD(1,2) [OF assms(1)] assms(3)] assms(4) by simp
  then obtain bs where "u = SArr w bs" using typed_arrayD(4) u(1) by blast
  then show ?thesis using u by (cases v) auto
qed

lemma eval_float:
  assumes "world_ok S E" "sound_eval S E st ev" "wt S x" "is_float (op_type x)" "eval_ok S E st x" "ev x = Some v"
  shows "\<exists>f. v = Float_Value f \<and> SFloat f \<in> beh S E x"
proof -
  obtain u where u: "u \<in> beh S E x" "represents S v u" using sound_evalD [OF assms(2,3,5,6)] by auto
  have "typed S (beh S E x) (op_type x)" using wt_typed [OF world_okD(1,2) [OF assms(1)] assms(3)] by simp
  then obtain f where "u = SFloat f" using typed_floatD(2) [OF _ assms(4)] u(1) by blast
  then show ?thesis using u by (cases v) auto
qed

lemma operand_at_list [simp]: "operand_at (Operation d ops) i = (if i < length ops then Some (ops ! i) else None)"
  by (simp add: operand_at_def num_operands_def)

lemma int_node_operands:
  "operand_at (int_node c w ops) i = (if i < length ops then Some (ops ! i) else None)"
  by (simp add: int_node_def)

text \<open>The operations of \<^verbatim>\<open>Value\<close> on integers compute a value the reference semantics allows.\<close>

definition int_value_op :: "('i, 'f, 'z) ctx_scheme \<Rightarrow> opcode \<Rightarrow> (('i, 'f) ir_value \<Rightarrow> ('i, 'f) ir_value \<Rightarrow> ('i, 'f) ir_value option) \<Rightarrow> bool" where
  "int_value_op S c f \<longleftrightarrow>
     (\<forall>a b v w. f (Int_Value a) (Int_Value b) = Some v \<longrightarrow> int_value_ok S w a \<longrightarrow> int_value_ok S w b \<longrightarrow>
        (\<exists>i. v = Int_Value i \<and> ap_width S i = w \<and> ap_val S i \<in> int_sem c w (ap_val S a) (ap_val S b)))"

lemma int_value_ops:
  assumes "apint_laws S"
  shows "int_value_op S Add (bvadd S)" "int_value_op S Sub (bvsub S)" "int_value_op S Mul (bvmul S)"
    "int_value_op S And (bvand S)" "int_value_op S Or (bvor S)" "int_value_op S Xor (bvxor S)"
    "int_value_op S Shl (bvshl S)" "int_value_op S LShr (bvlshr S)" "int_value_op S AShr (bvashr S)"
  using assms
  by (auto simp: int_value_op_def int_value_ok_def int_binop_def ap_laws
      bvadd_def bvsub_def bvmul_def bvand_def bvor_def bvxor_def bvshl_def bvlshr_def bvashr_def)

lemma division_value_ops:
  assumes L: "apint_laws S"
  shows "int_value_op S UDiv (bvudiv S) \<and> int_value_op S SDiv (bvsdiv S) \<and> int_value_op S URem (bvurem S) \<and> int_value_op S SRem (bvsrem S)"
proof -
  have m: "(2 :: nat) ^ (w - 1) - 1 < 2 ^ w" for w
    using power_increasing [of "w - 1" w "2 :: nat"] zero_less_power [of "2 :: nat" w] by linarith
  have "(bvudiv S (Int_Value a) (Int_Value b) = Some v \<longrightarrow> (\<exists>i. v = Int_Value i \<and> ap_width S i = w \<and> ap_val S i \<in> int_sem UDiv w (ap_val S a) (ap_val S b)))
      \<and> (bvsdiv S (Int_Value a) (Int_Value b) = Some v \<longrightarrow> (\<exists>i. v = Int_Value i \<and> ap_width S i = w \<and> ap_val S i \<in> int_sem SDiv w (ap_val S a) (ap_val S b)))
      \<and> (bvurem S (Int_Value a) (Int_Value b) = Some v \<longrightarrow> (\<exists>i. v = Int_Value i \<and> ap_width S i = w \<and> ap_val S i \<in> int_sem URem w (ap_val S a) (ap_val S b)))
      \<and> (bvsrem S (Int_Value a) (Int_Value b) = Some v \<longrightarrow> (\<exists>i. v = Int_Value i \<and> ap_width S i = w \<and> ap_val S i \<in> int_sem SRem w (ap_val S a) (ap_val S b)))"
    if ok: "int_value_ok S w a" "int_value_ok S w b" for a b v w
  proof -
    have "ap_val S a < 2 ^ w" using apint_lawsD(1) [OF L, of a] ok(1) by (simp add: int_value_ok_def)
    then show ?thesis using division_values [OF L ok] m by auto
  qed
  then show ?thesis unfolding int_value_op_def by blast
qed

lemma eval_int_binop:
  assumes W: "world_ok S E" and ev: "sound_eval S E st ev" and x: "wt S x" "eval_ok S E st x" "op_opcode x = c" "c \<in> int_ops"
    and f: "int_value_op S c f" and v: "eval_binop f ev x = Some v"
  shows "\<exists>u\<in>beh S E x. represents S v u"
proof -
  obtain w l r where n: "x = int_node c w [l, r]" "is_i S w l" "is_i S w r" using wt_int_op [OF x(1,3,4)] by blast
  have ok: "eval_ok S E st l" "eval_ok S E st r" using everywhereD(2) [OF x(2)] by (simp_all add: n(1))
  obtain a b where ab: "ev l = Some a" "ev r = Some b" "f a b = Some v"
    using v by (auto simp: n(1) eval_binop_def int_node_operands Option.bind_eq_Some_conv)
  obtain i where i: "a = Int_Value i" "ap_width S i = w" "ap_val S i \<in> ivals S E l"
    using eval_int [OF W ev n(2) ok(1) ab(1)] by blast
  obtain j where j: "b = Int_Value j" "ap_width S j = w" "ap_val S j \<in> ivals S E r"
    using eval_int [OF W ev n(3) ok(2) ab(2)] by blast
  have w: "0 < w" "w < 2 ^ 24" using ivalsD(1,2) [OF W n(2)] by simp_all
  obtain k where k: "v = Int_Value k" "ap_width S k = w" "ap_val S k \<in> int_sem c w (ap_val S i) (ap_val S j)"
    using f ab(3) i j w unfolding int_value_op_def int_value_ok_def by blast
  have "ap_val S k \<in> ivals S E x" using int_binop_node(2) [OF W x(4) n(2,3)] i(3) j(3) k(3) n(1) by blast
  then have "SInt w (ap_val S k) \<in> beh S E x" using ivalsD(5) [OF W int_binop_node(1) [OF W x(4) n(2,3)]] n(1) by simp
  then show ?thesis using k by force
qed

definition float_value_op :: "('i, 'f, 'z) ctx_scheme \<Rightarrow> opcode \<Rightarrow> (('i, 'f) ir_value \<Rightarrow> ('i, 'f) ir_value \<Rightarrow> ('i, 'f) ir_value option) \<Rightarrow> bool" where
  "float_value_op S c f \<longleftrightarrow>
     (\<forall>a b v. f (Float_Value a) (Float_Value b) = Some v \<longrightarrow> (\<exists>g\<in>float_sem S c a b. v = Float_Value g))"

lemma float_value_ops:
  "float_value_op S FAdd (fadd S)" "float_value_op S FSub (fsub S)" "float_value_op S FMul (fmul S)"
  "float_value_op S FDiv (fdiv S)" "float_value_op S FRem (frem S)"
  by (auto simp: float_value_op_def float_binop_def apfloat_def fadd_def fsub_def fmul_def fdiv_def frem_def)

lemma eval_float_binop:
  assumes W: "world_ok S E" and ev: "sound_eval S E st ev" and x: "wt S x" "eval_ok S E st x" "op_opcode x = c" "c \<in> float_ops"
    and f: "float_value_op S c f" and v: "eval_binop f ev x = Some v"
  shows "\<exists>u\<in>beh S E x. represents S v u"
proof -
  obtain t l r where n: "x = Operation (OperationData c t) [l, r]" "wt S l" "wt S r" "op_type l = t" "op_type r = t" "op_type x = t"
    by (rule wt_float_op [OF x(1,3,4)])
  have fl: "is_float t"
    using x(1) n(1,4,5) wt_operation_float [OF x(4), of S t] by simp
  have ok: "eval_ok S E st l" "eval_ok S E st r" using everywhereD(2) [OF x(2)] by (simp_all add: n(1))
  obtain a b where ab: "ev l = Some a" "ev r = Some b" "f a b = Some v"
    using v by (auto simp: n(1) eval_binop_def Option.bind_eq_Some_conv)
  obtain g where g: "a = Float_Value g" "SFloat g \<in> beh S E l" using eval_float [OF W ev n(2) _ ok(1) ab(1)] fl n(4) by blast
  obtain h where h: "b = Float_Value h" "SFloat h \<in> beh S E r" using eval_float [OF W ev n(3) _ ok(2) ab(2)] fl n(5) by blast
  obtain k where k: "k \<in> float_sem S c g h" "v = Float_Value k" using f ab(3) g(1) h(1) unfolding float_value_op_def by blast
  have "c \<noteq> Undef" "c \<noteq> FixedArray" "c \<noteq> Alloc" using x(4) by (auto simp: float_ops_def)
  then have "beh S E x = (\<Union>a\<in>beh S E l. \<Union>b\<in>beh S E r. binary_beh S c a b)" by (simp add: n(1))
  moreover have "SFloat k \<in> binary_beh S c (SFloat g) (SFloat h)" using k(1) by (simp add: binary_beh_float [OF x(4)])
  ultimately have "SFloat k \<in> beh S E x" using g(2) h(2) by blast
  then show ?thesis using k(2) by force
qed

text \<open>The conversions of integers.\<close>

lemma eval_int_unary:
  assumes W: "world_ok S E" and ev: "sound_eval S E st ev"
    and x: "wt S x" "eval_ok S E st x" "op_opcode x = c" "c \<in> {Not, Trunc, ZExt, SExt}"
    and f: "\<And>i w n r. f (Int_Value i) n = Some r \<Longrightarrow> int_value_ok S w i \<Longrightarrow> widths_ok c w n \<Longrightarrow>
      \<exists>k. r = Int_Value k \<and> ap_width S k = n \<and> ap_val S k = unary_sem c w n (ap_val S i)"
    and v: "(do { y \<leftarrow> operand_at x 0; a \<leftarrow> ev y; f a (desc (op_type x)) }) = Some v"
  shows "\<exists>u\<in>beh S E x. represents S v u"
proof -
  obtain w n a where n: "x = int_node c n [a]" "is_i S w a" "widths_ok c w n" using wt_unary [OF x(1,3,4)] by blast
  have ok: "eval_ok S E st a" using everywhereD(2) [OF x(2)] by (simp add: n(1))
  obtain b where b: "ev a = Some b" "f b n = Some v"
    using v by (auto simp: n(1) int_node_operands Option.bind_eq_Some_conv)
  obtain i where i: "b = Int_Value i" "ap_width S i = w" "ap_val S i \<in> ivals S E a"
    using eval_int [OF W ev n(2) ok b(1)] by blast
  have "int_value_ok S w i" using i(2) ivalsD(1,2) [OF W n(2)] by (simp add: int_value_ok_def)
  then obtain k where k: "v = Int_Value k" "ap_width S k = n" "ap_val S k = unary_sem c w n (ap_val S i)"
    using f [OF _ _ n(3)] b(2) i(1) by blast
  have "ap_val S k \<in> ivals S E x" using unary_node(2) [OF W n(2,3)] i(3) k(3) n(1) by simp
  then have "SInt n (ap_val S k) \<in> beh S E x" using ivalsD(5) [OF W unary_node(1) [OF W n(2,3)]] n(1) by simp
  then show ?thesis using k by force
qed

lemma eval_not:
  assumes W: "world_ok S E" and ev: "sound_eval S E st ev" and x: "wt S x" "eval_ok S E st x" "op_opcode x = Not"
    and v: "eval_unop (bvnot S) ev x = Some v"
  shows "\<exists>u\<in>beh S E x. represents S v u"
proof (rule eval_int_unary [OF W ev x, where f = "\<lambda>a n. bvnot S a"])
  show "\<exists>k. r = Int_Value k \<and> ap_width S k = n \<and> ap_val S k = unary_sem Not w n (ap_val S i)"
    if "bvnot S (Int_Value i) = Some r" "int_value_ok S w i" "widths_ok Not w n" for i w n r
    using that world_okD(3) [OF W] by (auto simp: bvnot_def int_value_ok_def widths_ok_def ap_laws)
qed (use v in \<open>simp_all add: eval_unop_def\<close>)

lemma cast_desc:
  fixes S :: "('i, 'f, 'z) ctx_scheme"
  assumes "wt S x" "op_opcode x = c" "c \<in> {Trunc, ZExt, SExt}"
  shows "bitwidth (op_type x) = Some (desc (op_type x))"
proof -
  obtain n a where "x = int_node c n [a]" using wt_unary [OF assms(1,2)] assms(3) by blast
  then show ?thesis by (simp add: bitwidth_int)
qed

lemma eval_casts:
  assumes W: "world_ok S E" and ev: "sound_eval S E st ev" and x: "wt S x" "eval_ok S E st x"
  shows "op_opcode x = Trunc \<Longrightarrow> eval_cast (trunc_value S) ev x = Some v \<Longrightarrow> \<exists>u\<in>beh S E x. represents S v u"
    and "op_opcode x = ZExt \<Longrightarrow> eval_cast (zext_value S) ev x = Some v \<Longrightarrow> \<exists>u\<in>beh S E x. represents S v u"
    and "op_opcode x = SExt \<Longrightarrow> eval_cast (sext_value S) ev x = Some v \<Longrightarrow> \<exists>u\<in>beh S E x. represents S v u"
proof -
  note L = world_okD(3) [OF W]
  show "\<exists>u\<in>beh S E x. represents S v u" if c: "op_opcode x = Trunc" and e: "eval_cast (trunc_value S) ev x = Some v"
  proof (rule eval_int_unary [OF W ev x c, where f = "trunc_value S"])
    show "\<exists>k. r = Int_Value k \<and> ap_width S k = n \<and> ap_val S k = unary_sem Trunc w n (ap_val S i)"
      if "trunc_value S (Int_Value i) n = Some r" "int_value_ok S w i" "widths_ok Trunc w n" for i w n r
      using that L value_bitwidth_int [OF that(2)]
      by (auto simp: trunc_value_def int_value_ok_def widths_ok_def ap_laws Option.bind_eq_Some_conv)
  qed (use e cast_desc [OF x(1) c] in \<open>simp_all add: eval_cast_def\<close>)
  show "\<exists>u\<in>beh S E x. represents S v u" if c: "op_opcode x = ZExt" and e: "eval_cast (zext_value S) ev x = Some v"
  proof (rule eval_int_unary [OF W ev x c, where f = "zext_value S"])
    show "\<exists>k. r = Int_Value k \<and> ap_width S k = n \<and> ap_val S k = unary_sem ZExt w n (ap_val S i)"
      if "zext_value S (Int_Value i) n = Some r" "int_value_ok S w i" "widths_ok ZExt w n" for i w n r
      using that L value_bitwidth_int [OF that(2)]
      by (auto simp: zext_value_def int_value_ok_def widths_ok_def ap_laws Option.bind_eq_Some_conv)
  qed (use e cast_desc [OF x(1) c] in \<open>simp_all add: eval_cast_def\<close>)
  show "\<exists>u\<in>beh S E x. represents S v u" if c: "op_opcode x = SExt" and e: "eval_cast (sext_value S) ev x = Some v"
  proof (rule eval_int_unary [OF W ev x c, where f = "sext_value S"])
    show "\<exists>k. r = Int_Value k \<and> ap_width S k = n \<and> ap_val S k = unary_sem SExt w n (ap_val S i)"
      if "sext_value S (Int_Value i) n = Some r" "int_value_ok S w i" "widths_ok SExt w n" for i w n r
      using that L value_bitwidth_int [OF that(2)]
      by (auto simp: sext_value_def int_value_ok_def widths_ok_def ap_laws Option.bind_eq_Some_conv)
  qed (use e cast_desc [OF x(1) c] in \<open>simp_all add: eval_cast_def\<close>)
qed

lemma wt_shapes:
  fixes S :: "('i, 'f, 'z) ctx_scheme"
  assumes "wt S x"
  shows "op_opcode x = Select \<Longrightarrow> \<exists>t c u v. x = Operation (OperationData Select t) [c, u, v] \<and> is_i S 1 c \<and> wt S u \<and> wt S v"
    and "op_opcode x = Alloc \<Longrightarrow>
      \<exists>w sz d. x = Operation (OperationData Alloc (Type Array w)) [sz, d] \<and> is_i S w sz \<and> is_i S 8 d"
    and "op_opcode x = Store \<Longrightarrow>
      \<exists>w d i b. x = Operation (OperationData Store (Type Array w)) [d, i, b] \<and> wt S d \<and> op_type d = Type Array w \<and> is_i S w i \<and> is_i S 8 b"
    and "op_opcode x = FNeg \<Longrightarrow> \<exists>t a. x = Operation (OperationData FNeg t) [a] \<and> wt S a \<and> is_float (op_type a)"
    and "op_opcode x = FIsNaN \<Longrightarrow> \<exists>t a. x = Operation (OperationData FIsNaN t) [a] \<and> wt S a \<and> is_float (op_type a)"
    and "op_opcode x = Bitcast \<Longrightarrow> \<exists>t a. x = Operation (OperationData Bitcast t) [a] \<and> wt S a"
proof -
  have *: "\<exists>t ops. x = Operation (OperationData c t) ops \<and> list_all (wt S) ops \<and> wt_operation S c t (map op_type ops)"
    if "op_opcode x = c" "c \<notin> leaf_opcodes" for c
    using wt_inner [OF assms that] by metis
  show "op_opcode x = Select \<Longrightarrow> \<exists>t c u v. x = Operation (OperationData Select t) [c, u, v] \<and> is_i S 1 c \<and> wt S u \<and> wt S v"
    using * [of Select] by (fastforce simp: leaf_opcodes_def wt_operation_def map_eq_Cons_conv is_i_def)
  show "op_opcode x = Alloc \<Longrightarrow>
      \<exists>w sz d. x = Operation (OperationData Alloc (Type Array w)) [sz, d] \<and> is_i S w sz \<and> is_i S 8 d"
    using * [of Alloc] by (fastforce simp: leaf_opcodes_def wt_operation_def map_eq_Cons_conv is_i_def)
  show "op_opcode x = Store \<Longrightarrow>
      \<exists>w d i b. x = Operation (OperationData Store (Type Array w)) [d, i, b] \<and> wt S d \<and> op_type d = Type Array w \<and> is_i S w i \<and> is_i S 8 b"
    using * [of Store] by (fastforce simp: leaf_opcodes_def wt_operation_def map_eq_Cons_conv is_i_def)
  show "op_opcode x = FNeg \<Longrightarrow> \<exists>t a. x = Operation (OperationData FNeg t) [a] \<and> wt S a \<and> is_float (op_type a)"
    using * [of FNeg] by (fastforce simp: leaf_opcodes_def wt_operation_def map_eq_Cons_conv)
  show "op_opcode x = FIsNaN \<Longrightarrow> \<exists>t a. x = Operation (OperationData FIsNaN t) [a] \<and> wt S a \<and> is_float (op_type a)"
    using * [of FIsNaN] by (fastforce simp: leaf_opcodes_def wt_operation_def map_eq_Cons_conv)
  show "op_opcode x = Bitcast \<Longrightarrow> \<exists>t a. x = Operation (OperationData Bitcast t) [a] \<and> wt S a"
    using * [of Bitcast] by (fastforce simp: leaf_opcodes_def wt_operation_def int_ops_def float_ops_def map_eq_Cons_conv)
qed

lemma eval_float_unary:
  assumes W: "world_ok S E" and ev: "sound_eval S E st ev" and x: "wt S x" "eval_ok S E st x"
  shows "op_opcode x = FNeg \<Longrightarrow> eval_unop (fneg S) ev x = Some v \<Longrightarrow> \<exists>u\<in>beh S E x. represents S v u"
    and "op_opcode x = FIsNaN \<Longrightarrow> eval_unop (FIsNaN_value S) ev x = Some v \<Longrightarrow> \<exists>u\<in>beh S E x. represents S v u"
proof -
  show "\<exists>u\<in>beh S E x. represents S v u" if c: "op_opcode x = FNeg" and e: "eval_unop (fneg S) ev x = Some v"
  proof -
    obtain t a where n: "x = Operation (OperationData FNeg t) [a]" "wt S a" "is_float (op_type a)" using wt_shapes(4) [OF x(1) c] by blast
    have ok: "eval_ok S E st a" using everywhereD(2) [OF x(2)] by (simp add: n(1))
    obtain b where b: "ev a = Some b" "fneg S b = Some v" using e by (auto simp: n(1) eval_unop_def Option.bind_eq_Some_conv)
    obtain f where f: "b = Float_Value f" "SFloat f \<in> beh S E a" using eval_float [OF W ev n(2,3) ok b(1)] by blast
    have "v = Float_Value (fl_sub S (fl_zero S (fl_sem S f)) f)" using b(2) f(1) by (simp add: fneg_def apfloat_def)
    moreover have "SFloat (fl_sub S (fl_zero S (fl_sem S f)) f) \<in> beh S E x"
      using f(2) by (force simp: n(1) unary_beh_def conv_ops_def)
    ultimately show ?thesis by force
  qed
  show "\<exists>u\<in>beh S E x. represents S v u" if c: "op_opcode x = FIsNaN" and e: "eval_unop (FIsNaN_value S) ev x = Some v"
  proof -
    obtain t a where n: "x = Operation (OperationData FIsNaN t) [a]" "wt S a" "is_float (op_type a)" using wt_shapes(5) [OF x(1) c] by blast
    have ok: "eval_ok S E st a" using everywhereD(2) [OF x(2)] by (simp add: n(1))
    obtain b where b: "ev a = Some b" "FIsNaN_value S b = Some v" using e by (auto simp: n(1) eval_unop_def Option.bind_eq_Some_conv)
    obtain f where f: "b = Float_Value f" "SFloat f \<in> beh S E a" using eval_float [OF W ev n(2,3) ok b(1)] by blast
    have "v = Int_Value (ap_make S 1 (if fl_is_nan S f then 1 else 0))" using b(2) f(1) by (simp add: FIsNaN_value_def apfloat_def)
    then have "represents S v (of_bool1 (fl_is_nan S f))"
      using world_okD(3) [OF W] by (simp add: of_bool1_def ap_laws)
    moreover have "of_bool1 (fl_is_nan S f) \<in> beh S E x"
      using f(2) by (force simp: n(1) unary_beh_def conv_ops_def)
    ultimately show ?thesis by blast
  qed
qed

lemma eval_bitcast:
  assumes ev: "sound_eval S E st ev" and x: "wt S x" "eval_ok S E st x" "op_opcode x = Bitcast"
    and v: "eval_unop (\<lambda>v. bitcast_value S v (op_type x)) ev x = Some v"
  shows "\<exists>u\<in>beh S E x. represents S v u"
proof -
  obtain t a where n: "x = Operation (OperationData Bitcast t) [a]" "wt S a" using wt_shapes(6) [OF x(1,3)] by blast
  have ok: "eval_ok S E st a" "eval_node_ok S E st x" using everywhereD(2) [OF x(2)] everywhereD(1) [OF x(2)] by (simp_all add: n(1))
  obtain b where b: "ev a = Some b" "bitcast_value S b (op_type x) = Some v"
    using v by (auto simp: n(1) eval_unop_def Option.bind_eq_Some_conv)
  obtain u where u: "u \<in> beh S E a" "represents S b u" using sound_evalD [OF ev n(2) ok(1) b(1)] by blast
  have "represents S v (conv E Bitcast (op_type x) u)" using ok(2) u(2) b(2) x(3) by (auto simp: eval_node_ok_def)
  moreover have "conv E Bitcast (op_type x) u \<in> beh S E x" using u(1) by (auto simp: n(1) unary_beh_def conv_ops_def op_type_def)
  ultimately show ?thesis by blast
qed

lemma eval_select:
  assumes W: "world_ok S E" and ev: "sound_eval S E st ev" and x: "wt S x" "eval_ok S E st x" "op_opcode x = Select"
    and v: "evalSelect S ev x = Some v"
  shows "\<exists>u\<in>beh S E x. represents S v u"
proof -
  obtain t c y z where n: "x = Operation (OperationData Select t) [c, y, z]" "is_i S 1 c" "wt S y" "wt S z" using wt_shapes(1) [OF x(1,3)] by blast
  have ok: "eval_ok S E st c" "eval_ok S E st y" "eval_ok S E st z" using everywhereD(2) [OF x(2)] by (simp_all add: n(1))
  obtain b i where b: "ev c = Some b" "apint b = Some i" "ev (if ap_eq_u64 S i 1 then y else z) = Some v"
    using v by (auto simp: n(1) evalSelect_def Option.bind_eq_Some_conv split: if_splits)
  have i: "ap_width S i = 1" "ap_val S i \<in> ivals S E c" using eval_int [OF W ev n(2) ok(1) b(1)] b(2) by auto
  then have "ap_val S i = 0 \<or> ap_val S i = 1" using ivalsD(4) [OF W n(2)] by (auto simp: less_2_cases_iff One_nat_def)
  moreover have "SInt 1 (ap_val S i) \<in> beh S E c" using i(2) ivalsD(5) [OF W n(2)] by simp
  ultimately have "(if ap_eq_u64 S i 1 then beh S E y else beh S E z) \<subseteq> beh S E x"
    using world_okD(3) [OF W] by (auto simp: n(1) ap_laws)
  moreover have "\<exists>u\<in>(if ap_eq_u64 S i 1 then beh S E y else beh S E z). represents S v u"
    using sound_evalD [OF ev n(3) ok(2)] sound_evalD [OF ev n(4) ok(3)] b(3) by (auto split: if_splits)
  ultimately show ?thesis by blast
qed

lemma eval_icmp:
  assumes W: "world_ok S E" and ev: "sound_eval S E st ev" and x: "wt S x" "eval_ok S E st x" "op_opcode x = ICmp p"
    and v: "evalICmp S ev p x = Some v"
  shows "\<exists>u\<in>beh S E x. represents S v u"
proof -
  note L = world_okD(3) [OF W]
  obtain w l r where n: "x = int_node (ICmp p) 1 [l, r]" "is_i S w l" "is_i S w r" using wt_icmp [OF x(1,3)] by blast
  have ok: "eval_ok S E st l" "eval_ok S E st r" "beh S E x = {SInt 1 1}"
    using everywhereD(2) [OF x(2)] everywhereD(1) [OF x(2)] by (simp_all add: n(1) eval_node_ok_def)
  obtain a b e where e: "ev l = Some a" "ev r = Some b" "value_eq S a b = Some e"
      "p = ICmp_EQ \<and> v = value_of_bool S e \<or> p = ICmp_NE \<and> v = value_of_bool S (\<not> e)"
    using v by (cases p) (auto simp: n(1) evalICmp_def int_node_operands Option.bind_eq_Some_conv)
  obtain i where i: "a = Int_Value i" "ap_width S i = w" "ap_val S i \<in> ivals S E l" using eval_int [OF W ev n(2) ok(1) e(1)] by blast
  obtain j where j: "b = Int_Value j" "ap_width S j = w" "ap_val S j \<in> ivals S E r" using eval_int [OF W ev n(3) ok(2) e(2)] by blast
  have "e = (ap_val S i = ap_val S j)" using e(3) i(1,2) j(1,2) L by (simp add: ap_laws)
  moreover have "truth (icmp_sem p w (ap_val S i) (ap_val S j)) \<in> ivals S E x"
    using icmp_node(2) [OF W n(2,3)] i(3) j(3) n(1) by blast
  then have "icmp_sem p w (ap_val S i) (ap_val S j)"
    using ok(3) by (auto simp: ivals_def n(1) truth_def split: if_splits)
  ultimately have "v = value_of_bool S True" using e(4) by auto
  then have "represents S v (SInt 1 1)" using L by (simp add: value_of_bool_def ap_laws)
  then show ?thesis using ok(3) by simp
qed

lemma value_index:
  assumes "w < 2 ^ 24" "int_value_ok S w i"
  shows "value_bitwidth S (Array_Value a w) = Some w" "value_bitwidth S (Int_Value i) = Some w"
  using assms value_bitwidth_int [OF assms(2)] by (simp_all add: value_bitwidth_def value_type_array ir_simps)

lemma eval_load:
  assumes W: "world_ok S E" and ev: "sound_eval S E st ev" and x: "wt S x" "eval_ok S E st x" "op_opcode x = Load"
    and v: "evalLoad S ev x = Some v"
  shows "\<exists>u\<in>beh S E x. represents S v u"
proof -
  note L = world_okD(3) [OF W]
  obtain w d i where n: "x = int_node Load 8 [d, i]" "wt S d" "op_type d = Type Array w" "is_i S w i" by (rule wt_load [OF x(1,3)])
  have ok: "eval_ok S E st d" "eval_ok S E st i" using everywhereD(2) [OF x(2)] by (simp_all add: n(1))
  obtain dv iv where e: "ev d = Some dv" "ev i = Some iv" "load_value S dv iv = Some v"
    using v by (auto simp: n(1) evalLoad_def eval_binop_def int_node_operands Option.bind_eq_Some_conv)
  obtain a where a: "dv = Array_Value a w" "sa_wf a" "sa_size a \<le> size_max" "SArr w (map unat (sa_list a)) \<in> beh S E d"
    using eval_array [OF W ev n(2,3) ok(1) e(1)] by blast
  obtain k where k: "iv = Int_Value k" "ap_width S k = w" "ap_val S k \<in> ivals S E i" using eval_int [OF W ev n(4) ok(2) e(2)] by blast
  have r: "ap_val S k < sa_size a" and b: "result_option (sa_load a (ap_limited S k size_max)) = Some b \<Longrightarrow> v = Int_Value (ap_make S 8 (unat b))" for b
    using e(3) a(1) k(1) L by (auto simp: load_value_def ap_laws Option.bind_eq_Some_conv)
  have "ap_limited S k size_max = ap_val S k" using r a(3) L by (simp add: ap_laws)
  then have v: "v = Int_Value (ap_make S 8 (unat (sa_list a ! ap_val S k)))" using b r sa_load_list [OF a(2) r] by simp
  have "SInt w (ap_val S k) \<in> beh S E i" using k(3) ivalsD(5) [OF W n(4)] by simp
  then have "SInt 8 (unat (sa_list a ! ap_val S k)) \<in> beh S E x"
    using a(2,4) r by (force simp: n(1) int_node_def binary_beh_def)
  moreover have "unat (sa_list a ! ap_val S k) < 2 ^ 8" using unsigned_less [of "sa_list a ! ap_val S k"] by simp
  ultimately show ?thesis using v L by (intro bexI [of _ "SInt 8 (unat (sa_list a ! ap_val S k))"]) (simp_all add: ap_laws)
qed

lemma eval_store:
  assumes W: "world_ok S E" and ev: "sound_eval S E st ev" and x: "wt S x" "eval_ok S E st x" "op_opcode x = Store"
    and v: "evalStore S ev x = Some v"
  shows "\<exists>u\<in>beh S E x. represents S v u"
proof -
  note L = world_okD(3) [OF W]
  obtain w d i b where n: "x = Operation (OperationData Store (Type Array w)) [d, i, b]" "wt S d" "op_type d = Type Array w"
      "is_i S w i" "is_i S 8 b" using wt_shapes(3) [OF x(1,3)] by blast
  have ok: "eval_ok S E st d" "eval_ok S E st i" "eval_ok S E st b" using everywhereD(2) [OF x(2)] by (simp_all add: n(1))
  obtain dv iv bv where e: "ev d = Some dv" "ev i = Some iv" "ev b = Some bv" "store_value S dv iv bv = Some v"
    using v by (auto simp: n(1) evalStore_def numeral_2_eq_2 Option.bind_eq_Some_conv)
  obtain a where a: "dv = Array_Value a w" "sa_wf a" "sa_size a \<le> size_max" "SArr w (map unat (sa_list a)) \<in> beh S E d"
    using eval_array [OF W ev n(2,3) ok(1) e(1)] by blast
  obtain k where k: "iv = Int_Value k" "ap_width S k = w" "ap_val S k \<in> ivals S E i" using eval_int [OF W ev n(4) ok(2) e(2)] by blast
  obtain c where c: "bv = Int_Value c" "ap_width S c = 8" "ap_val S c \<in> ivals S E b" using eval_int [OF W ev n(5) ok(3) e(3)] by blast
  have w: "int_value_ok S w k" using ivalsD(1,2) [OF W n(4)] k(2) by (simp add: int_value_ok_def)
  obtain src cp where cp: "sa_copy a = (src, cp)" by force
  note C = sa_copy_list [OF a(2) cp]
  have r: "ap_val S k < sa_size a" using e(4) a(1) k(1) L by (auto simp: store_value_def ap_laws Option.bind_eq_Some_conv)
  have lim: "ap_limited S k size_max = ap_val S k" "ap_val S c < 2 ^ 8"
    using r a(3) L apint_lawsD(1) [OF L, of c] c(2) by (simp_all add: ap_laws)
  then have lc: "ap_limited S c size_max = ap_val S c" "unat (word_of_nat (ap_val S c) :: byte) = ap_val S c"
    using L by (simp_all add: ap_laws size_max_def unat_of_nat)
  obtain a' where a': "sa_store cp (ap_val S k) (word_of_nat (ap_val S c)) = Inr a'" "sa_wf a'"
      "sa_list a' = (sa_list a)[ap_val S k := word_of_nat (ap_val S c)]" "sa_size a' = sa_size a"
    using sa_store_list [OF C(2), of "ap_val S k" "word_of_nat (ap_val S c)"] C r by auto
  have "v = Array_Value a' w"
    using e(4) a(1) k(1) c(1) a'(1) cp lim lc value_type_int [OF w]
    by (auto simp: store_value_def value_of_array_def ir_simps Option.bind_eq_Some_conv)
  moreover have "SInt w (ap_val S k) \<in> beh S E i" "SInt 8 (ap_val S c) \<in> beh S E b"
    using k(3) c(3) ivalsD(5) [OF W n(4)] ivalsD(5) [OF W n(5)] by simp_all
  then have "SArr w (map unat (sa_list a')) \<in> beh S E x"
    using a(2,4) r a'(3) lc(2) by (force simp: n(1) store_beh_def map_update)
  ultimately show ?thesis using a'(2,4) a(3) by force
qed

lemma size_constant:
  assumes "apint_laws S" "0 < w" "w < 2 ^ 24"
  shows "CreateConstantInt S (constant_fold S) (ap_make S w n) = Some (const_node S (ap_make S w n))"
proof -
  have w: "ap_width S (ap_make S w n) = w" using assms(1,2) by (simp add: ap_laws)
  have "CreateConstantInt S cf (ap_make S w n) = cf (const_node S (ap_make S w n))" for cf
    using assms(2,3) w by (simp add: CreateConstantInt_def mk_constant_int_data_def type_of_apint_def int_ty_Some
        mk_operation_def opcode_num_nargs const_node_def)
  moreover have "constant_fold S (const_node S (ap_make S w n)) = Some (const_node S (ap_make S w n))"
    by (simp add: constant_fold_def const_node_def numeral_eq_Suc visit_def visitOperation_def op_opcode_def)
  ultimately show ?thesis by simp
qed

lemma eval_alloc:
  assumes W: "world_ok S E" and ev: "sound_eval S E st ev" and x: "wt S x" "eval_ok S E st x" "op_opcode x = Alloc"
    and v: "evalAlloc S ev x = Some v"
  shows "\<exists>u\<in>beh S E x. represents S v u"
proof -
  note L = world_okD(3) [OF W]
  obtain w sz d where n: "x = Operation (OperationData Alloc (Type Array w)) [sz, d]" "is_i S w sz" "is_i S 8 d"
    using wt_shapes(2) [OF x(1,3)] by blast
  have ok: "eval_ok S E st sz" "SInt 8 0 \<in> beh S E d" "sizes_fit S E sz"
    using everywhereD(2) [OF x(2)] everywhereD(1) [OF x(2)] by (simp_all add: n(1) eval_node_ok_def op_opcode_def)
  obtain nv i where e: "ev sz = Some nv" "apint nv = Some i"
      "v = Array_Value (sa_of_vector (replicate (ap_limited S i (2 ^ 64 - 1)) 0)) w"
    using v n(2) by (auto simp: n(1) evalAlloc_def is_i_def bitwidth_int value_of_array_def ir_simps Let_def Option.bind_eq_Some_conv int_ty_eq_Some)
  have i: "ap_val S i \<in> ivals S E sz" using eval_int [OF W ev n(2) ok(1) e(1)] e(2) by auto
  then have le: "ap_val S i \<le> size_max" using ok(3) by (simp add: sizes_fit_def)
  then have lim: "ap_limited S i (2 ^ 64 - 1) = ap_val S i" using L by (simp add: ap_laws size_max_def)
  have "SInt w (ap_val S i) \<in> beh S E sz" using i ivalsD(5) [OF W n(2)] by simp
  then have "SArr w (replicate (ap_val S i) 0) \<in> beh S E x" using ok(2) by (auto simp: n(1))
  moreover have "represents S v (SArr w (replicate (ap_val S i) 0))"
    using e(3) lim le by (simp add: sa_of_vector_def sa_wf_def sa_list_def)
  ultimately show ?thesis by blast
qed

lemma eval_bytes_sound:
  assumes W: "world_ok S E" and ev: "sound_eval S E st ev" and ops: "list_all (is_i S 8) ops" "list_all (eval_ok S E st) ops"
  shows "eval_bytes S ev (Operation d ops) is = Some bs \<Longrightarrow> list_all (\<lambda>i. i < length ops) is \<Longrightarrow>
    list_all2 (\<lambda>i b. unat b \<in> ivals S E (ops ! i)) is bs"
proof (induction "is" arbitrary: bs)
  case (Cons i "is")
  note L = world_okD(3) [OF W]
  have i: "is_i S 8 (ops ! i)" "eval_ok S E st (ops ! i)" using Cons.prems(2) ops by (simp_all add: list_all_iff)
  obtain v c bs' where e: "ev (ops ! i) = Some v" "apint v = Some c" "eval_bytes S ev (Operation d ops) is = Some bs'"
      "bs = word_of_nat (ap_limited S c 255) # bs'"
    using Cons.prems by (auto simp: Option.bind_eq_Some_conv)
  have c: "ap_width S c = 8" "ap_val S c \<in> ivals S E (ops ! i)" using eval_int [OF W ev i e(1)] e(2) by auto
  have "ap_val S c < 2 ^ 8" using apint_lawsD(1) [OF L, of c] c(1) by simp
  then have "unat (word_of_nat (ap_limited S c 255) :: byte) = ap_val S c" using L by (simp add: ap_laws unat_of_nat)
  then show ?case using Cons.IH [OF e(3)] Cons.prems(2) c(2) e(4) by simp
qed simp

lemma eval_fixed_array:
  assumes W: "world_ok S E" and ev: "sound_eval S E st ev" and x: "wt S x" "eval_ok S E st x" "op_opcode x = FixedArray"
    and v: "evalFixedArray S ev x = Some v"
  shows "\<exists>u\<in>beh S E x. represents S v u"
proof -
  note L = world_okD(3) [OF W]
  have "FixedArray \<notin> leaf_opcodes" by (simp add: leaf_opcodes_def)
  from wt_inner [OF x(1,3) this] obtain t ts where "wt_operation S FixedArray t ts" "op_type x = t" by metis
  then obtain w where "op_type x = Type Array w" by (auto simp: wt_operation_def)
  then obtain ops where n: "x = array_node w ops" "array_wf S w ops" using wt_array_node [OF x(1,3)] by blast
  have w: "0 < w" "w < 2 ^ 24" "length ops \<le> size_max" using n(2) by (simp_all add: array_wf_def)
  have ok: "list_all (eval_ok S E st) ops" "length ops < 2 ^ w"
    using everywhereD [OF x(2)] by (simp_all add: n(1) array_node_def eval_node_ok_def op_opcode_def op_type_def list_all_iff)
  let ?k = "const_node S (ap_make S w (length ops))"
  have k: "is_i S w ?k" "ivals S E ?k = {length ops}" "eval_ok S E st ?k"
    using const_node [OF W, of "ap_make S w (length ops)"] w ok(2) L by (simp_all add: ap_laws const_node_def eval_node_ok_def op_opcode_def)
  have sz: "array_size S (constant_fold S) x = Some ?k"
    using size_constant [OF L w(1,2)] by (simp add: n(1) array_node_def bitwidth_def is_array_def)
  obtain nv where nv: "ev ?k = Some nv" using v sz by (cases "ev ?k") (simp_all add: evalFixedArray_def)
  obtain i where i: "apint nv = Some i" using v sz nv by (cases "apint nv") (simp_all add: evalFixedArray_def)
  have "bitwidth (op_type ?k) = Some w" using k(1) by (simp add: is_i_def bitwidth_int)
  then have r: "(do { ensure (ap_limited S i (2 ^ 64 - 1) \<le> size_max);
      bytes \<leftarrow> eval_bytes S ev x [0..<ap_limited S i (2 ^ 64 - 1)]; t \<leftarrow> int_ty w; value_of_array (sa_of_vector bytes) t }) = Some v"
    using v by (simp only: evalFixedArray_def Let_def sz nv i Option.bind.bind_lunit)
  obtain j where j: "nv = Int_Value j" "ap_val S j \<in> ivals S E ?k" using eval_int [OF W ev k(1,3) nv] by blast
  have "ap_val S i = length ops" using j i unfolding k(2) by simp
  then have lim: "ap_limited S i (2 ^ 64 - 1) = length ops" using w(3) L by (simp add: ap_laws size_max_def)
  obtain bytes where b: "eval_bytes S ev x [0..<length ops] = Some bytes" "v = Array_Value (sa_of_vector bytes) w"
    using r w int_ty_Some [OF w(1,2)] unfolding lim by (cases "eval_bytes S ev x [0..<length ops]") (simp_all add: value_of_array_def ir_simps is_int_def)
  have "list_all2 (\<lambda>i b. unat b \<in> ivals S E (ops ! i)) [0..<length ops] bytes"
    using eval_bytes_sound [OF W ev _ ok(1)] b(1) n(2) by (simp add: n(1) array_node_def array_wf_def list_all_length)
  then have l: "length bytes = length ops" "map unat bytes \<in> byte_lists S E ops"
    by (auto simp: byte_lists_def list_all2_conv_all_nth)
  then have "SArr w (map unat bytes) \<in> beh S E x" using beh_array_node [OF n(2)] n(1) by simp
  moreover have "represents S v (SArr w (map unat bytes))"
    using b(2) l(1) w(3) by (simp add: sa_of_vector_def sa_wf_def sa_list_def)
  ultimately show ?thesis by blast
qed

lemmas wt_operation_simps = wt_operation_def int_ops_def float_ops_def conv_ops_def

lemma eval_constant:
  assumes A: "agrees S M E st" and x: "wt S x" "eval_ok S E st x" "op_opcode x \<in> {ConstantNamed, ConstantNumbered}"
    and v: "evalConstant S M x = Some v"
  shows "\<exists>u\<in>beh S E x. represents S v u"
proof -
  obtain c t s where n: "x = Operation (ConstantData c t s) []" "inhabited S t"
    using x(1,3) by (cases x; cases "op_data x") (auto simp: op_opcode_def wt_operation_simps)
  moreover have "t = st s" using everywhereD(1) [OF x(2)] x(3) by (auto simp: n(1) eval_node_ok_def op_opcode_def op_symbol_def op_type_def)
  ultimately have "represents S v (sym_val E t s)" using A v unfolding agrees_def by blast
  then show ?thesis by (simp add: n(1))
qed

lemma eval_constant_array:
  assumes W: "world_ok S E" and A: "agrees S M E st" and ev: "sound_eval S E st ev"
    and x: "wt S x" "eval_ok S E st x" "op_opcode x = ConstantArray" and v: "evalConstantArray S M ev x = Some v"
  shows "\<exists>u\<in>beh S E x. represents S v u"
proof -
  obtain t s w sz where n: "x = Operation (ConstantData ConstantArray t s) [sz]" "t = Type Array w" "is_i S w sz"
    using x(1,3) by (cases x; cases "op_data x") (auto simp: op_opcode_def map_eq_Cons_conv is_i_def wt_operation_simps)
  have ok: "eval_ok S E st sz" "sizes_fit S E sz" "st s = Type Array w"
    using everywhereD [OF x(2)] by (simp_all add: n eval_node_ok_def op_opcode_def op_symbol_def op_type_def)
  obtain nv where nv: "ev sz = Some nv" using v by (cases "ev sz") (simp_all add: n(1) evalConstantArray_def op_symbol_def)
  obtain i where i: "nv = Int_Value i" "ap_width S i = w" "ap_val S i \<in> ivals S E sz" using eval_int [OF W ev n(3) ok(1) nv] by blast
  have lim: "ap_limited S i size_max = ap_val S i" using ok(2) i(3) world_okD(3) [OF W] by (simp add: sizes_fit_def ap_laws)
  obtain t' where "lookup M s (Some (ap_val S i)) = Some v" "value_type S v = Some t'" "\<not> is_void t'"
    using v nv i(1) lim by (auto simp: n(1) evalConstantArray_def op_symbol_def Option.bind_eq_Some_conv)
  then have "represents S v (SArr w (map (arr_val E s) [0..<ap_val S i]))" using A ok(3) unfolding agrees_def by blast
  moreover have "SInt w (ap_val S i) \<in> beh S E sz" using i(3) ivalsD(5) [OF W n(3)] by simp
  then have "SArr w (map (arr_val E s) [0..<ap_val S i]) \<in> beh S E x" by (auto simp: n(1))
  ultimately show ?thesis by blast
qed

lemma eval_leaf:
  assumes W: "world_ok S E" and x: "wt S x"
  shows "map_option Int_Value (as_const_int x) = Some v \<Longrightarrow> op_opcode x = ConstantInt \<Longrightarrow> \<exists>u\<in>beh S E x. represents S v u"
    and "map_option Float_Value (as_const_float x) = Some v \<Longrightarrow> op_opcode x = ConstantFloat \<Longrightarrow> \<exists>u\<in>beh S E x. represents S v u"
  using x by (cases x; cases "op_data x"; auto simp: as_const_int_def as_const_float_def op_opcode_def)+

lemma eval_egraph_node:
  assumes A: "agrees S M E st" and ev: "sound_eval S E st ev" and x: "op_opcode x = EGraphNode" and v: "evalEGraphNode M ev x = Some v"
  shows "\<exists>u\<in>beh S E x. represents S v u"
proof -
  obtain y where y: "egraph_extract M x = Some y" "ev y = Some v" using v by (auto simp: evalEGraphNode_def Option.bind_eq_Some_conv)
  then have "wt S y" "eval_ok S E st y" "beh S E y \<subseteq> beh S E x" using A x unfolding agrees_def by blast+
  then show ?thesis using sound_evalD [OF ev _ _ y(2)] by blast
qed

lemma eval_visit_sound:
  assumes W: "world_ok S E" and A: "agrees S M E st" and ev: "sound_eval S E st ev"
    and x: "wt S x" "eval_ok S E st x" and v: "eval_visit S M ev x = Some v"
  shows "\<exists>u\<in>beh S E x. represents S v u"
proof -
  note L = world_okD(3) [OF W]
  note D = division_value_ops [OF L]
  note I = eval_int_binop [OF W ev x] and F = eval_float_binop [OF W ev x]
  note facts = int_value_ops [OF L] D float_value_ops [of S]
  show ?thesis
  proof (cases "op_opcode x" rule: opcode_kinds)
    case 1
    then show ?thesis using v facts I [OF refl 1] by (auto simp: eval_visit_def int_ops_def)
  next
    case 2
    then show ?thesis using v facts F [OF refl 2] by (auto simp: eval_visit_def float_ops_def)
  next
    case 3
    then show ?thesis using v eval_not [OF W ev x] eval_casts [OF W ev x] by (auto simp: eval_visit_def)
  next
    case (4 p)
    then show ?thesis using v eval_icmp [OF W ev x 4] by (simp add: eval_visit_def)
  next
    case (5 p)
    then show ?thesis using v eval_float_unary(2) [OF W ev x] by (auto simp: eval_visit_def)
  next
    case 12
    then show ?thesis
      using v eval_constant [OF A x] eval_constant_array [OF W A ev x] eval_leaf [OF W x(1)] eval_egraph_node [OF A ev]
        eval_float_unary(1) [OF W ev x] eval_fixed_array [OF W ev x]
      by (auto simp: eval_visit_def leaf_opcodes_def)
  qed (use v eval_alloc [OF W ev x] eval_load [OF W ev x] eval_store [OF W ev x] eval_select [OF W ev x]
      eval_bitcast [OF ev x] in \<open>simp_all add: eval_visit_def\<close>)
qed

lemma eval_depth_sound:
  assumes "world_ok S E" "agrees S M E st"
  shows "sound_eval S E st (eval_depth S M d)"
proof (induction d)
  case 0
  show ?case by (simp add: sound_eval_def)
next
  case (Suc d)
  then show ?case using eval_visit_sound [OF assms Suc] by (simp add: sound_eval_def)
qed


text \<open>A model that knows no symbol: the evaluator falls back to zeros.\<close>

definition zero_model :: "(ref_int, ref_float) evaluator" where
  "zero_model = \<lparr>lookup = (\<lambda>s n. if n = None then Some Empty_Value else None), egraph_extract = (\<lambda>_. None)\<rparr>"

lemma zero_model_agrees: "agrees ref_ctx zero_model default_env (\<lambda>_. Type Integer 8)"
  by (auto simp: agrees_def zero_model_def evalConstant_def op_symbol_def value_type_def void_ty_def mk_type_def is_void_def
      is_int_def bitwidth_int op_type_def default_env_def ref_eval)


text \<open>
  C39: a fixed array that has an element for every index is evaluated to the empty array: its size, read
  back as a constant of the index type, wraps around to zero.
\<close>

theorem full_array_evaluates_empty:
  assumes "world_ok S E" "wt S (array_node w ops)" "length ops = 2 ^ w"
  shows "evaluate S M d (array_node w ops) = Some (Array_Value (sa_of_vector []) w)"
proof -
  note L = world_okD(3) [OF assms(1)]
  have w: "0 < w" "w < 2 ^ 24" using assms(2) by (simp_all add: array_wf_def flip: array_wf_wt)
  let ?k = "ap_make S w (length ops)"
  have k: "ap_width S ?k = w" "ap_val S ?k = 0" using L w(1) assms(3) by (simp_all add: ap_laws)
  have "array_size S (constant_fold S) (array_node w ops) = Some (const_node S ?k)"
    using size_constant [OF L w] by (simp add: array_node_def bitwidth_def is_array_def)
  moreover have "eval_depth S M (Suc n) (const_node S ?k) = Some (Int_Value ?k)" for n
    by (simp add: const_node_def eval_visit_def op_opcode_def as_const_int_def)
  moreover have "ap_limited S ?k (2 ^ 64 - 1) = 0" using L k(2) by (simp add: ap_laws)
  moreover have "bitwidth (op_type (const_node S ?k)) = Some w" using k(1) by (simp add: const_node_def op_type_def bitwidth_int)
  ultimately have "evalFixedArray S (eval_depth S M (Suc n)) (array_node w ops) = Some (Array_Value (sa_of_vector []) w)" for n
    using int_ty_Some [OF w] by (simp add: evalFixedArray_def value_of_array_def is_int_def bitwidth_int)
  moreover obtain n where "height (array_node w ops) + 1 + d = Suc (Suc n)"
    using height_pos [of "array_node w ops"] by (intro that [of "height (array_node w ops) - 1 + d"]) simp
  moreover have "op_opcode (array_node w ops) = FixedArray" by (simp add: array_node_def op_opcode_def)
  ultimately show ?thesis by (simp only: evaluate_def eval_depth.simps eval_visit_def opcode.simps)
qed

lemma full_array_evaluates_empty_witness:
  "evaluate ref_ctx zero_model 0 (array_node 1 [byte_const 3, byte_const 4]) = Some (Array_Value (sa_of_vector []) 1)"
  by (rule full_array_evaluates_empty [OF default_world])
    (simp_all add: array_wf_def is_i_def byte_const_def op_type_def type_of_apint_def int_ty_eq_Some ref_eval size_max_def flip: array_wf_wt)

end
