(* ===== verification/Transforms.thy ===== *)
theory Transforms
  imports Assertion_List IR_Fold_Closed Model_Eval "HOL-Library.Multiset"
begin

text \<open>
  The transforms of assertion lists: \<^verbatim>\<open>rebuild\<close> (include/caffeine/IR/Transforms.inl), \<^verbatim>\<open>canonicalize\<close> and
  \<^verbatim>\<open>simplify\<close> (src/IR/Transforms). \<^verbatim>\<open>simplify\<close> propagates equalities of a symbolic constant with a literal to all
  other assertions until nothing changes; it is shown to terminate, by the multiset of the numbers
  of constants in the assertions, and to keep the models of the list.
\<close>

declare One_nat_def [simp del]

section \<open>Rebuilding an expression\<close>

definition count_same :: "('i, 'f, 'z) ctx_scheme \<Rightarrow> ('i, 'f) op list \<Rightarrow> ('i, 'f) op list \<Rightarrow> nat" where
  "count_same S ops ops' = length (filter (\<lambda>(x, y). same_ref S y x) (zip ops ops'))"

fun rebuild :: "('i, 'f, 'z) ctx_scheme \<Rightarrow> ('i, 'f) folder \<Rightarrow> ('i, 'f) folder \<Rightarrow> ('i, 'f) op \<Rightarrow> ('i, 'f) op option" where
  "rebuild S cf visitor (Operation d ops) = do {
     ops' \<leftarrow> those (map (rebuild S cf visitor) ops);
     if count_same S ops ops' = length ops' then visitor (Operation d ops)
     else do { y \<leftarrow> with_new_operands S cf (Operation d ops) ops'; visitor y } }"

section \<open>Canonical form\<close>

definition canonicalize :: "('i, 'f, 'z) ctx_scheme \<Rightarrow> ('i, 'f) folder \<Rightarrow> ('i, 'f) assertion_list \<Rightarrow> ('i, 'f) assertion_list option" where
  "canonicalize S cf al = do {
     as \<leftarrow> those (map (al_get al) (sv_iterate (al_list al) (sv_begin (al_list al))));
     if list_ex (\<lambda>a. is_constant_value S a False) as
     then do { c \<leftarrow> CreateBool S cf False; a \<leftarrow> mk_assertion c; al_insert S cf [a] (al_clear al) }
     else Some al }"

section \<open>Propagation of equalities\<close>

definition is_equality_expr :: "('i, 'f) assertion \<Rightarrow> (('i, 'f) op \<times> ('i, 'f) op) option" where
  "is_equality_expr a =
     (if op_opcode a = ICmp ICmp_EQ
      then case operands a of
             [l, r] \<Rightarrow> if isa_constant l \<and> match_const_int r then Some (l, r)
                       else if match_const_int l \<and> isa_constant r then Some (r, l)
                       else None
           | _ \<Rightarrow> None
      else None)"

definition subst_visitor :: "symbol \<Rightarrow> ('i, 'f) op \<Rightarrow> ('i, 'f) folder" where
  "subst_visitor s v y =
     (if \<not> isa_constant y then Some y
      else do { s' \<leftarrow> op_symbol y; Some (if s' \<noteq> s then y else v) })"

text \<open>
  The loop of \<^verbatim>\<open>replace_all\<close> over the positions of the list; \<open>exc\<close> is the position of \<^verbatim>\<open>exception\<close>. Only the
  current position is erased, so the positions visited are those of the list at the start.
\<close>

fun replace_at :: "('i, 'f, 'z) ctx_scheme \<Rightarrow> ('i, 'f) folder \<Rightarrow> nat \<Rightarrow> symbol \<Rightarrow> ('i, 'f) op \<Rightarrow> nat list \<Rightarrow>
    ('i, 'f) assertion_list \<Rightarrow> ('i, 'f) assertion list \<Rightarrow> (('i, 'f) assertion_list \<times> ('i, 'f) assertion list) option" where
  "replace_at S cf exc s v [] al out = Some (al, out)"
| "replace_at S cf exc s v (i # is) al out =
     (if i = exc then replace_at S cf exc s v is al out
      else do {
        a \<leftarrow> al_get al i;
        changed \<leftarrow> rebuild S cf (subst_visitor s v) a;
        if same_ref S changed a then replace_at S cf exc s v is al out
        else do {
          al' \<leftarrow> al_erase S i al;
          b \<leftarrow> mk_assertion changed;
          replace_at S cf exc s v is al' (out @ [b]) } })"

definition replace_all :: "('i, 'f, 'z) ctx_scheme \<Rightarrow> ('i, 'f) folder \<Rightarrow> nat \<Rightarrow> symbol \<Rightarrow> ('i, 'f) op \<Rightarrow>
    ('i, 'f) assertion_list \<Rightarrow> ('i, 'f) assertion list \<Rightarrow> (('i, 'f) assertion_list \<times> ('i, 'f) assertion list) option" where
  "replace_all S cf exc s v al out = replace_at S cf exc s v (sv_iterate (al_list al) (sv_begin (al_list al))) al out"

text \<open>
  One loop of \<^verbatim>\<open>simplify\<close> over a range. The positions are those of the range when the loop starts; the
  iterator steps over the ones that were erased meanwhile.
\<close>

fun simplify_range :: "('i, 'f, 'z) ctx_scheme \<Rightarrow> ('i, 'f) folder \<Rightarrow> nat list \<Rightarrow>
    ('i, 'f) assertion_list \<Rightarrow> ('i, 'f) assertion list \<Rightarrow> (('i, 'f) assertion_list \<times> ('i, 'f) assertion list) option" where
  "simplify_range S cf [] al added = Some (al, added)"
| "simplify_range S cf (i # is) al added =
     (case al_get al i of
        None \<Rightarrow> simplify_range S cf is al added
      | Some a \<Rightarrow>
          (case is_equality_expr a of
             None \<Rightarrow> simplify_range S cf is al added
           | Some (c, v) \<Rightarrow> do {
               s \<leftarrow> op_symbol c;
               (al', added') \<leftarrow> replace_all S cf i s v al added;
               simplify_range S cf is al' added' }))"

text \<open>The \<^verbatim>\<open>do ... while (!added.empty())\<close> loop.\<close>

partial_function (option) simplify_rounds :: "('i, 'f, 'z) ctx_scheme \<Rightarrow> ('i, 'f) folder \<Rightarrow> ('i, 'f) assertion_list \<Rightarrow>
    ('i, 'f) assertion list \<Rightarrow> ('i, 'f) assertion_list option" where
  "simplify_rounds S cf al added = do {
     let index = backing_size (al_list al);
     al1 \<leftarrow> al_insert S cf added al;
     it \<leftarrow> result_option (iterator_at (al_list al1) index);
     (al2, added') \<leftarrow> simplify_range S cf (sv_iterate (al_list al1) it) al1 [];
     if added' = [] then Some al2 else simplify_rounds S cf al2 added' }"

definition simplify :: "('i, 'f, 'z) ctx_scheme \<Rightarrow> ('i, 'f) folder \<Rightarrow> ('i, 'f) assertion_list \<Rightarrow> ('i, 'f) assertion_list option" where
  "simplify S cf al = do {
     is \<leftarrow> unproven al;
     (al', added) \<leftarrow> simplify_range S cf is al [];
     simplify_rounds S cf al' added }"

section \<open>Classes of expressions\<close>

text \<open>
  Expressions without arrays and without the nodes on which folding is not sound, and (\<open>ints\<close>) those
  among them without conversions of floats, \<^verbatim>\<open>SRem\<close> and nodes of an e-graph; expressions without undefined
  values and divisions, which take one value; the types of the constants.
\<close>

definition scalar_node :: "bool \<Rightarrow> ('i, 'f) opdata \<Rightarrow> ty list \<Rightarrow> bool" where
  "scalar_node ints d ts \<longleftrightarrow>
     (case data_opcode d of
        FCmp _ \<Rightarrow> False | FRem \<Rightarrow> False | Bitcast \<Rightarrow> False | Load \<Rightarrow> False | Store \<Rightarrow> False | Alloc \<Rightarrow> False
      | FIsNaN \<Rightarrow> \<not> ints | FpToUI \<Rightarrow> \<not> ints | FpToSI \<Rightarrow> \<not> ints | UIToFp \<Rightarrow> \<not> ints | SIToFp \<Rightarrow> \<not> ints
      | FpTrunc \<Rightarrow> \<not> ints | FpExt \<Rightarrow> \<not> ints | SRem \<Rightarrow> \<not> ints | EGraphNode \<Rightarrow> \<not> ints
      | Trunc \<Rightarrow> data_type d \<notin> set ts | ZExt \<Rightarrow> data_type d \<notin> set ts | SExt \<Rightarrow> data_type d \<notin> set ts
      | _ \<Rightarrow> True)"

definition defined_node :: "('i, 'f) opdata \<Rightarrow> ty list \<Rightarrow> bool" where
  "defined_node d ts \<longleftrightarrow> data_opcode d \<notin> {Undef, UDiv, SDiv, URem, SRem, Load, Store, Alloc}"

definition symbol_of :: "('i, 'f) opdata \<Rightarrow> (ty \<times> symbol) set" where
  "symbol_of d = (case d of ConstantData c t s \<Rightarrow> if c = ConstantArray then {} else {(t, s)} | _ \<Rightarrow> {})"

definition symbols_in :: "(ty \<times> symbol) set \<Rightarrow> ('i, 'f) opdata \<Rightarrow> ty list \<Rightarrow> bool" where
  "symbols_in X d ts \<longleftrightarrow> symbol_of d \<subseteq> X"

lemma keepsD: "keeps P cf \<Longrightarrow> all_nodes P x \<Longrightarrow> cf x = Some y \<Longrightarrow> all_nodes P y"
  by (simp add: keeps_def yields_def)

interpretation scalar: node_condition "scalar_node ints" for ints
  by unfold_locales (auto simp: scalar_node_def fresh_opcodes_def)

interpretation defined: node_condition defined_node
  by unfold_locales (auto simp: defined_node_def fresh_opcodes_def)

interpretation symbols: node_condition "symbols_in X" for X
  by unfold_locales (auto simp: symbols_in_def symbol_of_def)

primrec syms :: "('i, 'f) op \<Rightarrow> (ty \<times> symbol) set" where
  "syms (Operation d ops) = symbol_of d \<union> \<Union> (set (map syms ops))"

lemma syms_in: "all_nodes (symbols_in X) x \<longleftrightarrow> syms x \<subseteq> X"
proof (induction x)
  case (Operation d ops)
  then show ?case by (auto simp: list_all_iff symbols_in_def)
qed

lemma finite_syms [simp]: "finite (syms x)"
  by (induction x) (auto simp: symbol_of_def split: opdata.split)

lemma fold_syms: "constant_fold S x = Some y \<Longrightarrow> syms y \<subseteq> syms x"
  using keepsD [OF symbols.constant_fold_keeps] syms_in by blast

lemma scalar_foldable: "all_nodes (scalar_node ints) x \<Longrightarrow> fold_ok S E x \<and> in_bounds S x"
proof (cases x)
  case (Operation d ops)
  assume "all_nodes (scalar_node ints) x"
  then have "scalar_node ints d (map op_type ops)" using Operation by simp
  then show ?thesis unfolding fold_ok_def in_bounds_def scalar_node_def Operation
    by (cases "data_opcode d") (auto simp: op_opcode_def op_type_def split: list.split)
qed

section \<open>Replacing operands\<close>

lemma list_all2_antimono: "list_all2 (\<lambda>A b. f b \<in> A) As bs \<Longrightarrow> list_all2 (\<subseteq>) As Bs \<Longrightarrow> list_all2 (\<lambda>A b. f b \<in> A) Bs bs"
  unfolding list_all2_conv_all_nth by (metis subsetD)

lemma list_all2_shapes:
  assumes "list_all2 P As Bs"
  obtains "As = []" "Bs = []" | A B where "As = [A]" "Bs = [B]" "P A B"
  | A B A' B' where "As = [A, A']" "Bs = [B, B']" "P A B" "P A' B'"
  | A B A' B' A'' B'' where "As = [A, A', A'']" "Bs = [B, B', B'']" "P A B" "P A' B'" "P A'' B''"
  | A1 A2 A3 A4 As' B1 B2 B3 B4 Bs' where "As = A1 # A2 # A3 # A4 # As'" "Bs = B1 # B2 # B3 # B4 # Bs'"
  using assms
  by (cases As; cases "tl As"; cases "tl (tl As)"; cases "tl (tl (tl As))") (auto simp: list_all2_Cons1)

lemma node_beh_mono:
  fixes As Bs :: "'f sval set list"
  assumes "list_all2 (\<subseteq>) As Bs"
  shows "node_beh L E d As \<subseteq> node_beh L E d Bs"
proof (cases d)
  case (ConstantData c t s)
  then show ?thesis using assms by (cases As; cases Bs) auto
next
  case (OperationData c t)
  show ?thesis
  proof (cases "c = Undef \<or> c = FixedArray")
    case True
    then show ?thesis using OperationData list_all2_antimono [OF _ assms, of "SInt 8"] by auto
  next
    case False
    from assms show ?thesis
    proof (cases rule: list_all2_shapes)
      case (2 A B)
      then show ?thesis using OperationData False by (simp add: UN_mono)
    next
      case (3 A B A' B')
      then have "(\<Union>a\<in>A. \<Union>b\<in>A'. binary_beh L c a b) \<subseteq> (\<Union>a\<in>B. \<Union>b\<in>B'. binary_beh L c a b)"
        by (intro UN_mono order_refl)
      moreover have "{SArr w bs :: 'f sval |w bs. SInt w (length bs) \<in> A \<and> (\<forall>b\<in>set bs. SInt 8 b \<in> A')}
          \<subseteq> {SArr w bs |w bs. SInt w (length bs) \<in> B \<and> (\<forall>b\<in>set bs. SInt 8 b \<in> B')}" using 3(3,4) by blast
      ultimately show ?thesis using 3 OperationData False by simp
    next
      case (4 A B A' B' A'' B'')
      then have "(\<Union>a\<in>A. \<Union>b\<in>A'. \<Union>x\<in>A''. store_beh a b x) \<subseteq> (\<Union>a\<in>B. \<Union>b\<in>B'. \<Union>x\<in>B''. store_beh a b x)"
        by (intro UN_mono order_refl)
      moreover have "(if SInt 1 1 \<in> A then A' else {}) \<union> (if SInt 1 0 \<in> A then A'' else {})
          \<subseteq> (if SInt 1 1 \<in> B then B' else {}) \<union> (if SInt 1 0 \<in> B then B'' else {})" using 4(3-5) by auto
      ultimately show ?thesis using 4 OperationData False by simp
    qed (use OperationData False in simp_all)
  qed
qed simp_all

lemma mk_operation_wt:
  assumes "wt S (Operation d ops)"
  shows "mk_operation d ops = Some (Operation d ops)"
proof -
  have "fst (snd (opcode_parts (data_opcode d))) \<noteq> 4 \<longrightarrow> fst (snd (opcode_parts (data_opcode d))) = length ops"
  proof (cases d)
    case (OperationData c t)
    then have "wt_operation S c t (map op_type ops)" using assms by simp
    then show ?thesis using OperationData
      by (cases c) (auto simp: wt_operation_def map_eq_Cons_conv int_ops_def float_ops_def conv_ops_def)
  next
    case (ConstantData c t s)
    then show ?thesis using assms by (auto simp: map_eq_Cons_conv)
  qed (use assms in simp_all)
  then show ?thesis by (simp add: mk_operation_def opcode_num_nargs)
qed

definition bool_expr :: "('i, 'f, 'z) ctx_scheme \<Rightarrow> bool \<Rightarrow> (symbol \<Rightarrow> ty) \<Rightarrow> ('i, 'f) op \<Rightarrow> bool" where
  "bool_expr S ints st x \<longleftrightarrow> is_i S 1 x \<and> all_nodes (scalar_node ints) x \<and> (\<forall>(t, s)\<in>syms x. t = st s)"

text \<open>Rebuilding a node with operands that refine the old ones.\<close>

lemma with_new_operands_ok:
  assumes W: "world_ok S E" "clz_law S" and x: "wt S (Operation d ops)" "all_nodes (scalar_node ints) (Operation d ops)"
    and ops': "list_all2 (\<lambda>y x. wt S y \<and> op_type y = op_type x \<and> all_nodes (scalar_node ints) y) ops' ops"
    and y: "with_new_operands S (constant_fold S) (Operation d ops) ops' = r"
  shows "\<exists>y. r = Some y \<and> wt S y \<and> op_type y = op_type (Operation d ops) \<and> all_nodes (scalar_node ints) y
    \<and> syms y \<subseteq> symbol_of d \<union> \<Union> (syms ` set ops')
    \<and> (all_nodes defined_node (Operation d ops) \<and> list_all (all_nodes defined_node) ops' \<longrightarrow> all_nodes defined_node y)
    \<and> (list_all2 (\<lambda>y x. beh S E y \<subseteq> beh S E x) ops' ops \<longrightarrow> beh S E y \<subseteq> beh S E (Operation d ops))"
proof -
  let ?n = "Operation d ops'"
  have types: "map op_type ops' = map op_type ops" and len: "length ops' = length ops"
    and parts: "list_all (wt S) ops'" "list_all (all_nodes (scalar_node ints)) ops'"
    using ops' by (auto simp: list_all2_conv_all_nth list_all_length intro: nth_equalityI)
  have n: "wt S ?n" "all_nodes (scalar_node ints) ?n" using x types parts by (auto simp: list_all_iff)
  have t: "op_type ?n = op_type (Operation d ops)" by (simp add: op_type_def)
  have b: "beh S E ?n \<subseteq> beh S E (Operation d ops)" if "list_all2 (\<lambda>y x. beh S E y \<subseteq> beh S E x) ops' ops"
    using node_beh_mono [of "map (beh S E) ops'" "map (beh S E) ops" S E d] that by (simp add: list_all2_map1 list_all2_map2)
  have F: "fold_ok S E ?n" "in_bounds S ?n" using scalar_foldable [OF n(2)] by blast+
  obtain z where z: "constant_fold S ?n = Some z"
    using fold_depth_returns [OF W n(1) F, of "height ?n + 4"] by (auto simp: constant_fold_def)
  have "refines S E z ?n"
    by (rule sound_folderD [OF fold_depth_sound [OF W(1)] n(1) F(1) z [unfolded constant_fold_def]])
  then have zz: "wt S z" "op_type z = op_type ?n" "beh S E z \<subseteq> beh S E ?n" by (simp_all add: refines_def)
  have "all_nodes (scalar_node ints) z" by (rule keepsD [OF scalar.constant_fold_keeps n(2) z])
  have df: "all_nodes defined_node z" if "all_nodes defined_node (Operation d ops)" "list_all (all_nodes defined_node) ops'"
    using that types by (intro keepsD [OF defined.constant_fold_keeps _ z]) (simp add: list_all_iff)
  have "syms z \<subseteq> syms ?n" by (rule fold_syms [OF z])
  moreover have "mk_operation d ops' = Some ?n" by (rule mk_operation_wt [OF n(1)])
  moreover have "ops' = ops" if "list_all2 (same_ref S) ops ops'"
    using list_all2_mono [OF that, of "(=)"] world_okD(4) [OF W(1)] by (simp add: list.rel_eq)
  ultimately have "r = Some z \<or> r = Some (Operation d ops) \<and> ops' = ops"
    using y z len by (auto simp: with_new_operands_def num_operands_def split: if_splits)
  moreover have "beh S E z \<subseteq> beh S E (Operation d ops)" if "list_all2 (\<lambda>y x. beh S E y \<subseteq> beh S E x) ops' ops"
    using b [OF that] zz(3) by (rule order_trans [rotated])
  ultimately show ?thesis using zz(1,2) t x df \<open>all_nodes (scalar_node ints) z\<close> \<open>syms z \<subseteq> syms ?n\<close> by auto
qed

text \<open>
  The substitution that \<^verbatim>\<open>replace_all\<close> performs, in an environment in which the constant has the value
  of the literal.
\<close>

definition literal_for :: "('i, 'f, 'z) ctx_scheme \<Rightarrow> (symbol \<Rightarrow> ty) \<Rightarrow> symbol \<Rightarrow> ('i, 'f) op \<Rightarrow> bool" where
  "literal_for S st s v \<longleftrightarrow> wt S v \<and> op_type v = st s \<and> as_const_int v \<noteq> None"

lemma literal_nodes:
  assumes "literal_for S st s v"
  shows "all_nodes (scalar_node ints) v" "all_nodes defined_node v" "syms v = {}" "\<exists>n. beh S E v = {n}"
  using assms by (cases v; cases "op_data v"; auto simp: literal_for_def as_const_int_def scalar_node_def defined_node_def symbol_of_def op_opcode_def)+

lemma those_map_Some:
  assumes "\<And>x. x \<in> set xs \<Longrightarrow> \<exists>y. f x = Some y \<and> Q x y"
  shows "\<exists>ys. those (map f xs) = Some ys \<and> list_all2 (\<lambda>y x. Q x y) ys xs"
  using assms
proof (induction xs)
  case (Cons x xs)
  then obtain y ys where "f x = Some y" "Q x y" "those (map f xs) = Some ys" "list_all2 (\<lambda>y x. Q x y) ys xs" by fastforce
  then show ?case by simp
qed simp

lemma isa_constant_wt:
  assumes "wt S (Operation d ops)" "isa_constant (Operation d ops)"
  obtains c t s where "d = ConstantData c t s" "ops = []" "c \<noteq> ConstantArray" "symbol_of d = {(t, s)}"
  using assms by (cases d) (auto simp: isa_constant_def op_opcode_def symbol_of_def wt_operation_def int_ops_def float_ops_def conv_ops_def)

lemma subst_visitor_other:
  assumes "wt S y" "(st s, s) \<notin> syms y" "\<forall>(t, s)\<in>syms y. t = st s"
  shows "subst_visitor s v y = Some y"
proof (cases "isa_constant y")
  case True
  obtain d ops where y: "y = Operation d ops" by (cases y)
  obtain c t s' where d: "d = ConstantData c t s'" "symbol_of d = {(t, s')}"
    using isa_constant_wt assms(1) True y by metis
  then show ?thesis using assms(2,3) True y by (auto simp: subst_visitor_def op_symbol_def)
qed (simp add: subst_visitor_def)

lemma count_same_all:
  assumes "\<And>x y. same_ref S x y = (x = y)"
  shows "length ops' = length ops \<Longrightarrow> count_same S ops ops' \<le> length ops' \<and> (count_same S ops ops' = length ops' \<longleftrightarrow> ops' = ops)"
proof (induction ops' ops rule: list_induct2)
  case (Cons y ys x xs)
  then show ?case by (auto simp: count_same_def assms)
qed (simp add: count_same_def)

lemma rebuild_ok:
  assumes W: "world_ok S E" "clz_law S" "hash_consed S" and v: "literal_for S st s v"
  shows "wt S x \<Longrightarrow> all_nodes (scalar_node ints) x \<Longrightarrow> \<forall>(t, s)\<in>syms x. t = st s \<Longrightarrow>
    \<exists>y. rebuild S (constant_fold S) (subst_visitor s v) x = Some y \<and> wt S y \<and> op_type y = op_type x \<and> all_nodes (scalar_node ints) y
      \<and> (all_nodes defined_node x \<longrightarrow> all_nodes defined_node y) \<and> syms y \<subseteq> syms x - {(st s, s)} \<and> (y \<noteq> x \<longrightarrow> (st s, s) \<in> syms x)
      \<and> (beh S E v = {sym_val E (st s) s} \<longrightarrow> beh S E y \<subseteq> beh S E x)"
    (is "_ \<Longrightarrow> _ \<Longrightarrow> _ \<Longrightarrow> \<exists>y. ?f x = Some y \<and> ?Q x y")
proof (induction x)
  case (Operation d ops)
  have "\<exists>ys. those (map ?f ops) = Some ys \<and> list_all2 (\<lambda>y x. ?Q x y) ys ops"
  proof (rule those_map_Some)
    fix x assume x: "x \<in> set ops"
    then have "wt S x" "all_nodes (scalar_node ints) x" "\<forall>(t, s)\<in>syms x. t = st s"
      using Operation.prems by (auto simp: list_all_iff)
    with Operation.IH [OF x] show "\<exists>y. ?f x = Some y \<and> ?Q x y" by blast
  qed
  then obtain ys where ys: "those (map ?f ops) = Some ys" and Q: "list_all2 (\<lambda>y x. ?Q x y) ys ops" by blast
  have len: "length ys = length ops" using Q by (simp add: list_all2_lengthD)
  have same: "count_same S ops ys = length ys \<longleftrightarrow> ys = ops" using count_same_all [OF _ len, of S] W(3) by (simp add: hash_consed_def)
  have sub: "\<Union> (syms ` set ys) \<subseteq> \<Union> (syms ` set ops) - {(st s, s)}"
    using Q by (fastforce simp: list_all2_conv_all_nth in_set_conv_nth)
  show ?case
  proof (cases "ys = ops")
    case True
    show ?thesis
    proof (cases "(st s, s) \<in> symbol_of d")
      case True
      then obtain c where d: "d = ConstantData c (st s) s" "c \<noteq> ConstantArray"
        by (auto simp: symbol_of_def split: opdata.splits if_splits)
      then have "ops = []" "c = ConstantNamed \<or> c = ConstantNumbered" using Operation.prems(1) by auto
      then have "?f (Operation d ops) = Some v"
        using d by (auto simp: count_same_def subst_visitor_def isa_constant_def op_opcode_def op_symbol_def)
      moreover have "beh S E (Operation d ops) = {sym_val E (st s) s}" using d \<open>ops = []\<close> by simp
      ultimately show ?thesis using True v literal_nodes [OF v] d by (auto simp: literal_for_def op_type_def)
    next
      case False
      then have "(st s, s) \<notin> syms (Operation d ops)" using sub \<open>ys = ops\<close> by auto
      then have "?f (Operation d ops) = Some (Operation d ops)"
        using ys same \<open>ys = ops\<close> subst_visitor_other [OF Operation.prems(1) _ Operation.prems(3)] by simp
      then show ?thesis using Operation.prems \<open>(st s, s) \<notin> syms (Operation d ops)\<close> by auto
    qed
  next
    case False
    then have c: "\<not> isa_constant (Operation d ops)" using len isa_constant_wt Operation.prems(1) by fastforce
    have "list_all2 (\<lambda>y x. wt S y \<and> op_type y = op_type x \<and> all_nodes (scalar_node ints) y) ys ops"
      by (rule list_all2_mono [OF Q]) blast
    from with_new_operands_ok [OF W(1,2) Operation.prems(1,2) this refl]
    obtain z where z: "with_new_operands S (constant_fold S) (Operation d ops) ys = Some z" "wt S z" "op_type z = op_type (Operation d ops)"
      "all_nodes (scalar_node ints) z" "syms z \<subseteq> symbol_of d \<union> \<Union> (syms ` set ys)"
      "all_nodes defined_node (Operation d ops) \<and> list_all (all_nodes defined_node) ys \<longrightarrow> all_nodes defined_node z"
      "list_all2 (\<lambda>y x. beh S E y \<subseteq> beh S E x) ys ops \<longrightarrow> beh S E z \<subseteq> beh S E (Operation d ops)" by blast
    have "(st s, s) \<notin> symbol_of d"
      using Operation.prems(1) False len by (cases d) (auto simp: symbol_of_def split: if_splits)
    then have sz: "syms z \<subseteq> syms (Operation d ops) - {(st s, s)}" using z(5) sub by auto
    have "(st s, s) \<notin> syms z" "\<forall>(t, s)\<in>syms z. t = st s" using sz Operation.prems(3) by blast+
    then have "subst_visitor s v z = Some z" by (rule subst_visitor_other [OF z(2)])
    then have "?f (Operation d ops) = Some z" using ys same False z(1) by simp
    moreover have "(st s, s) \<in> syms (Operation d ops)"
    proof -
      obtain i where i: "i < length ops" "ys ! i \<noteq> ops ! i" using False len by (auto simp: list_eq_iff_nth_eq)
      then have "(st s, s) \<in> syms (ops ! i)" using Q by (simp add: list_all2_conv_all_nth)
      then show ?thesis using i(1) by auto
    qed
    moreover have "list_all2 (\<lambda>y x. beh S E y \<subseteq> beh S E x) ys ops" if "beh S E v = {sym_val E (st s) s}"
      using that by (intro list_all2_mono [OF Q]) blast
    moreover have "all_nodes defined_node z" if dx: "all_nodes defined_node (Operation d ops)"
    proof -
      have "list_all (all_nodes defined_node) ys" using dx Q by (auto simp: list_all2_conv_all_nth list_all_length)
      then show ?thesis using z(6) dx by blast
    qed
    ultimately show ?thesis using z(2-4,7) sz by blast
  qed
qed

section \<open>Expressions with one value\<close>

definition at_most_one :: "'a set \<Rightarrow> bool" where
  "at_most_one A \<longleftrightarrow> (\<forall>a\<in>A. \<forall>b\<in>A. a = b)"

lemma at_most_oneI [simp, intro]: "at_most_one {}" "at_most_one {a}"
  by (simp_all add: at_most_one_def)

lemma at_most_one_UN: "at_most_one A \<Longrightarrow> (\<And>a. at_most_one (F a)) \<Longrightarrow> at_most_one (\<Union>a\<in>A. F a)"
  unfolding at_most_one_def by (metis UN_E)

lemma at_most_one_image: "at_most_one A \<Longrightarrow> at_most_one (f ` A)"
  unfolding at_most_one_def by (metis imageE)

lemma unary_one: "at_most_one (unary_beh L E c t v)"
  by (simp add: unary_beh_def split: sval.split)

lemma binary_one:
  assumes "c \<notin> {UDiv, SDiv, URem, SRem, Load}"
  shows "at_most_one (binary_beh L c u v)"
proof -
  have "at_most_one (int_sem c w a b)" "at_most_one (float_sem L c x y)" for w a b x y
    using assms by (cases c; simp)+
  then show ?thesis using assms
    by (cases u; cases v; cases c) (simp_all add: binary_beh_def at_most_one_image)
qed

lemma bytes_one: "list_all2 (\<lambda>A b. SInt 8 b \<in> A) As bs \<Longrightarrow> list_all2 (\<lambda>A b. SInt 8 b \<in> A) As bs' \<Longrightarrow> list_all at_most_one As \<Longrightarrow> bs = bs'"
proof (induction As arbitrary: bs bs')
  case (Cons A As)
  then show ?case by (auto simp: list_all2_Cons1 at_most_one_def)
qed simp

lemma node_one:
  assumes "defined_node d ts" "list_all at_most_one As"
  shows "at_most_one (node_beh L E d As)"
proof (cases d)
  case (ConstantData c t s)
  then show ?thesis using assms(2) by (cases As) (auto simp: at_most_one_def)
next
  case (OperationData c t)
  then have c: "c \<notin> {Undef, UDiv, SDiv, URem, SRem, Load, Store, Alloc}" using assms(1) by (simp add: defined_node_def)
  show ?thesis
  proof (cases "c = FixedArray")
    case True
    then show ?thesis using OperationData bytes_one assms(2) by (auto simp: at_most_one_def)
  next
    case False
    consider "As = []" | A where "As = [A]" | A B where "As = [A, B]" | A B C where "As = [A, B, C]"
      | A B C D As' where "As = A # B # C # D # As'"
      by (cases As; cases "tl As"; cases "tl (tl As)"; cases "tl (tl (tl As))") auto
    then show ?thesis
    proof cases
      case 2
      then show ?thesis using OperationData False c assms(2) by (simp add: at_most_one_UN unary_one)
    next
      case 3
      then show ?thesis using OperationData False c assms(2) by (simp add: at_most_one_UN binary_one)
    next
      case 4
      then have "\<not> (SInt 1 1 \<in> A \<and> SInt 1 0 \<in> A)" using assms(2) by (auto simp: at_most_one_def One_nat_def)
      then show ?thesis using OperationData False c assms(2) 4 by auto
    qed (use OperationData False c in simp_all)
  qed
qed simp_all

lemma defined_one: "all_nodes defined_node x \<Longrightarrow> at_most_one (beh S E x)"
proof (induction x)
  case (Operation d ops)
  then show ?case by (auto simp: list_all_iff intro!: node_one)
qed

section \<open>Steps on the list\<close>

abbreviation sat :: "('i, 'f, 'z) ctx_scheme \<Rightarrow> 'f senv \<Rightarrow> ('i, 'f) op list \<Rightarrow> bool" where
  "sat S E xs \<equiv> \<forall>x\<in>set xs. holds S E x"

abbreviation defined_list :: "('i, 'f) op list \<Rightarrow> bool" where
  "defined_list xs \<equiv> \<forall>x\<in>set xs. all_nodes defined_node x"

text \<open>
  \<open>evolves S ints st al al' ys\<close>: some assertions of \<open>al\<close> were erased to give \<open>al'\<close> and each was replaced by one of
  \<open>ys\<close> that has fewer symbols, without losing a model.
\<close>

definition evolves :: "('i, 'f, 'z) ctx_scheme \<Rightarrow> bool \<Rightarrow> (symbol \<Rightarrow> ty) \<Rightarrow> ('i, 'f) assertion_list \<Rightarrow> ('i, 'f) assertion_list \<Rightarrow> ('i, 'f) op list \<Rightarrow> bool" where
  "evolves S ints st al al' ys \<longleftrightarrow>
     (\<exists>rs. mset (elems al) = mset (elems al') + mset rs
        \<and> list_all2 (\<lambda>y r. bool_expr S ints st y \<and> syms y \<subset> syms r \<and> (all_nodes defined_node r \<longrightarrow> all_nodes defined_node y)) ys rs)
   \<and> (\<forall>E. world_ok S E \<longrightarrow> (sat S E (elems al) \<longrightarrow> sat S E (elems al') \<and> sat S E ys)
        \<and> (defined_list (elems al) \<longrightarrow> sat S E (elems al') \<and> sat S E ys \<longrightarrow> sat S E (elems al)))
   \<and> al_wf S al' \<and> al_mark al' = al_mark al \<and> backing_size (al_list al') = backing_size (al_list al) \<and> al_get al' \<subseteq>\<^sub>m al_get al"

lemma evolves_refl: "al_wf S al \<Longrightarrow> evolves S ints st al al []"
  by (simp add: evolves_def)

lemma evolvesD:
  assumes "evolves S ints st al al' ys"
  shows "al_wf S al'" "al_mark al' = al_mark al" "backing_size (al_list al') = backing_size (al_list al)" "al_get al' \<subseteq>\<^sub>m al_get al"
    "world_ok S E \<Longrightarrow> sat S E (elems al) \<Longrightarrow> sat S E (elems al') \<and> sat S E ys"
    "world_ok S E \<Longrightarrow> defined_list (elems al) \<Longrightarrow> sat S E (elems al') \<Longrightarrow> sat S E ys \<Longrightarrow> sat S E (elems al)"
  using assms unfolding evolves_def by blast+

lemma evolves_elems: "evolves S ints st al al' ys \<Longrightarrow> set (elems al') \<subseteq> set (elems al)"
  unfolding evolves_def by (metis set_mset_mset set_mset_mono mset_subset_eq_add_left)

lemma evolves_added:
  assumes "evolves S ints st al al' ys"
  shows "list_all (bool_expr S ints st) ys" "defined_list (elems al) \<Longrightarrow> defined_list ys"
proof -
  obtain rs where m: "mset (elems al) = mset (elems al') + mset rs"
    and r: "list_all2 (\<lambda>y r. bool_expr S ints st y \<and> syms y \<subset> syms r \<and> (all_nodes defined_node r \<longrightarrow> all_nodes defined_node y)) ys rs"
    using assms unfolding evolves_def by blast
  show "list_all (bool_expr S ints st) ys" using r by (auto simp: list_all2_conv_all_nth list_all_length)
  have "set (elems al) = set (elems al') \<union> set rs" using m by (metis set_mset_mset set_mset_union)
  moreover have "\<exists>r\<in>set rs. all_nodes defined_node r \<longrightarrow> all_nodes defined_node y" if "y \<in> set ys" for y
    using r that by (fastforce simp: list_all2_conv_all_nth in_set_conv_nth)
  ultimately show "defined_list (elems al) \<Longrightarrow> defined_list ys" by blast
qed

lemma evolves_trans:
  assumes "evolves S ints st al al1 ys" "evolves S ints st al1 al2 zs"
  shows "evolves S ints st al al2 (ys @ zs)"
proof -
  obtain rs rs' where "mset (elems al) = mset (elems al1) + mset rs" "mset (elems al1) = mset (elems al2) + mset rs'"
    and r: "list_all2 (\<lambda>y r. bool_expr S ints st y \<and> syms y \<subset> syms r \<and> (all_nodes defined_node r \<longrightarrow> all_nodes defined_node y)) ys rs"
      "list_all2 (\<lambda>y r. bool_expr S ints st y \<and> syms y \<subset> syms r \<and> (all_nodes defined_node r \<longrightarrow> all_nodes defined_node y)) zs rs'"
    using assms unfolding evolves_def by blast
  then have m: "mset (elems al) = mset (elems al2) + mset (rs @ rs')" by simp
  note l = list_all2_appendI [OF r]
  have g: "al_get al2 \<subseteq>\<^sub>m al_get al" by (rule map_le_trans [OF evolvesD(4) [OF assms(2)] evolvesD(4) [OF assms(1)]])
  have s1: "sat S E (elems al2) \<and> sat S E (ys @ zs)" if "world_ok S E" "sat S E (elems al)" for E
    using evolvesD(5) [OF assms(1) that] evolvesD(5) [OF assms(2) that(1)] by (metis Un_iff set_append)
  have s2: "sat S E (elems al)" if "world_ok S E" "defined_list (elems al)" "sat S E (elems al2) \<and> sat S E (ys @ zs)" for E
  proof -
    have "defined_list (elems al1)" using that(2) evolves_elems [OF assms(1)] by blast
    then show ?thesis
      using evolvesD(6) [OF assms(1) that(1,2)] evolvesD(6) [OF assms(2) that(1)] that(3) by (metis Un_iff set_append)
  qed
  show ?thesis
    unfolding evolves_def
    by (rule conjI, rule exI [of _ "rs @ rs'"], rule conjI [OF m l], rule conjI, use s1 s2 in blast)
      (simp add: evolvesD(1-3) [OF assms(1)] evolvesD(1-3) [OF assms(2)] g)
qed

lemma al_get_Some: "al_get al i = Some a \<longleftrightarrow> i < length (elements (al_list al)) \<and> elements (al_list al) ! i = Value a"
  by (auto simp: al_get_def sv_get_def backing_size_def split: elem.splits)

lemma erase_get:
  assumes "hash_consed S" "al_wf S al" "al_get al i = Some a"
  shows "\<exists>al'. al_erase S i al = Some al' \<and> al_wf S al' \<and> mset (elems al) = add_mset a (mset (elems al'))
    \<and> al_mark al' = al_mark al \<and> backing_size (al_list al') = backing_size (al_list al) \<and> al_get al' = (al_get al)(i := None)"
proof -
  let ?es = "elements (al_list al)"
  have i: "i < length ?es" "?es ! i = Value a" using assms(3) by (simp_all add: al_get_Some)
  have es: "?es = take i ?es @ Value a # drop (Suc i) ?es" by (rule split_at [OF i])
  have len: "length (take i ?es) = i" using i by simp
  obtain h al' where al': "al_erase S i al = Some al'" "al_wf S al'" "elements (al_list al') = take i ?es @ Index h # drop (Suc i) ?es"
      "al_mark al' = al_mark al"
    using al_erase_at [OF assms(1,2) es] len by auto
  have e': "elements (al_list al') = ?es[i := Index h]" using al'(3) i by (simp add: upd_conv_take_nth_drop)
  have "al_get al' = (al_get al)(i := None)"
    by (rule ext) (auto simp: al_get_def sv_get_def backing_size_def e' nth_list_update)
  moreover have "elems al = vals (take i ?es) @ a # vals (drop (Suc i) ?es)" by (subst elems_vals, subst es) simp
  moreover have "elems al' = vals (take i ?es) @ vals (drop (Suc i) ?es)" using al'(3) by (simp add: elems_vals)
  ultimately show ?thesis using al'(1,2,4) e' by (simp add: backing_size_def)
qed

lemma equality_expr:
  assumes e: "bool_expr S ints st e" "is_equality_expr e = Some (c, v)"
  shows "\<exists>s. op_symbol c = Some s \<and> literal_for S st s v \<and> (\<forall>E. world_ok S E \<longrightarrow> holds S E e \<longrightarrow> beh S E v = {sym_val E (st s) s})"
proof -
  obtain d ops where x: "e = Operation d ops" by (cases e)
  then obtain l r where lr: "ops = [l, r]" "op_opcode e = ICmp ICmp_EQ" "(c, v) \<in> {(l, r), (r, l)}" "isa_constant c" "as_const_int v \<noteq> None"
    using e(2) by (auto simp: is_equality_expr_def match_const_int_def split: if_splits list.splits)
  have wt: "wt S e" using e(1) by (simp add: bool_expr_def is_i_def)
  then have "\<exists>t. d = OperationData (ICmp ICmp_EQ) t" using x lr(2) by (cases d) (auto simp: op_opcode_def)
  then obtain w where w: "wt S l" "wt S r" "op_type l = Type Integer w" "op_type r = Type Integer w" "d = OperationData (ICmp ICmp_EQ) (Type Integer 1)"
    using wt x lr(1) by (auto simp: wt_operation_def)
  have c: "wt S c" "wt S v" "op_type v = op_type c" using lr(3) w by auto
  obtain dc oc where dc: "c = Operation dc oc" by (cases c)
  obtain k t s where k: "dc = ConstantData k t s" "oc = []" "symbol_of dc = {(t, s)}"
    using isa_constant_wt [of S dc oc] c(1) lr(4) dc by metis
  then have "(t, s) \<in> syms e" using lr(1,3) dc x by auto
  then have t: "t = st s" using e(1) by (auto simp: bool_expr_def)
  then have lit: "literal_for S st s v" using c k dc lr(5) by (simp add: literal_for_def op_type_def)
  moreover have "beh S E v = {sym_val E (st s) s}" if "world_ok S E" "holds S E e" for E
  proof -
    obtain n where n: "beh S E v = {n}" using literal_nodes(4) [OF lit] by blast
    have "beh S E c = {sym_val E (st s) s}" using k dc t by simp
    moreover have "has_type S n (Type Integer w)" "has_type S (sym_val E (st s) s) (Type Integer w)"
      using wt_typed [OF world_okD(1,2) [OF that(1)]] c w lr(3) n calculation by (metis typed_singleton fst_conv snd_conv insertE prod.inject singletonD)+
    then obtain i j where "n = SInt w i" "sym_val E (st s) s = SInt w j" by (metis has_type_int)
    ultimately show ?thesis using that(2) n lr(1,3) x w(5)
      by (auto simp: holds_def binary_beh_def of_bool1_def split: if_splits)
  qed
  ultimately show ?thesis using k dc by (auto simp: op_symbol_def)
qed

lemma replace_one:
  assumes W: "world_ok S E0" "clz_law S" "hash_consed S" and v: "literal_for S st s v"
    and sem: "\<And>E. world_ok S E \<Longrightarrow> holds S E e \<Longrightarrow> beh S E v = {sym_val E (st s) s}" and a: "bool_expr S ints st a"
  shows "\<exists>y. rebuild S (constant_fold S) (subst_visitor s v) a = Some y \<and> bool_expr S ints st y \<and> (y \<noteq> a \<longrightarrow> syms y \<subset> syms a)
    \<and> (all_nodes defined_node a \<longrightarrow> all_nodes defined_node y)
    \<and> (\<forall>E. world_ok S E \<longrightarrow> holds S E e \<longrightarrow> (holds S E a \<longrightarrow> holds S E y) \<and> (all_nodes defined_node a \<longrightarrow> holds S E y \<longrightarrow> holds S E a))"
proof -
  have x: "wt S a" "all_nodes (scalar_node ints) a" "\<forall>(t, s)\<in>syms a. t = st s" "op_type a = Type Integer 1"
    using a by (auto simp: bool_expr_def is_i_def)
  note R = rebuild_ok [OF _ W(2,3) v x(1-3)]
  obtain y where y: "rebuild S (constant_fold S) (subst_visitor s v) a = Some y" "wt S y" "op_type y = op_type a" "all_nodes (scalar_node ints) y"
    "all_nodes defined_node a \<longrightarrow> all_nodes defined_node y" "syms y \<subseteq> syms a - {(st s, s)}" "y \<noteq> a \<longrightarrow> (st s, s) \<in> syms a"
    using R [OF W(1)] by blast
  have b: "beh S E y \<subseteq> beh S E a" if "world_ok S E" "holds S E e" for E
    using R [OF that(1)] sem [OF that] y(1) by auto
  have ne: "beh S E y \<noteq> {}" if "world_ok S E" for E
    using wt_typed [OF world_okD(1,2) [OF that] y(2)] by (simp add: typed_def)
  have "(holds S E a \<longrightarrow> holds S E y) \<and> (all_nodes defined_node a \<longrightarrow> holds S E y \<longrightarrow> holds S E a)"
    if "world_ok S E" "holds S E e" for E
    unfolding holds_def
  proof (intro conjI impI)
    show "beh S E y = {SInt 1 1}" if "beh S E a = {SInt 1 1}"
      using b [OF \<open>world_ok S E\<close> \<open>holds S E e\<close>] ne [OF \<open>world_ok S E\<close>] that by (metis subset_singletonD)
    show "beh S E a = {SInt 1 1}" if "all_nodes defined_node a" "beh S E y = {SInt 1 1}"
    proof -
      have "SInt 1 1 \<in> beh S E a" using b [OF \<open>world_ok S E\<close> \<open>holds S E e\<close>] that(2) by simp
      then show ?thesis using defined_one [OF that(1), of S E] unfolding at_most_one_def by blast
    qed
  qed
  moreover have "bool_expr S ints st y" using y x by (auto simp: bool_expr_def is_i_def)
  ultimately show ?thesis using y by blast
qed

lemma elems_get: "al_get al i = Some a \<Longrightarrow> a \<in> set (elems al)"
  by (metis al_get_Some elems_vals in_set_conv_decomp split_at vals_simps(2,4))

lemma replace_at_ok:
  assumes W: "world_ok S E0" "clz_law S" "hash_consed S" and v: "literal_for S st s v"
    and sem: "\<And>E. world_ok S E \<Longrightarrow> holds S E e \<Longrightarrow> beh S E v = {sym_val E (st s) s}"
  shows "al_wf S al \<Longrightarrow> list_all (bool_expr S ints st) (elems al) \<Longrightarrow> al_get al exc = Some e \<Longrightarrow> distinct is \<Longrightarrow>
    \<forall>i\<in>set is. al_get al i \<noteq> None \<Longrightarrow>
    \<exists>al' ys. replace_at S (constant_fold S) exc s v is al out = Some (al', out @ ys) \<and> evolves S ints st al al' ys"
proof (induction "is" arbitrary: al out)
  case Nil
  then show ?case using evolves_refl by fastforce
next
  case (Cons i "is")
  show ?case
  proof (cases "i = exc")
    case True
    then show ?thesis using Cons by simp
  next
    case False
    obtain a where a: "al_get al i = Some a" using Cons.prems by auto
    have ba: "bool_expr S ints st a" using Cons.prems(2) elems_get [OF a] by (simp add: list_all_iff)
    obtain y where y: "rebuild S (constant_fold S) (subst_visitor s v) a = Some y" "bool_expr S ints st y" "y \<noteq> a \<longrightarrow> syms y \<subset> syms a"
      "all_nodes defined_node a \<longrightarrow> all_nodes defined_node y"
      "\<And>E. world_ok S E \<Longrightarrow> holds S E e \<Longrightarrow> (holds S E a \<longrightarrow> holds S E y) \<and> (all_nodes defined_node a \<longrightarrow> holds S E y \<longrightarrow> holds S E a)"
      using replace_one [OF W v sem ba] by blast
    show ?thesis
    proof (cases "y = a")
      case True
      then have "replace_at S (constant_fold S) exc s v (i # is) al out = replace_at S (constant_fold S) exc s v is al out"
        using a y(1) False W(3) by (simp add: hash_consed_def)
      then show ?thesis using Cons by simp
    next
      case ya: False
      obtain al1 where al1: "al_erase S i al = Some al1" "al_wf S al1" "mset (elems al) = add_mset a (mset (elems al1))"
        "al_mark al1 = al_mark al" "backing_size (al_list al1) = backing_size (al_list al)" "al_get al1 = (al_get al)(i := None)"
        using erase_get [OF W(3) Cons.prems(1) a] by blast
      have "mk_assertion y = Some y" using y(2) by (simp add: mk_assertion_def bool_expr_def is_i_def int_ty_Some)
      then have step: "replace_at S (constant_fold S) exc s v (i # is) al out = replace_at S (constant_fold S) exc s v is al1 (out @ [y])"
        using a y(1) False W(3) ya al1(1) by (simp add: hash_consed_def)
      have els: "set (elems al) = insert a (set (elems al1))" using al1(3) by (metis set_mset_add_mset_insert set_mset_mset)
      have e: "al_get al1 exc = Some e" using Cons.prems(3) False al1(6) by simp
      note e' = elems_get [OF e]
      have "evolves S ints st al al1 [y]"
        unfolding evolves_def
        by (rule conjI, rule exI [of _ "[a]"], use al1(3) y ya in simp, rule conjI, use els e' y(5) in auto)
          (simp_all add: al1 map_le_def)
      moreover obtain al' ys where "replace_at S (constant_fold S) exc s v is al1 (out @ [y]) = Some (al', (out @ [y]) @ ys)" "evolves S ints st al1 al' ys"
      proof -
        have "list_all (bool_expr S ints st) (elems al1)" "distinct is" using Cons.prems els by (auto simp: list_all_iff)
        moreover have "\<forall>j\<in>set is. al_get al1 j \<noteq> None" using Cons.prems(4,5) by (metis al1(6) distinct.simps(2) fun_upd_other list.set_intros(2))
        ultimately show thesis using Cons.IH [OF al1(2) _ e, of "out @ [y]"] that by blast
      qed
      ultimately show ?thesis using step evolves_trans by fastforce
    qed
  qed
qed

lemma all_positions: "sv_iterate (al_list al) (sv_begin (al_list al)) = filter (\<lambda>j. is_value (elements (al_list al) ! j)) [0..<length (elements (al_list al))]"
  using iterate_from [of 0 "al_list al"] by (simp add: sv_begin_skip)

lemma simplify_range_ok:
  assumes W: "world_ok S E0" "clz_law S" "hash_consed S"
  shows "al_wf S al \<Longrightarrow> list_all (bool_expr S ints st) (elems al) \<Longrightarrow>
    \<exists>al' ys. simplify_range S (constant_fold S) is al added = Some (al', added @ ys) \<and> evolves S ints st al al' ys"
proof (induction "is" arbitrary: al added)
  case Nil
  then show ?case using evolves_refl by fastforce
next
  case (Cons i "is")
  show ?case
  proof (cases "\<exists>a c v. al_get al i = Some a \<and> is_equality_expr a = Some (c, v)")
    case False
    then have "simplify_range S (constant_fold S) (i # is) al added = simplify_range S (constant_fold S) is al added"
      by (auto split: option.split)
    then show ?thesis using Cons by simp
  next
    case True
    then obtain e c v where e: "al_get al i = Some e" "is_equality_expr e = Some (c, v)" by blast
    have "bool_expr S ints st e" using Cons.prems(2) elems_get [OF e(1)] by (simp add: list_all_iff)
    then obtain s where s: "op_symbol c = Some s" "literal_for S st s v"
      "\<And>E. world_ok S E \<Longrightarrow> holds S E e \<Longrightarrow> beh S E v = {sym_val E (st s) s}" using equality_expr e(2) by blast
    have "\<forall>j\<in>set (sv_iterate (al_list al) (sv_begin (al_list al))). al_get al j \<noteq> None"
      by (auto simp: all_positions al_get_Some is_value_def split: elem.splits)
    moreover have "distinct (sv_iterate (al_list al) (sv_begin (al_list al)))" by (simp add: all_positions)
    ultimately obtain al1 ys where al1: "replace_all S (constant_fold S) i s v al added = Some (al1, added @ ys)" "evolves S ints st al al1 ys"
      using replace_at_ok [OF W s(2,3) Cons.prems e(1)] unfolding replace_all_def by blast
    have "list_all (bool_expr S ints st) (elems al1)" using Cons.prems(2) evolves_elems [OF al1(2)] by (auto simp: list_all_iff)
    then obtain al' zs where "simplify_range S (constant_fold S) is al1 (added @ ys) = Some (al', (added @ ys) @ zs)" "evolves S ints st al1 al' zs"
      using Cons.IH [OF evolvesD(1) [OF al1(2)]] by blast
    then show ?thesis using e s(1) al1 evolves_trans [OF al1(2)] by auto
  qed
qed

section \<open>What insertion stores\<close>

context node_condition
begin

lemma create_not_good: "keeps P cf \<Longrightarrow> all_nodes P x \<Longrightarrow> yields (CreateNot cf x) (all_nodes P)"
  unfolding CreateNot_def CreateUnary_def by (intro yields_bind_any make_good) (simp_all add: fresh fresh_opcodes_def)

lemma match_not_or_good:
  assumes "match_not_or x = Some (l, r)" "all_nodes P x"
  shows "all_nodes P l \<and> all_nodes P r"
proof -
  obtain y where y: "match_unop Not x = Some y" "match_binop Or y = Some (l, r)"
    using assms(1) by (auto simp: match_not_or_def split: option.splits)
  then have "y \<in> set (operands x)" by (auto simp: match_unop_def split: if_splits list.splits)
  then show ?thesis using match_binop_good [OF y(2)] all_nodes_operands [OF assms(2)] by blast
qed

lemma insert_loop_good:
  assumes cf: "keeps P cf"
  shows "list_all (all_nodes P) st \<Longrightarrow> insert_loop S cf a n st al = Some al' \<Longrightarrow> z \<in> set (elems al') \<Longrightarrow> z \<in> set (elems al) \<or> all_nodes P z"
proof (induction n arbitrary: st al)
  case 0
  then show ?case by (cases st) simp_all
next
  case (Suc n)
  show ?case
  proof (cases st)
    case Nil
    then show ?thesis using Suc.prems by simp
  next
    case (Cons x st')
    consider (conj) l r where "match_binop And x = Some (l, r)"
      | (nor) l r where "match_binop And x = None" "match_not_or x = Some (l, r)"
      | (leaf) "match_binop And x = None" "match_not_or x = None" by (metis option.exhaust surj_pair)
    then show ?thesis
    proof cases
      case conj
      then have "list_all (all_nodes P) (r # l # st')" using Suc.prems(1) Cons match_binop_good by auto
      moreover have "insert_loop S cf a n (r # l # st') al = Some al'" using Suc.prems(2) Cons conj by simp
      ultimately show ?thesis using Suc.IH Suc.prems(3) by blast
    next
      case nor
      then obtain l' r' where lr: "CreateNot cf l = Some l'" "CreateNot cf r = Some r'" "insert_loop S cf a n (r' # l' # st') al = Some al'"
        using Suc.prems(2) Cons by (auto simp: Option.bind_eq_Some_conv)
      have "all_nodes P l" "all_nodes P r" using match_not_or_good [OF nor(2)] Suc.prems(1) Cons by simp_all
      then have "list_all (all_nodes P) (r' # l' # st')"
        using yieldsD [OF create_not_good [OF cf] lr(1)] yieldsD [OF create_not_good [OF cf] lr(2)] Suc.prems(1) Cons by simp
      then show ?thesis using Suc.IH lr(3) Suc.prems(3) by blast
    next
      case leaf
      then obtain al1 where al1: "insert_loop S cf a n st' al1 = Some al'" "set (elems al1) \<subseteq> insert x (set (elems al))"
        using Suc.prems(2) Cons by (auto simp: Option.bind_eq_Some_conv mk_assertion_def ensure_def split: if_splits)
      then show ?thesis using Suc.IH [OF _ al1(1) Suc.prems(3)] Suc.prems(1) Cons by auto
    qed
  qed
qed

lemma al_insert_good:
  assumes "keeps P cf"
  shows "al_insert S cf as al = Some al' \<Longrightarrow> list_all (all_nodes P) as \<Longrightarrow> z \<in> set (elems al') \<Longrightarrow> z \<in> set (elems al) \<or> all_nodes P z"
proof (induction as arbitrary: al)
  case (Cons a as)
  then obtain al1 where "insert_loop S cf a (3 ^ height a) [a] al = Some al1" "al_insert S cf as al1 = Some al'"
    by (auto simp: Option.bind_eq_Some_conv)
  then show ?case using Cons insert_loop_good [OF assms, of "[a]" S a "3 ^ height a" al al1 z] by auto
qed simp

end

lemma insert_syms:
  assumes "al_insert S (constant_fold S) as al = Some al'"
  shows "z \<in> set (elems al') \<Longrightarrow> z \<in> set (elems al) \<or> (\<exists>a\<in>set as. syms z \<subseteq> syms a)"
  using assms
proof (induction as arbitrary: al)
  case (Cons a as)
  then obtain al1 where al1: "insert_loop S (constant_fold S) a (3 ^ height a) [a] al = Some al1" "al_insert S (constant_fold S) as al1 = Some al'"
    by (auto simp: Option.bind_eq_Some_conv)
  have "z \<in> set (elems al) \<or> syms z \<subseteq> syms a" if "z \<in> set (elems al1)"
    using symbols.insert_loop_good [OF symbols.constant_fold_keeps _ al1(1) that, of "syms a"] by (simp add: syms_in)
  then show ?case using Cons.IH [OF Cons.prems(1) al1(2)] by auto
qed simp

lemma insert_bool:
  assumes W: "world_ok S E0" "hash_consed S" and al: "al_wf S al" "list_all (bool_expr S ints st) (elems al)" and as: "list_all (bool_expr S ints st) as"
  obtains al1 new where "al_insert S (constant_fold S) as al = Some al1" "al_wf S al1" "list_all (bool_expr S ints st) (elems al1)"
    "\<And>E. world_ok S E \<Longrightarrow> sat S E (elems al1) \<longleftrightarrow> sat S E (elems al) \<and> sat S E as"
    "defined_list (elems al) \<Longrightarrow> defined_list as \<Longrightarrow> defined_list (elems al1)"
    "elems al1 = elems al @ new" "\<And>z. z \<in> set new \<Longrightarrow> \<exists>a\<in>set as. syms z \<subseteq> syms a"
    "length (elements (al_list al)) \<le> length (elements (al_list al1))"
proof -
  have "list_all (is_i S 1) as" using as by (simp add: list_all_iff bool_expr_def)
  then obtain al1 where al1: "al_insert S (constant_fold S) as al = Some al1" "insert_ok S as al al1"
    using al_insert_ok [OF W al(1)] by blast
  then obtain new where new: "elems al1 = elems al @ new" "set new \<inter> set (elems al) = {}"
      "elements (al_list al1) = elements (al_list al) @ map Value new" and wf: "al_wf S al1"
    unfolding insert_ok_def extends_def by blast
  have sub: "\<exists>a\<in>set as. syms z \<subseteq> syms a" if "z \<in> set new" for z
    using insert_syms [OF al1(1), of z] that new(1,2) by auto
  have "list_all (all_nodes (scalar_node ints)) as" using as by (simp add: list_all_iff bool_expr_def)
  then have sc: "all_nodes (scalar_node ints) z" if "z \<in> set new" for z
    using scalar.al_insert_good [OF scalar.constant_fold_keeps al1(1), of _ z] that new(1,2) by auto
  have "bool_expr S ints st z" if "z \<in> set new" for z
    using sub [OF that] sc [OF that] wf new(1) that as by (fastforce simp: bool_expr_def al_wf_def list_all_iff)
  then have b: "list_all (bool_expr S ints st) (elems al1)" using al(2) new(1) by (auto simp: list_all_iff)
  have d: "defined_list (elems al1)" if "defined_list (elems al)" "defined_list as"
    using defined.al_insert_good [OF defined.constant_fold_keeps al1(1)] that by (auto simp: list_all_iff)
  have m: "sat S E (elems al1) \<longleftrightarrow> sat S E (elems al) \<and> sat S E as" if "world_ok S E" for E
    using al1(2) that by (simp add: insert_ok_def)
  have len: "length (elements (al_list al)) \<le> length (elements (al_list al1))" using new(3) by simp
  show thesis by (rule that [OF al1(1) wf b m d new(1) sub len])
qed

section \<open>Termination and models\<close>

definition weight :: "('i, 'f) assertion_list \<Rightarrow> nat multiset" where
  "weight al = image_mset (\<lambda>x. card (syms x)) (mset (elems al))"

lemma weight_decreases:
  assumes "evolves S ints st al1 al2 ys" "ys \<noteq> []" "elems al3 = elems al2 @ new" "\<And>z. z \<in> set new \<Longrightarrow> \<exists>a\<in>set ys. syms z \<subseteq> syms a"
  shows "(weight al3, weight al1) \<in> mult less_than"
proof -
  obtain rs where rs: "mset (elems al1) = mset (elems al2) + mset rs" "list_all2 (\<lambda>y r. syms y \<subset> syms r) ys rs"
    using assms(1) unfolding evolves_def by (metis (mono_tags, lifting) list_all2_mono)
  have ex: "\<exists>r\<in>set rs. card (syms z) < card (syms r)" if z: "z \<in> set new" for z
  proof -
    obtain y where "y \<in> set ys" "syms z \<subseteq> syms y" using assms(4) [OF z] by blast
    moreover from this obtain r where "r \<in> set rs" "syms y \<subset> syms r" using rs(2) by (metis list_all2_conv_all_nth in_set_conv_nth)
    ultimately show ?thesis by (metis finite_syms psubset_card_mono subset_psubset_trans)
  qed
  have "rs \<noteq> []" using rs(2) assms(2) by auto
  have "(image_mset (\<lambda>x. card (syms x)) (mset (elems al2)) + image_mset (\<lambda>x. card (syms x)) (mset new),
      image_mset (\<lambda>x. card (syms x)) (mset (elems al2)) + image_mset (\<lambda>x. card (syms x)) (mset rs)) \<in> mult less_than"
    using \<open>rs \<noteq> []\<close> ex by (intro one_step_implies_mult) auto
  then show ?thesis using rs(1) assms(3) by (simp add: weight_def)
qed

lemma simplify_rounds_ok:
  assumes W: "world_ok S E0" "clz_law S" "hash_consed S"
  shows "al_insert S (constant_fold S) added al = Some al1 \<Longrightarrow> weight al1 = m \<Longrightarrow>
    al_wf S al \<Longrightarrow> list_all (bool_expr S ints st) (elems al) \<Longrightarrow> list_all (bool_expr S ints st) added \<Longrightarrow>
    \<exists>al'. simplify_rounds S (constant_fold S) al added = Some al' \<and> al_wf S al' \<and> list_all (bool_expr S ints st) (elems al')
      \<and> (\<forall>E. world_ok S E \<longrightarrow> (sat S E (elems al) \<and> sat S E added \<longrightarrow> sat S E (elems al'))
           \<and> (defined_list (elems al) \<and> defined_list added \<longrightarrow> sat S E (elems al') \<longrightarrow> sat S E (elems al) \<and> sat S E added))
      \<and> (defined_list (elems al) \<and> defined_list added \<longrightarrow> defined_list (elems al'))"
proof (induction m arbitrary: al added al1 rule: wf_induct_rule [OF wf_mult [OF wf_less_than]])
  case (1 m)
  let ?cf = "constant_fold S"
  have al1: "al_wf S al1" "list_all (bool_expr S ints st) (elems al1)"
    "world_ok S E \<Longrightarrow> sat S E (elems al1) \<longleftrightarrow> sat S E (elems al) \<and> sat S E added"
    "defined_list (elems al) \<Longrightarrow> defined_list added \<Longrightarrow> defined_list (elems al1)"
    "length (elements (al_list al)) \<le> length (elements (al_list al1))" for E
    by (rule insert_bool [OF W(1,3) "1.prems"(3-5)]; use "1.prems"(1) in simp)+
  define ps where "ps = sv_iterate (al_list al1) (length (elements (al_list al)))"
  obtain al2 ys where al2: "simplify_range S ?cf ps al1 [] = Some (al2, ys)" "evolves S ints st al1 al2 ys"
    using simplify_range_ok [OF W al1(1,2), of ps "[]"] by auto
  note D = evolvesD [OF al2(2)]
  have b2: "list_all (bool_expr S ints st) (elems al2)" using al1(2) evolves_elems [OF al2(2)] by (auto simp: list_all_iff)
  have run: "simplify_rounds S ?cf al added = (if ys = [] then Some al2 else simplify_rounds S ?cf al2 ys)"
    using "1.prems"(1) al2(1) al1(5)
    by (subst simplify_rounds.simps) (simp add: backing_size_def iterator_at_def ps_def)
  show ?case
  proof (cases "ys = []")
    case True
    have "sat S E (elems al2)" if "world_ok S E" "sat S E (elems al) \<and> sat S E added" for E
      using D(5) [OF that(1)] al1(3) [OF that(1)] that(2) by blast
    moreover have "sat S E (elems al) \<and> sat S E added" if "world_ok S E" "defined_list (elems al)" "defined_list added" "sat S E (elems al2)" for E
      using D(6) [OF that(1) al1(4) [OF that(2,3)] that(4)] al1(3) [OF that(1)] True by simp
    moreover have "defined_list (elems al2)" if "defined_list (elems al)" "defined_list added"
      using al1(4) [OF that] evolves_elems [OF al2(2)] by blast
    moreover have "simplify_rounds S ?cf al added = Some al2" using run True by simp
    ultimately show ?thesis using D(1) b2 by blast
  next
    case False
    note bys = evolves_added(1) [OF al2(2)] and dys = evolves_added(2) [OF al2(2)]
    obtain al3 new' where al3: "al_insert S ?cf ys al2 = Some al3" "elems al3 = elems al2 @ new'" "\<And>z. z \<in> set new' \<Longrightarrow> \<exists>a\<in>set ys. syms z \<subseteq> syms a"
    proof (rule insert_bool [OF W(1,3) D(1) b2 bys], goal_cases)
      case (1 al3 new')
      show ?case by (rule 1(1) [OF 1(2,7,8)])
    qed
    have "(weight al3, m) \<in> mult less_than" using weight_decreases [OF al2(2) False al3(2,3)] "1.prems"(2) by simp
    from "1.IH" [OF this al3(1) refl D(1) b2 bys] obtain al' where al': "simplify_rounds S ?cf al2 ys = Some al'" "al_wf S al'" "list_all (bool_expr S ints st) (elems al')"
      "\<And>E. world_ok S E \<Longrightarrow> sat S E (elems al2) \<and> sat S E ys \<Longrightarrow> sat S E (elems al')"
      "\<And>E. world_ok S E \<Longrightarrow> defined_list (elems al2) \<Longrightarrow> defined_list ys \<Longrightarrow> sat S E (elems al') \<Longrightarrow> sat S E (elems al2) \<and> sat S E ys"
      "defined_list (elems al2) \<Longrightarrow> defined_list ys \<Longrightarrow> defined_list (elems al')" by blast
    have "sat S E (elems al')" if "world_ok S E" "sat S E (elems al) \<and> sat S E added" for E
      using al'(4) [OF that(1)] D(5) [OF that(1)] al1(3) [OF that(1)] that(2) by blast
    moreover have "sat S E (elems al) \<and> sat S E added" if "world_ok S E" "defined_list (elems al)" "defined_list added" "sat S E (elems al')" for E
    proof -
      have d: "defined_list (elems al1)" by (rule al1(4) [OF that(2,3)])
      then have "defined_list (elems al2)" using evolves_elems [OF al2(2)] by blast
      then show ?thesis using al'(5) [OF that(1) _ dys [OF d] that(4)] D(6) [OF that(1) d] al1(3) [OF that(1)] by blast
    qed
    moreover have "defined_list (elems al')" if "defined_list (elems al)" "defined_list added"
      using al'(6) dys [OF al1(4) [OF that]] al1(4) [OF that] evolves_elems [OF al2(2)] by blast
    moreover have "simplify_rounds S ?cf al added = Some al'" using run False al'(1) by simp
    ultimately show ?thesis using al'(2,3) by blast
  qed
qed

lemma simplify_ok:
  assumes "world_ok S E0" "clz_law S" "hash_consed S" "al_wf S al" "list_all (bool_expr S ints st) (elems al)"
  shows "\<exists>al'. simplify S (constant_fold S) al = Some al' \<and> al_wf S al' \<and> list_all (bool_expr S ints st) (elems al')
    \<and> al_models S al \<subseteq> al_models S al'
    \<and> (list_all (all_nodes defined_node) (elems al) \<longrightarrow> al_models S al' = al_models S al \<and> list_all (all_nodes defined_node) (elems al'))"
proof -
  let ?cf = "constant_fold S"
  obtain ps where ps: "unproven al = Some ps" using proven_positions(1) [of al] assms(4) by (auto simp: al_wf_def backing_size_def)
  obtain al1 ys where al1: "simplify_range S ?cf ps al [] = Some (al1, ys)" "evolves S ints st al al1 ys"
    using simplify_range_ok [OF assms, of ps "[]"] by auto
  note D = evolvesD [OF al1(2)] and ys = evolves_added [OF al1(2)]
  have b1: "list_all (bool_expr S ints st) (elems al1)" using assms(5) evolves_elems [OF al1(2)] by (auto simp: list_all_iff)
  obtain al2 where al2: "al_insert S ?cf ys al1 = Some al2" by (rule insert_bool [OF assms(1,3) D(1) b1 ys(1)])
  from simplify_rounds_ok [OF assms(1-3) al2 refl D(1) b1 ys(1)] obtain al' where
    al': "simplify_rounds S ?cf al1 ys = Some al'" "al_wf S al'" "list_all (bool_expr S ints st) (elems al')"
      "\<And>E. world_ok S E \<Longrightarrow> sat S E (elems al1) \<and> sat S E ys \<Longrightarrow> sat S E (elems al')"
      "\<And>E. world_ok S E \<Longrightarrow> defined_list (elems al1) \<Longrightarrow> defined_list ys \<Longrightarrow> sat S E (elems al') \<Longrightarrow> sat S E (elems al1) \<and> sat S E ys"
      "defined_list (elems al1) \<Longrightarrow> defined_list ys \<Longrightarrow> defined_list (elems al')" by blast
  have fwd: "al_models S al \<subseteq> al_models S al'" using al'(4) D(5) unfolding al_models_def by blast
  have "al_models S al' \<subseteq> al_models S al \<and> list_all (all_nodes defined_node) (elems al')" if "list_all (all_nodes defined_node) (elems al)"
  proof -
    have d: "defined_list (elems al)" using that by (simp add: list_all_iff)
    then have "defined_list (elems al1)" using evolves_elems [OF al1(2)] by blast
    then show ?thesis using al'(5,6) ys(2) [OF d] D(6) [OF _ d] unfolding al_models_def list_all_iff by blast
  qed
  moreover have "simplify S ?cf al = Some al'" using ps al1(1) al'(1) by (simp add: simplify_def)
  ultimately show ?thesis using fwd al'(2,3) by blast
qed

text \<open>
  C3: on assertions built from scalar nodes, whose constants have one type each, \<^verbatim>\<open>simplify\<close> terminates and
  fails no assertion; every model of the old list is a model of the new one, and when no assertion
  can be undefined the models are exactly the same and none of the new list can be.
\<close>

theorem simplify_keeps_models:
  assumes "world_ok S E0" "clz_law S" "hash_consed S" "al_wf S al" "list_all (bool_expr S ints st) (elems al)"
  shows "\<exists>al'. simplify S (constant_fold S) al = Some al' \<and> al_wf S al' \<and> list_all (bool_expr S ints st) (elems al')
    \<and> al_models S al \<subseteq> al_models S al'
    \<and> (list_all (all_nodes defined_node) (elems al) \<longrightarrow> al_models S al' = al_models S al \<and> list_all (all_nodes defined_node) (elems al'))"
  by (rule simplify_ok [OF assms])

lemma those_map_Some_id: "those (map Some xs) = Some xs"
  by (induction xs) simp_all

lemma false_literal:
  fixes S :: "('i, 'f, 'z) ctx_scheme"
  assumes W: "world_ok S E"
  defines "z \<equiv> const_node S (ap_make S 1 0)"
  shows "CreateBool S (constant_fold S) False = Some z" "is_i S 1 z" "is_constant_value S z False" "\<not> is_constant_value S z True"
    and "is_i S 1 x \<Longrightarrow> is_constant_value S x False \<Longrightarrow> \<not> holds S E x"
proof -
  note L = apint_lawsD [OF world_okD(3) [OF W]]
  have w: "ap_width S (ap_make S 1 0) = 1" by (simp add: L)
  show "CreateBool S (constant_fold S) False = Some z"
    using size_constant [OF world_okD(3) [OF W], of 1 0] by (simp add: CreateBool_def z_def)
  show "is_i S 1 z" unfolding z_def using const_node_is_i [OF W w] by simp
  show "is_constant_value S z False" "\<not> is_constant_value S z True"
    by (simp_all add: is_constant_value_def z_def const_node_def as_const_int_def L)
  assume x: "is_i S 1 x" "is_constant_value S x False"
  then obtain i where i: "as_const_int x = Some i" "ap_val S i = 0" by (auto simp: is_constant_value_def L split: option.splits)
  then show "\<not> holds S E x" using as_const_int_wt(3) [OF W x(1) i(1)] holds_ivals [OF W x(1)] by simp
qed

section \<open>Canonical form keeps the models\<close>

lemma canonicalize_ok:
  assumes "world_ok S E0" "hash_consed S" "al_wf S al"
  shows "\<exists>al'. canonicalize S (constant_fold S) al = Some al' \<and> al_wf S al' \<and> al_models S al' = al_models S al
    \<and> (if list_ex (\<lambda>a. is_constant_value S a False) (elems al) then map (\<lambda>a. is_constant_value S a False) (elems al') = [True] else al' = al)"
proof -
  have those: "those (map (al_get al) (sv_iterate (al_list al) (sv_begin (al_list al)))) = Some (elems al)"
    using get_positions [of 0 "length (elements (al_list al))" al] by (simp add: all_positions elems_vals those_map_Some_id)
  show ?thesis
  proof (cases "list_ex (\<lambda>a. is_constant_value S a False) (elems al)")
    case False
    then show ?thesis using those assms(3) by (simp add: canonicalize_def)
  next
    case True
    let ?z = "const_node S (ap_make S 1 0)"
    note z = false_literal [OF assms(1)]
    have wf: "al_wf S (al_clear al)" by (simp add: al_wf_def al_clear_def sv_clear_def elems_vals)
    have list: "list_all (is_i S 1) [?z]" using z(2) by simp
    obtain al' where al': "al_insert S (constant_fold S) [?z] (al_clear al) = Some al'" "insert_ok S [?z] (al_clear al) al'"
      using al_insert_ok [OF assms(1,2) wf list] by blast
    have "mk_assertion ?z = Some ?z" using z(2) by (simp add: mk_assertion_def is_i_def int_ty_Some)
    then have c: "canonicalize S (constant_fold S) al = Some al'" using those True z(1) al'(1) by (simp add: canonicalize_def)
    have "3 ^ height ?z = Suc 2" by (simp add: const_node_def)
    then have "al_insert S (constant_fold S) [?z] (al_clear al) = insert_loop S (constant_fold S) ?z (Suc 2) [?z] (al_clear al)"
      by (simp only: al_insert.simps) (cases "insert_loop S (constant_fold S) ?z (Suc 2) [?z] (al_clear al)", simp_all)
    moreover have parts: "match_binop And ?z = None" "match_not_or ?z = None" "is_constant_value S ?z True = False"
      "al_contains S (al_clear al) ?z = False" "elems (al_clear al) = []"
      using z(4) by (simp_all add: const_node_def match_binop_def match_not_or_def match_unop_def op_opcode_def
          al_contains_def al_clear_def sv_clear_def elems_vals)
    have "insert_loop S (constant_fold S) ?z (Suc 2) [?z] (al_clear al) = Some (al_push ?z (al_clear al))"
      by (simp only: insert_loop.simps parts option.case if_False Option.bind.bind_lunit \<open>mk_assertion ?z = Some ?z\<close>)
    ultimately have "al' = al_push ?z (al_clear al)" using al'(1) by (simp only: option.inject)
    then have e: "elems al' = [?z]" using parts(5) by simp
    have none: "\<not> sat S E xs" if "world_ok S E" "list_all (is_i S 1) xs" "list_ex (\<lambda>a. is_constant_value S a False) xs" for E xs
      using false_literal(5) [OF that(1)] that(2,3) by (metis list_all_iff list_ex_iff)
    have "al_models S al = {}" using none [OF _ _ True] assms(3) by (auto simp: al_models_def al_wf_def)
    moreover have "al_models S al' = {}" using none [of _ "[?z]"] e z(2,3) by (auto simp: al_models_def)
    ultimately show ?thesis using c True al'(2) e z(3) by (simp add: insert_ok_def)
  qed
qed

text \<open>
  C15: \<^verbatim>\<open>canonicalize\<close> never fails and keeps the models of the list; a list with a false literal becomes the
  single assertion that is constantly false.
\<close>

theorem canonicalize_keeps_models:
  assumes "world_ok S E0" "hash_consed S" "al_wf S al"
  shows "\<exists>al'. canonicalize S (constant_fold S) al = Some al' \<and> al_wf S al' \<and> al_models S al' = al_models S al
    \<and> (if list_ex (\<lambda>a. is_constant_value S a False) (elems al) then map (\<lambda>a. is_constant_value S a False) (elems al') = [True] else al' = al)"
  by (rule canonicalize_ok [OF assms])

lemma canonicalize_keeps_models_witness:
  "\<exists>al al'. al_insert ref_ctx (constant_fold ref_ctx) [both_flags] al_empty = Some al
    \<and> canonicalize ref_ctx (constant_fold ref_ctx) al = Some al' \<and> al_models ref_ctx al' = al_models ref_ctx al \<and> al' = al"
proof -
  have b: "list_all (is_i ref_ctx 1) [both_flags]" by simp
  obtain al where al: "al_insert ref_ctx (constant_fold ref_ctx) [both_flags] al_empty = Some al" "insert_ok ref_ctx [both_flags] al_empty al"
    using al_insert_ok [OF default_world hash_consed_ref al_wf_empty b] by blast
  then have wf: "al_wf ref_ctx al" by (simp add: insert_ok_def)
  have "elems al = [flag ''b'', flag ''a'']" using al(1) insert_both_flags by (auto simp: elems_vals simp del: al_insert.simps)
  then have "\<not> list_ex (\<lambda>a. is_constant_value ref_ctx a False) (elems al)"
    by (simp add: is_constant_value_def as_const_int_def flag_def)
  then show ?thesis using canonicalize_keeps_models [OF default_world hash_consed_ref wf] al(1) by auto
qed

text \<open>The list \<open>x = 7, x < 8\<close> over bytes.\<close>

definition byte_cmp :: "icmp_opcode \<Rightarrow> (ref_int, ref_float) op \<Rightarrow> (ref_int, ref_float) op \<Rightarrow> (ref_int, ref_float) op" where
  "byte_cmp c l r = Operation (OperationData (ICmp c) (Type Integer 1)) [l, r]"

definition byte_list :: "(ref_int, ref_float) assertion_list" where
  "byte_list = al_push (byte_cmp ICmp_ULT byte_sym (byte_const 8)) (al_push (byte_cmp ICmp_EQ byte_sym (byte_const 7)) al_empty)"

lemma byte_list_ok: "al_wf ref_ctx byte_list" "list_all (bool_expr ref_ctx ints (\<lambda>_. Type Integer 8)) (elems byte_list)"
  "list_all (all_nodes defined_node) (elems byte_list)"
proof -
  have i: "inhabited ref_ctx (Type Integer 8)" by (auto simp: inhabited_def intro: exI [of _ "SInt 8 0"])
  have e: "elems byte_list = [byte_cmp ICmp_EQ byte_sym (byte_const 7), byte_cmp ICmp_ULT byte_sym (byte_const 8)]"
    by (simp add: byte_list_def elems_vals al_empty_def sv_empty_def)
  have "bool_expr ref_ctx ints (\<lambda>_. Type Integer 8) (byte_cmp c byte_sym (byte_const n))" if "n < 256" for c n
    using i that by (simp add: bool_expr_def is_i_def byte_cmp_def byte_defs wt_operation_def op_type_def type_of_apint_def int_ty_eq_Some
        scalar_node_def symbol_of_def ref_eval)
  then show b: "list_all (bool_expr ref_ctx ints (\<lambda>_. Type Integer 8)) (elems byte_list)" by (simp add: e)
  show "list_all (all_nodes defined_node) (elems byte_list)" by (simp add: e byte_cmp_def byte_defs defined_node_def)
  have "list_all (is_i ref_ctx 1) (elems byte_list)" using b by (simp add: list_all_iff bool_expr_def)
  then show "al_wf ref_ctx byte_list" unfolding al_wf_def e
    by (auto simp: byte_list_def al_empty_def sv_empty_def backing_size_def byte_cmp_def byte_defs)
qed

lemma simplify_keeps_models_witness:
  "\<exists>al'. simplify ref_ctx (constant_fold ref_ctx) byte_list = Some al' \<and> al_models ref_ctx al' = al_models ref_ctx byte_list"
  using simplify_keeps_models [OF default_world ref_ctx_clz hash_consed_ref byte_list_ok(1,2)] byte_list_ok(3) by blast

end
