(* ===== verification/Weak_Map.thy ===== *)
theory Weak_Map
  imports Prelude "HOL-Library.AList"
begin

text \<open>
  The hash map with weak keys of \<^verbatim>\<open>include/caffeine/ADT/WeakMap.h\<close>. An object has an address and is alive as
  long as a \<^verbatim>\<open>shared_ptr\<close> owns it; once it is dead its address may be that of another object. An entry
  is stored under the address of its key together with the weak pointer to it.
\<close>

section \<open>Objects\<close>

record 'o memory =
  address :: "'o \<Rightarrow> nat"
  alive :: "'o \<Rightarrow> bool"

definition memory_ok :: "'o memory \<Rightarrow> bool" where
  "memory_ok M \<longleftrightarrow> inj_on (address M) {p. alive M p}"

lemma memory_okD: "memory_ok M \<Longrightarrow> alive M p \<Longrightarrow> alive M q \<Longrightarrow> address M p = address M q \<longleftrightarrow> p = q"
  by (auto simp: memory_ok_def inj_on_def)

section \<open>The map\<close>

record ('o, 'v) weak_map =
  wm_map :: "(nat \<times> 'o \<times> 'v) list"
  wm_prune_size :: nat

definition wm_empty :: "('o, 'v) weak_map" where
  "wm_empty = \<lparr>wm_map = [], wm_prune_size = 16\<rparr>"

definition wm_is_empty :: "('o, 'v) weak_map \<Rightarrow> bool" where
  "wm_is_empty m \<longleftrightarrow> wm_map m = []"

text \<open>\<^verbatim>\<open>estimated_size\<close> converts the number of entries to its return type \<^verbatim>\<open>bool\<close>.\<close>

definition estimated_size :: "('o, 'v) weak_map \<Rightarrow> bool" where
  "estimated_size m \<longleftrightarrow> length (wm_map m) \<noteq> 0"

definition wm_clear :: "('o, 'v) weak_map \<Rightarrow> ('o, 'v) weak_map" where
  "wm_clear m = m\<lparr>wm_map := []\<rparr>"

definition wm_get :: "'o memory \<Rightarrow> ('o, 'v) weak_map \<Rightarrow> 'o \<Rightarrow> 'v option" where
  "wm_get M m p = map_option snd (map_of (wm_map m) (address M p))"

definition wm_at :: "'o memory \<Rightarrow> ('o, 'v) weak_map \<Rightarrow> 'o \<Rightarrow> 'v result" where
  "wm_at M m p = (case map_of (wm_map m) (address M p) of Some (_, v) \<Rightarrow> Inr v | None \<Rightarrow> Inl Out_Of_Range)"

definition expired :: "'o memory \<Rightarrow> 'o \<times> 'v \<Rightarrow> bool" where
  "expired M e \<longleftrightarrow> \<not> alive M (fst e)"

definition wm_prune :: "'o memory \<Rightarrow> ('o, 'v) weak_map \<Rightarrow> ('o, 'v) weak_map" where
  "wm_prune M m =
     (let es = filter (\<lambda>(_, e). \<not> expired M e) (wm_map m)
      in m\<lparr>wm_map := es, wm_prune_size := length es * 2\<rparr>)"

text \<open>
  \<^verbatim>\<open>emplace\<close>: the key is the null pointer (\<open>None\<close>) or a live object; the result is the value the returned
  iterator points to, \<open>None\<close> for the end iterator, and whether it was inserted.
\<close>

fun wm_emplace :: "'o memory \<Rightarrow> 'o option \<Rightarrow> 'v \<Rightarrow> ('o, 'v) weak_map \<Rightarrow> ('o, 'v) weak_map \<times> 'v option \<times> bool" where
  "wm_emplace M None v m = (m, None, False)"
| "wm_emplace M (Some p) v m =
     (case map_of (wm_map m) (address M p) of
        Some e \<Rightarrow>
          if expired M e then (m\<lparr>wm_map := AList.update (address M p) (p, v) (wm_map m)\<rparr>, Some v, True)
          else (if length (wm_map m) = wm_prune_size m then wm_prune M m else m, Some (snd e), False)
      | None \<Rightarrow>
          let m' = m\<lparr>wm_map := (address M p, p, v) # wm_map m\<rparr>
          in (if length (wm_map m') = wm_prune_size m' then wm_prune M m' else m', Some v, True))"

definition wm_insert :: "'o memory \<Rightarrow> 'o option \<Rightarrow> 'v \<Rightarrow> ('o, 'v) weak_map \<Rightarrow> ('o, 'v) weak_map \<times> 'v option \<times> bool" where
  "wm_insert M p v m = wm_emplace M p v m"

definition wm_erase :: "'o memory \<Rightarrow> 'o \<Rightarrow> ('o, 'v) weak_map \<Rightarrow> ('o, 'v) weak_map \<times> nat" where
  "wm_erase M p m =
     (m\<lparr>wm_map := AList.delete (address M p) (wm_map m)\<rparr>, if map_of (wm_map m) (address M p) = None then 0 else 1)"

text \<open>The two \<^verbatim>\<open>find\<close>: the one on a mutable map drops an expired entry.\<close>

definition wm_find :: "'o memory \<Rightarrow> 'o \<Rightarrow> ('o, 'v) weak_map \<Rightarrow> ('o, 'v) weak_map \<times> 'v option" where
  "wm_find M p m =
     (case map_of (wm_map m) (address M p) of
        None \<Rightarrow> (m, None)
      | Some e \<Rightarrow> if \<not> expired M e then (m, Some (snd e))
                  else (m\<lparr>wm_map := AList.delete (address M p) (wm_map m)\<rparr>, None))"

definition wm_find_const :: "'o memory \<Rightarrow> 'o \<Rightarrow> ('o, 'v) weak_map \<Rightarrow> 'v option" where
  "wm_find_const M p m =
     (case map_of (wm_map m) (address M p) of
        None \<Rightarrow> None
      | Some e \<Rightarrow> if \<not> expired M e then Some (snd e) else None)"

definition wm_contains :: "'o memory \<Rightarrow> 'o \<Rightarrow> ('o, 'v) weak_map \<Rightarrow> bool" where
  "wm_contains M p m \<longleftrightarrow> wm_find_const M p m \<noteq> None"

section \<open>Invariant and abstraction\<close>

text \<open>
  Every entry is stored under the address of its key; \<open>wm_view\<close> is the map of live objects it stands
  for.
\<close>

definition wm_wf :: "'o memory \<Rightarrow> ('o, 'v) weak_map \<Rightarrow> bool" where
  "wm_wf M m \<longleftrightarrow> distinct (map fst (wm_map m)) \<and> (\<forall>(a, p, v)\<in>set (wm_map m). address M p = a)"

definition wm_view :: "'o memory \<Rightarrow> ('o, 'v) weak_map \<Rightarrow> 'o \<rightharpoonup> 'v" where
  "wm_view M m = map_of (map snd (filter (\<lambda>(_, e). \<not> expired M e) (wm_map m)))"

lemma wm_entry: "wm_wf M m \<Longrightarrow> (a, p, v) \<in> set (wm_map m) \<Longrightarrow> address M p = a"
  by (auto simp: wm_wf_def)

lemma wm_view_Some:
  assumes "memory_ok M" "wm_wf M m"
  shows "wm_view M m p = Some v \<longleftrightarrow> alive M p \<and> (address M p, p, v) \<in> set (wm_map m)"
proof -
  let ?es = "filter (\<lambda>(_, e). \<not> expired M e) (wm_map m)"
  have "map (address M) (map fst (map snd ?es)) = map fst ?es" using assms(2) by (auto simp: wm_wf_def)
  moreover have "distinct (map fst ?es)" using assms(2) by (simp add: wm_wf_def distinct_map inj_on_def)
  ultimately have "distinct (map fst (map snd ?es))" by (metis distinct_map)
  then have "wm_view M m p = Some v \<longleftrightarrow> (p, v) \<in> set (map snd ?es)" by (simp only: wm_view_def map_of_eq_Some_iff)
  also have "\<dots> \<longleftrightarrow> (\<exists>a. (a, p, v) \<in> set (wm_map m)) \<and> alive M p" by (force simp: expired_def)
  finally show ?thesis using wm_entry [OF assms(2)] by blast
qed

lemma wm_lookup:
  assumes "memory_ok M" "wm_wf M m" "alive M p"
  shows "wm_view M m p = (case map_of (wm_map m) (address M p) of Some e \<Rightarrow> if expired M e then None else Some (snd e) | None \<Rightarrow> None)"
proof -
  have d: "map_of (wm_map m) a = Some e \<longleftrightarrow> (a, e) \<in> set (wm_map m)" for a e using assms(2) by (simp add: wm_wf_def)
  note view = wm_view_Some [OF assms(1,2), of p]
  show ?thesis
  proof (cases "map_of (wm_map m) (address M p)")
    case None
    then have "wm_view M m p \<noteq> Some v" for v using view [of v] d [of "address M p"] by simp
    then show ?thesis using None by (metis option.exhaust option.simps(4))
  next
    case (Some e)
    obtain q u where e: "e = (q, u)" by force
    have q: "address M q = address M p" using Some e d wm_entry [OF assms(2)] by blast
    have only: "wm_view M m p = Some v \<Longrightarrow> (p, v) = e" for v using view [of v] d [of "address M p" "(p, v)"] Some by simp
    show ?thesis
    proof (cases "alive M q")
      case True
      then have "q = p" using memory_okD [OF assms(1)] assms(3) q by blast
      then show ?thesis using view [of u] Some e d [of "address M p" e] assms(3) by (simp add: expired_def)
    next
      case False
      then have "wm_view M m p = None" using only e assms(3) by (cases "wm_view M m p") auto
      then show ?thesis using Some e False by (simp add: expired_def)
    qed
  qed
qed

lemma wm_view_eqI:
  assumes "memory_ok M" "wm_wf M m" "wm_wf M m'"
    and "\<And>q v. alive M q \<Longrightarrow> (address M q, q, v) \<in> set (wm_map m') \<longleftrightarrow> f q = Some v" "\<And>q. \<not> alive M q \<Longrightarrow> f q = None"
  shows "wm_view M m' = f"
proof
  fix q
  have "wm_view M m' q = Some v \<longleftrightarrow> f q = Some v" for v
    unfolding wm_view_Some [OF assms(1,3)] using assms(4,5) by (cases "alive M q") auto
  then show "wm_view M m' q = f q" by (metis not_Some_eq)
qed

lemma wm_prune_ok:
  assumes "wm_wf M m"
  shows "wm_wf M (wm_prune M m)" "wm_view M (wm_prune M m) = wm_view M m"
  using assms by (auto simp: wm_wf_def wm_prune_def Let_def distinct_map inj_on_def wm_view_def)

lemma wm_delete_ok:
  assumes "wm_wf M m" "map_of (wm_map m) a = Some e" "expired M e"
  shows "wm_wf M (m\<lparr>wm_map := AList.delete a (wm_map m)\<rparr>) \<and> wm_view M (m\<lparr>wm_map := AList.delete a (wm_map m)\<rparr>) = wm_view M m"
proof -
  have d: "distinct (map fst (wm_map m))" using assms(1) by (simp add: wm_wf_def)
  have only: "(a, e') \<in> set (wm_map m) \<Longrightarrow> e' = e" for e' using map_of_is_SomeI [OF d, of a e'] assms(2) by simp
  have "filter (\<lambda>(_, e). \<not> expired M e) (AList.delete a (wm_map m)) = filter (\<lambda>(_, e). \<not> expired M e) (wm_map m)"
    unfolding AList.delete_eq filter_filter
  proof (rule filter_cong [OF refl])
    fix x assume x: "x \<in> set (wm_map m)"
    obtain b e' where "x = (b, e')" by (cases x)
    then show "((case x of (k', _) \<Rightarrow> a \<noteq> k') \<and> (case x of (_, e) \<Rightarrow> \<not> expired M e)) = (case x of (_, e) \<Rightarrow> \<not> expired M e)"
      using only [of e'] x assms(3) by auto
  qed
  moreover have "wm_wf M (m\<lparr>wm_map := AList.delete a (wm_map m)\<rparr>)"
    using assms(1) AList.distinct_delete [OF d] by (auto simp: wm_wf_def AList.delete_eq)
  ultimately show ?thesis by (simp add: wm_view_def)
qed

lemma set_update: "distinct (map fst xs) \<Longrightarrow> set (AList.update k v xs) = {(a, e) \<in> set xs. a \<noteq> k} \<union> {(k, v)}"
proof (induction xs)
  case (Cons x xs)
  obtain b e where "x = (b, e)" by (cases x)
  then show ?case using Cons by force
qed simp

lemma wm_put_ok:
  assumes "memory_ok M" "wm_wf M m" "alive M p" "set es = {(a, e) \<in> set (wm_map m). a \<noteq> address M p} \<union> {(address M p, p, v)}" "distinct (map fst es)"
  shows "wm_wf M (m\<lparr>wm_map := es\<rparr>) \<and> wm_view M (m\<lparr>wm_map := es\<rparr>) = (wm_view M m)(p \<mapsto> v)"
proof -
  have wf: "wm_wf M (m\<lparr>wm_map := es\<rparr>)" using assms(2,4,5) by (auto simp: wm_wf_def)
  have "wm_view M (m\<lparr>wm_map := es\<rparr>) = (wm_view M m)(p \<mapsto> v)"
  proof (rule wm_view_eqI [OF assms(1,2) wf])
    fix q u assume "alive M q"
    then show "(address M q, q, u) \<in> set (wm_map (m\<lparr>wm_map := es\<rparr>)) \<longleftrightarrow> ((wm_view M m)(p \<mapsto> v)) q = Some u"
      using wm_view_Some [OF assms(1,2), of q u] memory_okD [OF assms(1,3), of q] assms(4) by auto
  next
    fix q assume "\<not> alive M q"
    then show "((wm_view M m)(p \<mapsto> v)) q = None" using wm_view_Some [OF assms(1,2), of q] assms(3) by auto
  qed
  then show ?thesis using wf by blast
qed

lemma wm_find_ok:
  assumes "memory_ok M" "wm_wf M m" "alive M p"
  shows "snd (wm_find M p m) = wm_view M m p" "wm_wf M (fst (wm_find M p m))" "wm_view M (fst (wm_find M p m)) = wm_view M m"
  using wm_lookup [OF assms] wm_delete_ok [OF assms(2)] assms(2)
  by (cases "map_of (wm_map m) (address M p)"; simp add: wm_find_def)+

lemma wm_emplace_ok:
  assumes "memory_ok M" "wm_wf M m" "alive M p" and r: "wm_emplace M (Some p) v m = (m', r, inserted)"
  shows "wm_wf M m' \<and> inserted = (wm_view M m p = None) \<and> r = wm_view M m' p
    \<and> wm_view M m' = (if inserted then (wm_view M m)(p \<mapsto> v) else wm_view M m)"
proof (cases "map_of (wm_map m) (address M p)")
  case None
  then have "address M p \<notin> fst ` set (wm_map m)" by (simp add: map_of_eq_None_iff)
  then have "wm_wf M (m\<lparr>wm_map := (address M p, p, v) # wm_map m\<rparr>) \<and> wm_view M (m\<lparr>wm_map := (address M p, p, v) # wm_map m\<rparr>) = (wm_view M m)(p \<mapsto> v)"
    using assms(2) by (intro wm_put_ok [OF assms(1-3)]) (force simp: wm_wf_def)+
  then show ?thesis using None wm_lookup [OF assms(1-3)] assms(2) r by (auto simp: Let_def wm_prune_ok)
next
  case (Some e)
  show ?thesis
  proof (cases "expired M e")
    case True
    have "wm_wf M (m\<lparr>wm_map := AList.update (address M p) (p, v) (wm_map m)\<rparr>)
        \<and> wm_view M (m\<lparr>wm_map := AList.update (address M p) (p, v) (wm_map m)\<rparr>) = (wm_view M m)(p \<mapsto> v)"
      using assms(2) by (intro wm_put_ok [OF assms(1-3)] set_update AList.distinct_update) (simp_all add: wm_wf_def)
    then show ?thesis using Some True wm_lookup [OF assms(1-3)] r by auto
  next
    case False
    then have v: "wm_view M m p = Some (snd e)" using Some wm_lookup [OF assms(1-3)] by simp
    have m': "wm_view M m' = wm_view M m" "wm_wf M m'" "\<not> inserted" "r = Some (snd e)"
      using Some False assms(2) r by (auto simp: wm_prune_ok)
    show ?thesis using v m' by simp
  qed
qed


text \<open>Two objects that share an address, the first one dead.\<close>

definition reused :: "bool memory" where
  "reused = \<lparr>address = (\<lambda>_. 64), alive = id\<rparr>"

definition stale :: "(bool, nat) weak_map" where
  "stale = \<lparr>wm_map = [(64, False, 5)], wm_prune_size = 16\<rparr>"

lemma stale_ok: "memory_ok reused" "wm_wf reused stale" "alive reused True"
  by (simp_all add: memory_ok_def reused_def wm_wf_def stale_def inj_on_def)


text \<open>
  \<^verbatim>\<open>get\<close> and \<^verbatim>\<open>at\<close> do not look at the weak pointer: for an object whose address was that of a dead key they
  return the value of the dead one, where \<^verbatim>\<open>find\<close> reports that there is none.
\<close>

lemma weak_map_get_stale:
  "\<exists>(M :: bool memory) m p. memory_ok M \<and> wm_wf M m \<and> alive M p \<and> wm_view M m p = None \<and> wm_find_const M p m = None
    \<and> wm_get M m p = Some (5 :: nat) \<and> wm_at M m p = Inr 5"
  using stale_ok by (intro exI [of _ reused] exI [of _ stale] exI [of _ True])
    (simp add: wm_view_def stale_def expired_def reused_def wm_get_def wm_at_def wm_find_const_def)

section \<open>When entries are dropped\<close>

fun wm_emplaces :: "('o memory \<times> 'o \<times> 'v) list \<Rightarrow> ('o, 'v) weak_map \<Rightarrow> ('o, 'v) weak_map" where
  "wm_emplaces [] m = m"
| "wm_emplaces ((M, p, v) # es) m = wm_emplaces es (fst (wm_emplace M (Some p) v m))"

lemma emplace_unpruned:
  assumes "wm_prune_size m = 0"
  shows "wm_prune_size (fst (wm_emplace M (Some p) v m)) = 0
    \<and> dom (map_of (wm_map (fst (wm_emplace M (Some p) v m)))) = insert (address M p) (dom (map_of (wm_map m)))"
  using assms by (auto simp: Let_def wm_prune_def update_conv' split: option.split)

text \<open>
  C40: a \<^verbatim>\<open>prune\<close> that finds every entry expired sets the threshold to zero, and from then on \<^verbatim>\<open>emplace\<close> never
  prunes: whatever is emplaced, and however many of the keys have died, every address stays in the
  map.
\<close>

theorem weak_map_stops_pruning:
  assumes "\<forall>(_, e)\<in>set (wm_map m). expired M e"
  shows "wm_map (wm_prune M m) = []
    \<and> dom (map_of (wm_map (wm_emplaces es (wm_prune M m)))) = (\<lambda>(M, p, v). address M p) ` set es"
proof -
  have "wm_map (wm_prune M m) = []" "wm_prune_size (wm_prune M m) = 0"
    using assms by (auto simp: wm_prune_def Let_def filter_empty_conv)
  moreover have "dom (map_of (wm_map (wm_emplaces es m'))) = (\<lambda>(M, p, v). address M p) ` set es \<union> dom (map_of (wm_map m'))"
    if "wm_prune_size m' = 0" for m' :: "('a, 'b) weak_map" and es
    using that
  proof (induction es arbitrary: m')
    case (Cons x es)
    obtain M p v where "x = (M, p, v)" by (cases x)
    then show ?case using Cons emplace_unpruned [OF Cons.prems, of M p v] by auto
  qed simp
  ultimately show ?thesis by simp
qed

lemma weak_map_stops_pruning_witness:
  "dom (map_of (wm_map (wm_emplaces [(reused, True, 1), (reused\<lparr>address := (\<lambda>_. 96)\<rparr>, True, 2)] (wm_prune reused stale)))) = {64, 96}"
proof -
  have e: "\<forall>(_, e)\<in>set (wm_map stale). expired reused e" by (simp add: stale_def expired_def reused_def)
  let ?es = "[(reused, True, 1), (reused\<lparr>address := (\<lambda>_. 96)\<rparr>, True, 2 :: nat)]"
  have "(\<lambda>(M, p, v). address M p) ` set ?es = {64, 96}" by (simp add: reused_def)
  then show ?thesis using weak_map_stops_pruning [OF e, of ?es] by (simp only: conj_assoc)
qed

section \<open>The interface of a cache\<close>

text \<open>
  What a client that memoises a function relies on, and what it gets: if all cached values are right
  (\<open>Q\<close>) then they stay right, and so is every value that is looked up or stored.
\<close>

locale memo_cache =
  fixes cache_find :: "'k \<Rightarrow> 'c \<Rightarrow> 'c \<times> 'v option"
    and cache_emplace :: "'k \<Rightarrow> 'v \<Rightarrow> 'c \<Rightarrow> 'c \<times> 'v option \<times> bool"
    and inv :: "'c \<Rightarrow> bool"
    and view :: "'c \<Rightarrow> 'k \<rightharpoonup> 'v"
    and live :: "'k \<Rightarrow> bool"
  assumes find_law: "inv c \<Longrightarrow> live k \<Longrightarrow> cache_find k c = (c', r) \<Longrightarrow> inv c' \<and> view c' = view c \<and> r = view c k"
    and emplace_law: "inv c \<Longrightarrow> live k \<Longrightarrow> cache_emplace k v c = (c', r, b) \<Longrightarrow>
      inv c' \<and> r = view c' k \<and> view c' = (if view c k = None then (view c)(k \<mapsto> v) else view c)"
begin

lemma find_right:
  assumes "inv c" "\<forall>k v. view c k = Some v \<longrightarrow> Q k v" "live k" "cache_find k c = (c', r)"
  shows "inv c'" "\<forall>k v. view c' k = Some v \<longrightarrow> Q k v" "r = Some v \<Longrightarrow> Q k v"
  using find_law [OF assms(1,3,4)] assms(2) by auto

lemma emplace_right:
  assumes "inv c" "\<forall>k v. view c k = Some v \<longrightarrow> Q k v" "live k" "Q k v" "cache_emplace k v c = (c', r, b)"
  shows "inv c'" "\<forall>k v. view c' k = Some v \<longrightarrow> Q k v" "\<exists>u. r = Some u \<and> Q k u"
  using emplace_law [OF assms(1,3,5)] assms(2,4) by (auto split: if_splits)

end

interpretation weak: memo_cache "wm_find M" "\<lambda>p. wm_emplace M (Some p)" "\<lambda>m. memory_ok M \<and> wm_wf M m" "wm_view M" "alive M" for M
proof (unfold_locales, goal_cases)
  case (1 c k c' r)
  then show ?case using wm_find_ok [of M c k] by simp
next
  case (2 c k v c' r b)
  then show ?case using wm_emplace_ok [of M c k v c' r b] by simp
qed

end
