(* ===== verification/Z3_Convert.thy ===== *)
theory Z3_Convert
  imports Transforms Weak_Map
begin

text \<open>
  \<^verbatim>\<open>Z3OpVisitor\<close> of src/Solver/Z3/Convert.cpp: the translation of expressions into terms of the Z3
  library, with its memo of visited nodes, its map of constants and the constraints it adds to the
  solver on the way. Z3 is a parameter: a record of the functions of its API that the source calls,
  and named laws for those on booleans and bit vectors.
\<close>

declare One_nat_def [simp del]

section \<open>The Z3 API\<close>

datatype z3_sort = BoolSort | BVSort nat | FPASort nat nat | ArraySort z3_sort z3_sort

datatype z3_symbol = StrSymbol string | IntSymbol nat

text \<open>
  The overloaded operators and functions of two arguments, by the name or the sign the source uses:
  \<open>Z3_div\<close> is \<^verbatim>\<open>operator/\<close>, \<open>Z3_mod\<close> is \<^verbatim>\<open>operator%\<close>, \<open>Z3_band\<close> and \<open>Z3_land\<close> are \<^verbatim>\<open>&\<close> and \<^verbatim>\<open>&&\<close>, \<open>Z3_gt\<close> is \<^verbatim>\<open>operator>\<close>.
\<close>

datatype z3_bin =
    Z3_add | Z3_sub | Z3_mul | Z3_div | Z3_mod | Z3_udiv | Z3_urem | Z3_xor | Z3_shl | Z3_lshr | Z3_ashr
  | Z3_band | Z3_bor | Z3_land | Z3_lor
  | Z3_eq | Z3_ne | Z3_ugt | Z3_uge | Z3_ult | Z3_ule | Z3_gt | Z3_ge | Z3_lt | Z3_le
  | Z3_fpa_gt | Z3_fpa_geq | Z3_fpa_lt | Z3_fpa_leq | Z3_select

datatype z3_un =
    Z3_lnot | Z3_bnot | Z3_neg | Z3_is_nan | Z3_extract nat nat | Z3_zext nat | Z3_sext nat
  | Z3_to_ieee_bv | Z3_to_sbv nat | Z3_to_ubv nat
  | Z3_to_fp_signed z3_sort | Z3_to_fp_unsigned z3_sort | Z3_to_fp_float z3_sort | Z3_const_array z3_sort

datatype z3_tern = Z3_ite | Z3_store | Z3_fp

text \<open>
  A call on operands of the wrong sorts throws, which is \<open>None\<close>. \<open>z3_bv_string\<close> is \<^verbatim>\<open>bv_val\<close> of a decimal
  string; \<open>ap_decimal\<close> is \<^verbatim>\<open>APInt::toStringUnsigned\<close> to base ten, of LLVM.
\<close>

record ('e, 'i) z3 =
  get_sort :: "'e \<Rightarrow> z3_sort"
  z3_constant :: "z3_symbol \<Rightarrow> z3_sort \<Rightarrow> 'e"
  z3_bv_val :: "nat \<Rightarrow> nat \<Rightarrow> 'e"
  z3_bv_string :: "string \<Rightarrow> nat \<Rightarrow> 'e"
  z3_fpa_zero :: "z3_sort \<Rightarrow> 'e"
  z3_unary :: "z3_un \<Rightarrow> 'e \<Rightarrow> 'e option"
  z3_binary :: "z3_bin \<Rightarrow> 'e \<Rightarrow> 'e \<Rightarrow> 'e option"
  z3_ternary :: "z3_tern \<Rightarrow> 'e \<Rightarrow> 'e \<Rightarrow> 'e \<Rightarrow> 'e option"
  ap_decimal :: "'i \<Rightarrow> string"

section \<open>Booleans and bit vectors\<close>

definition is_bv :: "('e, 'i, 'y) z3_scheme \<Rightarrow> 'e \<Rightarrow> bool" where
  "is_bv Z e = (case get_sort Z e of BVSort _ \<Rightarrow> True | _ \<Rightarrow> False)"

definition bv_size :: "('e, 'i, 'y) z3_scheme \<Rightarrow> 'e \<Rightarrow> nat option" where
  "bv_size Z e = (case get_sort Z e of BVSort w \<Rightarrow> Some w | _ \<Rightarrow> None)"

definition is_bool :: "('e, 'i, 'y) z3_scheme \<Rightarrow> 'e \<Rightarrow> bool" where
  "is_bool Z e \<longleftrightarrow> get_sort Z e = BoolSort"

definition bool_to_bv :: "('e, 'i, 'y) z3_scheme \<Rightarrow> 'e \<Rightarrow> 'e option" where
  "bool_to_bv Z e = do { ensure (is_bool Z e); z3_ternary Z Z3_ite e (z3_bv_val Z 1 1) (z3_bv_val Z 0 1) }"

definition bv_to_bool :: "('e, 'i, 'y) z3_scheme \<Rightarrow> 'e \<Rightarrow> 'e option" where
  "bv_to_bool Z e = do { ensure (is_bv Z e \<and> bv_size Z e = Some 1); z3_binary Z Z3_eq e (z3_bv_val Z 1 1) }"

definition normalize_to_bool :: "('e, 'i, 'y) z3_scheme \<Rightarrow> 'e \<Rightarrow> 'e option" where
  "normalize_to_bool Z e = (if is_bv Z e \<and> bv_size Z e = Some 1 then bv_to_bool Z e else Some e)"

definition normalize_to_bv :: "('e, 'i, 'y) z3_scheme \<Rightarrow> 'e \<Rightarrow> 'e option" where
  "normalize_to_bv Z e = (if is_bool Z e then bool_to_bv Z e else Some e)"

section \<open>Names and sorts\<close>

type_synonym z3_name = "string + nat"

definition op_name :: "symbol \<Rightarrow> z3_name" where
  "op_name s = (case s of Numbered n \<Rightarrow> Inr n | Named n \<Rightarrow> Inl n)"

text \<open>\<^verbatim>\<open>str_symbol(ptr->c_str())\<close> reads the name up to its first null character.\<close>

definition name_to_symbol :: "z3_name \<Rightarrow> z3_symbol option" where
  "name_to_symbol n =
     (case n of
        Inl s \<Rightarrow> Some (StrSymbol (takeWhile (\<lambda>c. c \<noteq> CHR 0x00) s))
      | Inr k \<Rightarrow> do { ensure (k \<le> 2 ^ 31 - 1); Some (IntSymbol k) })"

definition type_to_sort :: "ty \<Rightarrow> z3_sort option" where
  "type_to_sort t =
     (case kind t of
        Integer \<Rightarrow> do { w \<leftarrow> bitwidth t; Some (BVSort w) }
      | FloatingPoint \<Rightarrow> do { e \<leftarrow> exponent_bits t; m \<leftarrow> mantissa_bits t; Some (FPASort e m) }
      | Array \<Rightarrow> do { w \<leftarrow> bitwidth t; Some (ArraySort (BVSort w) (BVSort 8)) }
      | _ \<Rightarrow> None)"

text \<open>Subtraction of \<^verbatim>\<open>unsigned\<close>.\<close>

definition usub :: "nat \<Rightarrow> nat \<Rightarrow> nat" where
  "usub a b = (a + (2 ^ 32 - b)) mod 2 ^ 32"

definition bv_to_fpa :: "('e, 'i, 'y) z3_scheme \<Rightarrow> ty \<Rightarrow> 'e \<Rightarrow> 'e option" where
  "bv_to_fpa Z t src = do {
     ebits \<leftarrow> exponent_bits t;
     sbits \<leftarrow> mantissa_bits t;
     let tbits = ebits + sbits;
     sig \<leftarrow> z3_unary Z (Z3_extract (usub sbits 2) 0) src;
     exp \<leftarrow> z3_unary Z (Z3_extract (usub tbits 2) (usub sbits 1)) src;
     sgn \<leftarrow> z3_unary Z (Z3_extract (usub tbits 1) (usub tbits 1)) src;
     z3_ternary Z Z3_fp sgn exp sig }"

section \<open>The visitor\<close>

text \<open>
  The state of \<^verbatim>\<open>Z3OpVisitor\<close> and of the solver it refers to: the map of constants, the memo of visited
  nodes by address, the number of the next temporary constant, and the terms added to the solver.
\<close>

record 'e z3_state =
  const_map :: "z3_name \<Rightarrow> 'e option"
  op_cache :: "nat \<Rightarrow> 'e option"
  tmpConstNum :: nat
  solver_terms :: "'e list"

definition z3_start :: "'e z3_state" where
  "z3_start = \<lparr>const_map = Map.empty, op_cache = Map.empty, tmpConstNum = 2 ^ 30 div 2, solver_terms = []\<rparr>"

type_synonym ('i, 'f, 'e) z3_visitor = "('i, 'f) op \<Rightarrow> 'e z3_state \<Rightarrow> ('e \<times> 'e z3_state) option"

definition tmpConstMax :: nat where
  "tmpConstMax = 2 ^ 30 - 1"

definition next_const :: "('e, 'i, 'y) z3_scheme \<Rightarrow> z3_sort \<Rightarrow> 'e z3_state \<Rightarrow> ('e \<times> 'e z3_state) option" where
  "next_const Z t st = do {
     ensure (tmpConstNum st \<noteq> tmpConstMax);
     Some (z3_constant Z (IntSymbol (tmpConstNum st)) t, st\<lparr>tmpConstNum := (tmpConstNum st + 1) mod 2 ^ 32\<rparr>) }"

definition z3Constant :: "('e, 'i, 'y) z3_scheme \<Rightarrow> ('i, 'f, 'e) z3_visitor" where
  "z3Constant Z x st = do {
     s \<leftarrow> op_symbol x;
     (case const_map st (op_name s) of
        Some e \<Rightarrow> Some (e, st)
      | None \<Rightarrow> do {
          t \<leftarrow> type_to_sort (op_type x);
          n \<leftarrow> name_to_symbol (op_name s);
          let e = z3_constant Z n t;
          Some (e, st\<lparr>const_map := (const_map st)(op_name s \<mapsto> e)\<rparr>) }) }"

text \<open>\<^verbatim>\<open>visitConstantArray\<close> has the same body as \<^verbatim>\<open>visitConstant\<close>.\<close>

definition z3ConstantArray :: "('e, 'i, 'y) z3_scheme \<Rightarrow> ('i, 'f, 'e) z3_visitor" where
  "z3ConstantArray Z x st = z3Constant Z x st"

definition z3ConstantInt :: "('i, 'f, 'z) ctx_scheme \<Rightarrow> ('e, 'i, 'y) z3_scheme \<Rightarrow> ('i, 'f, 'e) z3_visitor" where
  "z3ConstantInt S Z x st = do {
     i \<leftarrow> as_const_int x;
     Some (if ap_width S i \<le> 64 then z3_bv_val Z (ap_limited S i size_max) (ap_width S i)
           else z3_bv_string Z (ap_decimal Z i) (ap_width S i), st) }"

definition z3ConstantFloat :: "('i, 'f, 'z) ctx_scheme \<Rightarrow> ('e, 'i, 'y) z3_scheme \<Rightarrow> ('i, 'f, 'e) z3_visitor \<Rightarrow> ('i, 'f, 'e) z3_visitor" where
  "z3ConstantFloat S Z vis x st = do {
     f \<leftarrow> as_const_float x;
     c \<leftarrow> CreateConstantInt S (constant_fold S) (fl_to_bits S f);
     (src, st') \<leftarrow> vis c st;
     e \<leftarrow> bv_to_fpa Z (op_type x) src;
     Some (e, st') }"

definition z3Undef :: "('e, 'i, 'y) z3_scheme \<Rightarrow> ('i, 'f, 'e) z3_visitor" where
  "z3Undef Z x st =
     (if is_int (op_type x) then do { w \<leftarrow> bitwidth (op_type x); Some (z3_bv_val Z 0 w, st) }
      else if is_float (op_type x)
      then do { e \<leftarrow> exponent_bits (op_type x); m \<leftarrow> mantissa_bits (op_type x); Some (z3_fpa_zero Z (FPASort e m), st) }
      else None)"

fun z3_elements :: "('e, 'i, 'y) z3_scheme \<Rightarrow> ('i, 'f, 'e) z3_visitor \<Rightarrow> 'e \<Rightarrow> nat \<Rightarrow> nat \<Rightarrow> ('i, 'f) op list \<Rightarrow>
    'e z3_state \<Rightarrow> 'e z3_state option" where
  "z3_elements Z vis array w i [] st = Some st"
| "z3_elements Z vis array w i (x # xs) st = do {
     (v, st') \<leftarrow> vis x st;
     sel \<leftarrow> z3_binary Z Z3_select array (z3_bv_val Z i w);
     eq \<leftarrow> z3_binary Z Z3_eq sel v;
     z3_elements Z vis array w (i + 1) xs (st'\<lparr>solver_terms := solver_terms st' @ [eq]\<rparr>) }"

definition z3FixedArray :: "('e, 'i, 'y) z3_scheme \<Rightarrow> ('i, 'f, 'e) z3_visitor \<Rightarrow> ('i, 'f, 'e) z3_visitor" where
  "z3FixedArray Z vis x st = do {
     w \<leftarrow> bitwidth (op_type x);
     (array, st') \<leftarrow> next_const Z (ArraySort (BVSort w) (BVSort 8)) st;
     st'' \<leftarrow> z3_elements Z vis array w 0 (operands x) st';
     Some (array, st'') }"

definition z3_binop :: "('e, 'i, 'y) z3_scheme \<Rightarrow> z3_bin \<Rightarrow> ('i, 'f, 'e) z3_visitor \<Rightarrow> ('i, 'f, 'e) z3_visitor" where
  "z3_binop Z f vis x st = do {
     l \<leftarrow> operand_at x 0;
     (le, st1) \<leftarrow> vis l st;
     lhs \<leftarrow> normalize_to_bv Z le;
     r \<leftarrow> operand_at x 1;
     (re, st2) \<leftarrow> vis r st1;
     rhs \<leftarrow> normalize_to_bv Z re;
     e \<leftarrow> z3_binary Z f lhs rhs;
     Some (e, st2) }"

text \<open>\<^verbatim>\<open>visitAnd\<close> and \<^verbatim>\<open>visitOr\<close>, which keep booleans.\<close>

definition z3_logic :: "('e, 'i, 'y) z3_scheme \<Rightarrow> z3_bin \<Rightarrow> z3_bin \<Rightarrow> ('i, 'f, 'e) z3_visitor \<Rightarrow> ('i, 'f, 'e) z3_visitor" where
  "z3_logic Z logical bitwise vis x st = do {
     l \<leftarrow> operand_at x 0;
     (le, st1) \<leftarrow> vis l st;
     lhs \<leftarrow> normalize_to_bool Z le;
     r \<leftarrow> operand_at x 1;
     (re, st2) \<leftarrow> vis r st1;
     rhs \<leftarrow> normalize_to_bool Z re;
     e \<leftarrow> z3_binary Z (if is_bool Z lhs then logical else bitwise) lhs rhs;
     Some (e, st2) }"

definition z3And :: "('e, 'i, 'y) z3_scheme \<Rightarrow> ('i, 'f, 'e) z3_visitor \<Rightarrow> ('i, 'f, 'e) z3_visitor" where
  "z3And Z = z3_logic Z Z3_land Z3_band"

definition z3Or :: "('e, 'i, 'y) z3_scheme \<Rightarrow> ('i, 'f, 'e) z3_visitor \<Rightarrow> ('i, 'f, 'e) z3_visitor" where
  "z3Or Z = z3_logic Z Z3_lor Z3_bor"

fun icmp_term :: "icmp_opcode \<Rightarrow> z3_bin" where
  "icmp_term ICmp_EQ = Z3_eq" | "icmp_term ICmp_NE = Z3_ne"
| "icmp_term ICmp_UGT = Z3_ugt" | "icmp_term ICmp_UGE = Z3_uge" | "icmp_term ICmp_ULT = Z3_ult" | "icmp_term ICmp_ULE = Z3_ule"
| "icmp_term ICmp_SGT = Z3_gt" | "icmp_term ICmp_SGE = Z3_ge" | "icmp_term ICmp_SLT = Z3_lt" | "icmp_term ICmp_SLE = Z3_le"

definition z3ICmp :: "('e, 'i, 'y) z3_scheme \<Rightarrow> icmp_opcode \<Rightarrow> ('i, 'f, 'e) z3_visitor \<Rightarrow> ('i, 'f, 'e) z3_visitor" where
  "z3ICmp Z p = z3_binop Z (icmp_term p)"

fun fcmp_term :: "fcmp_opcode \<Rightarrow> z3_bin" where
  "fcmp_term FCmp_EQ = Z3_eq" | "fcmp_term FCmp_NE = Z3_ne"
| "fcmp_term FCmp_GT = Z3_fpa_gt" | "fcmp_term FCmp_GE = Z3_fpa_geq" | "fcmp_term FCmp_LT = Z3_fpa_lt" | "fcmp_term FCmp_LE = Z3_fpa_leq"

text \<open>Nodes of two operands whose terms are not normalized.\<close>

definition z3_plain :: "('e, 'i, 'y) z3_scheme \<Rightarrow> z3_bin \<Rightarrow> ('i, 'f, 'e) z3_visitor \<Rightarrow> ('i, 'f, 'e) z3_visitor" where
  "z3_plain Z f vis x st = do {
     l \<leftarrow> operand_at x 0;
     (lhs, st1) \<leftarrow> vis l st;
     r \<leftarrow> operand_at x 1;
     (rhs, st2) \<leftarrow> vis r st1;
     e \<leftarrow> z3_binary Z f lhs rhs;
     Some (e, st2) }"

definition z3FCmp :: "('e, 'i, 'y) z3_scheme \<Rightarrow> fcmp_opcode \<Rightarrow> ('i, 'f, 'e) z3_visitor \<Rightarrow> ('i, 'f, 'e) z3_visitor" where
  "z3FCmp Z p = z3_plain Z (fcmp_term p)"

definition z3Not :: "('e, 'i, 'y) z3_scheme \<Rightarrow> ('i, 'f, 'e) z3_visitor \<Rightarrow> ('i, 'f, 'e) z3_visitor" where
  "z3Not Z vis x st = do {
     y \<leftarrow> operand_at x 0;
     (e, st') \<leftarrow> vis y st;
     b \<leftarrow> normalize_to_bool Z e;
     r \<leftarrow> z3_unary Z (if is_bool Z b then Z3_lnot else Z3_bnot) b;
     Some (r, st') }"

text \<open>Nodes of one operand, without and with the operand turned into a bit vector.\<close>

definition z3_unop :: "('e, 'i, 'y) z3_scheme \<Rightarrow> z3_un \<Rightarrow> ('i, 'f, 'e) z3_visitor \<Rightarrow> ('i, 'f, 'e) z3_visitor" where
  "z3_unop Z f vis x st = do { y \<leftarrow> operand_at x 0; (e, st') \<leftarrow> vis y st; r \<leftarrow> z3_unary Z f e; Some (r, st') }"

definition z3_bv_unop :: "('e, 'i, 'y) z3_scheme \<Rightarrow> ('e \<Rightarrow> z3_un option) \<Rightarrow> ('i, 'f, 'e) z3_visitor \<Rightarrow> ('i, 'f, 'e) z3_visitor" where
  "z3_bv_unop Z f vis x st = do {
     y \<leftarrow> operand_at x 0;
     (e, st') \<leftarrow> vis y st;
     src \<leftarrow> normalize_to_bv Z e;
     u \<leftarrow> f src;
     r \<leftarrow> z3_unary Z u src;
     Some (r, st') }"

definition z3Select :: "('e, 'i, 'y) z3_scheme \<Rightarrow> ('i, 'f, 'e) z3_visitor \<Rightarrow> ('i, 'f, 'e) z3_visitor" where
  "z3Select Z vis x st = do {
     c \<leftarrow> operand_at x 0;
     (selectCond, st1) \<leftarrow> vis c st;
     t \<leftarrow> operand_at x 1;
     (trueVal, st2) \<leftarrow> vis t st1;
     f \<leftarrow> operand_at x 2;
     (falseVal, st3) \<leftarrow> vis f st2;
     cond \<leftarrow> normalize_to_bool Z selectCond;
     t_val \<leftarrow> normalize_to_bv Z trueVal;
     f_val \<leftarrow> normalize_to_bv Z falseVal;
     e \<leftarrow> z3_ternary Z Z3_ite cond t_val f_val;
     Some (e, st3) }"

definition z3Trunc :: "('e, 'i, 'y) z3_scheme \<Rightarrow> ('i, 'f, 'e) z3_visitor \<Rightarrow> ('i, 'f, 'e) z3_visitor" where
  "z3Trunc Z vis x = z3_bv_unop Z (\<lambda>_. do { w \<leftarrow> bitwidth (op_type x); Some (Z3_extract (usub w 1) 0) }) vis x"

definition z3ZExt :: "('e, 'i, 'y) z3_scheme \<Rightarrow> ('i, 'f, 'e) z3_visitor \<Rightarrow> ('i, 'f, 'e) z3_visitor" where
  "z3ZExt Z vis x = z3_bv_unop Z (\<lambda>e. do { w \<leftarrow> bitwidth (op_type x); k \<leftarrow> bv_size Z e; Some (Z3_zext (usub w k)) }) vis x"

definition z3SExt :: "('e, 'i, 'y) z3_scheme \<Rightarrow> ('i, 'f, 'e) z3_visitor \<Rightarrow> ('i, 'f, 'e) z3_visitor" where
  "z3SExt Z vis x = z3_bv_unop Z (\<lambda>e. do { w \<leftarrow> bitwidth (op_type x); k \<leftarrow> bv_size Z e; Some (Z3_sext (usub w k)) }) vis x"

definition z3Bitcast :: "('e, 'i, 'y) z3_scheme \<Rightarrow> ('i, 'f, 'e) z3_visitor \<Rightarrow> ('i, 'f, 'e) z3_visitor" where
  "z3Bitcast Z vis x st = do {
     y \<leftarrow> operand_at x 0;
     (e, st') \<leftarrow> vis y st;
     src \<leftarrow> normalize_to_bv Z e;
     if op_type x = op_type y then Some (src, st')
     else if is_int (op_type x) \<and> is_float (op_type y)
     then do { r \<leftarrow> z3_unary Z Z3_to_ieee_bv src; Some (r, st') }
     else if is_float (op_type x) \<and> is_int (op_type y)
     then do { r \<leftarrow> bv_to_fpa Z (op_type x) src; Some (r, st') }
     else None }"

definition z3_int_to_fp :: "('e, 'i, 'y) z3_scheme \<Rightarrow> (z3_sort \<Rightarrow> z3_un) \<Rightarrow> ('i, 'f, 'e) z3_visitor \<Rightarrow> ('i, 'f, 'e) z3_visitor" where
  "z3_int_to_fp Z f vis x = z3_bv_unop Z (\<lambda>_. do { t \<leftarrow> type_to_sort (op_type x); Some (f t) }) vis x"

definition z3_fp_to_int :: "('e, 'i, 'y) z3_scheme \<Rightarrow> (nat \<Rightarrow> z3_un) \<Rightarrow> ('i, 'f, 'e) z3_visitor \<Rightarrow> ('i, 'f, 'e) z3_visitor" where
  "z3_fp_to_int Z f vis x st = do { w \<leftarrow> bitwidth (op_type x); z3_unop Z (f w) vis x st }"

definition z3_fp_to_fp :: "('e, 'i, 'y) z3_scheme \<Rightarrow> ('i, 'f, 'e) z3_visitor \<Rightarrow> ('i, 'f, 'e) z3_visitor" where
  "z3_fp_to_fp Z vis x st = do { t \<leftarrow> type_to_sort (op_type x); z3_unop Z (Z3_to_fp_float t) vis x st }"

definition z3Load :: "('e, 'i, 'y) z3_scheme \<Rightarrow> ('i, 'f, 'e) z3_visitor \<Rightarrow> ('i, 'f, 'e) z3_visitor" where
  "z3Load Z = z3_plain Z Z3_select"

definition z3Store :: "('e, 'i, 'y) z3_scheme \<Rightarrow> ('i, 'f, 'e) z3_visitor \<Rightarrow> ('i, 'f, 'e) z3_visitor" where
  "z3Store Z vis x st = do {
     d \<leftarrow> operand_at x 0;
     (de, st1) \<leftarrow> vis d st;
     i \<leftarrow> operand_at x 1;
     (ie, st2) \<leftarrow> vis i st1;
     v \<leftarrow> operand_at x 2;
     (ve, st3) \<leftarrow> vis v st2;
     e \<leftarrow> z3_ternary Z Z3_store de ie ve;
     Some (e, st3) }"

definition z3Alloc :: "('e, 'i, 'y) z3_scheme \<Rightarrow> ('i, 'f, 'e) z3_visitor \<Rightarrow> ('i, 'f, 'e) z3_visitor" where
  "z3Alloc Z vis x st = do {
     d \<leftarrow> operand_at x 1;
     (v, st') \<leftarrow> vis d st;
     sz \<leftarrow> operand_at x 0;
     w \<leftarrow> bitwidth (op_type sz);
     e \<leftarrow> z3_unary Z (Z3_const_array (BVSort w)) v;
     Some (e, st') }"

text \<open>
  The dispatch of \<^verbatim>\<open>ConstOpVisitor\<close>; \<open>vis\<close> is the recursive call. A function object, a node of an e-graph
  and an opcode without a visitor abort.
\<close>

definition z3_dispatch :: "('i, 'f, 'z) ctx_scheme \<Rightarrow> ('e, 'i, 'y) z3_scheme \<Rightarrow> ('i, 'f, 'e) z3_visitor \<Rightarrow> ('i, 'f, 'e) z3_visitor" where
  "z3_dispatch S Z vis x =
     (case op_opcode x of
        ConstantNamed \<Rightarrow> z3Constant Z x | ConstantNumbered \<Rightarrow> z3Constant Z x
      | ConstantArray \<Rightarrow> z3ConstantArray Z x
      | ConstantInt \<Rightarrow> z3ConstantInt S Z x
      | ConstantFloat \<Rightarrow> z3ConstantFloat S Z vis x
      | Undef \<Rightarrow> z3Undef Z x
      | FixedArray \<Rightarrow> z3FixedArray Z vis x
      | Add \<Rightarrow> z3_binop Z Z3_add vis x | Sub \<Rightarrow> z3_binop Z Z3_sub vis x | Mul \<Rightarrow> z3_binop Z Z3_mul vis x
      | UDiv \<Rightarrow> z3_binop Z Z3_udiv vis x | SDiv \<Rightarrow> z3_binop Z Z3_div vis x
      | URem \<Rightarrow> z3_binop Z Z3_urem vis x | SRem \<Rightarrow> z3_binop Z Z3_mod vis x
      | Xor \<Rightarrow> z3_binop Z Z3_xor vis x
      | Shl \<Rightarrow> z3_binop Z Z3_shl vis x | LShr \<Rightarrow> z3_binop Z Z3_lshr vis x | AShr \<Rightarrow> z3_binop Z Z3_ashr vis x
      | FAdd \<Rightarrow> z3_binop Z Z3_add vis x | FSub \<Rightarrow> z3_binop Z Z3_sub vis x | FMul \<Rightarrow> z3_binop Z Z3_mul vis x
      | FDiv \<Rightarrow> z3_binop Z Z3_div vis x | FRem \<Rightarrow> z3_binop Z Z3_mod vis x
      | And \<Rightarrow> z3And Z vis x | Or \<Rightarrow> z3Or Z vis x
      | ICmp p \<Rightarrow> z3ICmp Z p vis x | FCmp p \<Rightarrow> z3FCmp Z p vis x
      | Not \<Rightarrow> z3Not Z vis x
      | FNeg \<Rightarrow> z3_unop Z Z3_neg vis x | FIsNaN \<Rightarrow> z3_unop Z Z3_is_nan vis x
      | Select \<Rightarrow> z3Select Z vis x
      | Trunc \<Rightarrow> z3Trunc Z vis x | Bitcast \<Rightarrow> z3Bitcast Z vis x | ZExt \<Rightarrow> z3ZExt Z vis x | SExt \<Rightarrow> z3SExt Z vis x
      | SIToFp \<Rightarrow> z3_int_to_fp Z Z3_to_fp_signed vis x | UIToFp \<Rightarrow> z3_int_to_fp Z Z3_to_fp_unsigned vis x
      | FpToSI \<Rightarrow> z3_fp_to_int Z Z3_to_sbv vis x | FpToUI \<Rightarrow> z3_fp_to_int Z Z3_to_ubv vis x
      | FpExt \<Rightarrow> z3_fp_to_fp Z vis x | FpTrunc \<Rightarrow> z3_fp_to_fp Z vis x
      | Load \<Rightarrow> z3Load Z vis x | Store \<Rightarrow> z3Store Z vis x | Alloc \<Rightarrow> z3Alloc Z vis x
      | _ \<Rightarrow> (\<lambda>_. None))"

text \<open>
  \<^verbatim>\<open>Z3OpVisitor::visit\<close> with at most \<open>d\<close> nested calls. \<^verbatim>\<open>cache.emplace\<close> keeps an entry that is there.
\<close>

primrec z3_visit_depth :: "('i, 'f, 'z) ctx_scheme \<Rightarrow> ('e, 'i, 'y) z3_scheme \<Rightarrow> ('i, 'f) op memory \<Rightarrow> nat \<Rightarrow> ('i, 'f, 'e) z3_visitor" where
  "z3_visit_depth S Z M 0 x st = None"
| "z3_visit_depth S Z M (Suc d) x st =
     (case op_cache st (address M x) of
        Some e \<Rightarrow> Some (e, st)
      | None \<Rightarrow> do {
          (e, st') \<leftarrow> z3_dispatch S Z (z3_visit_depth S Z M d) x st;
          Some (e, if op_cache st' (address M x) = None
                   then st'\<lparr>op_cache := (op_cache st')(address M x \<mapsto> e)\<rparr> else st') })"

text \<open>A node of height \<open>h\<close> makes at most \<open>h\<close> nested calls, and one more for the bits of a float.\<close>

definition z3_visit :: "('i, 'f, 'z) ctx_scheme \<Rightarrow> ('e, 'i, 'y) z3_scheme \<Rightarrow> ('i, 'f) op memory \<Rightarrow> ('i, 'f, 'e) z3_visitor" where
  "z3_visit S Z M x = z3_visit_depth S Z M (height x + 1) x"

end
