(* ===== verification/Z3_Sound.thy ===== *)
theory Z3_Sound
  imports Z3_Convert
begin

text \<open>
  The translation to Z3 is faithful on the integer fragment: the term of an expression takes, under
  every assignment, a value the expression may take in the environment the assignment describes.
\<close>

declare One_nat_def [simp del]

section \<open>Documented behaviour of Z3\<close>

text \<open>
  The values of terms of sorts \<open>BoolSort\<close> and \<open>BVSort w\<close>; those of other sorts are left open. The bit-vector
  operations are those of SMT-LIB: in \<^verbatim>\<open>z3++.h\<close>, \<^verbatim>\<open>operator/\<close> on bit vectors is \<^verbatim>\<open>bvsdiv\<close>, \<^verbatim>\<open>operator%\<close> is \<^verbatim>\<open>bvsmod\<close> and
  the comparison operators are signed.
\<close>

datatype 'v zval = ZBool bool | ZBV nat nat | ZOther 'v

type_synonym 'v assignment = "z3_symbol \<Rightarrow> z3_sort \<Rightarrow> 'v zval"

fun zval_sort :: "'v zval \<Rightarrow> z3_sort \<Rightarrow> bool" where
  "zval_sort (ZBool b) t \<longleftrightarrow> t = BoolSort"
| "zval_sort (ZBV w n) t \<longleftrightarrow> t = BVSort w \<and> n < 2 ^ w"
| "zval_sort (ZOther v) t \<longleftrightarrow> (case t of FPASort _ _ \<Rightarrow> True | ArraySort _ _ \<Rightarrow> True | _ \<Rightarrow> False)"

fun znum :: "'v zval \<Rightarrow> nat" where
  "znum (ZBool b) = (if b then 1 else 0)"
| "znum (ZBV w n) = n"
| "znum (ZOther v) = 0"

definition sorted_assignment :: "'v assignment \<Rightarrow> bool" where
  "sorted_assignment \<alpha> \<longleftrightarrow> (\<forall>s t. zval_sort (\<alpha> s t) t)"

definition bvsdiv_val :: "nat \<Rightarrow> nat \<Rightarrow> nat \<Rightarrow> nat" where
  "bvsdiv_val w a b = (if b = 0 then (if to_signed w a < 0 then 1 else 2 ^ w - 1) else sdiv_val w a b)"

definition bvsmod_val :: "nat \<Rightarrow> nat \<Rightarrow> nat \<Rightarrow> nat" where
  "bvsmod_val w a b = (if b = 0 then a else of_signed w (to_signed w a mod to_signed w b))"

fun bv_arith :: "z3_bin \<Rightarrow> (nat \<Rightarrow> nat \<Rightarrow> nat \<Rightarrow> nat) option" where
  "bv_arith Z3_add = Some (\<lambda>w a b. (a + b) mod 2 ^ w)"
| "bv_arith Z3_sub = Some (\<lambda>w a b. (a + (2 ^ w - b)) mod 2 ^ w)"
| "bv_arith Z3_mul = Some (\<lambda>w a b. (a * b) mod 2 ^ w)"
| "bv_arith Z3_udiv = Some (\<lambda>w a b. if b = 0 then 2 ^ w - 1 else a div b)"
| "bv_arith Z3_urem = Some (\<lambda>w a b. if b = 0 then a else a mod b)"
| "bv_arith Z3_div = Some bvsdiv_val"
| "bv_arith Z3_mod = Some bvsmod_val"
| "bv_arith Z3_xor = Some (\<lambda>w a b. xor a b)"
| "bv_arith Z3_band = Some (\<lambda>w a b. and a b)"
| "bv_arith Z3_bor = Some (\<lambda>w a b. or a b)"
| "bv_arith Z3_shl = Some shl_val"
| "bv_arith Z3_lshr = Some (\<lambda>w a b. drop_bit b a)"
| "bv_arith Z3_ashr = Some ashr_val"
| "bv_arith _ = None"

fun bv_rel :: "z3_bin \<Rightarrow> (nat \<Rightarrow> nat \<Rightarrow> nat \<Rightarrow> bool) option" where
  "bv_rel Z3_eq = Some (\<lambda>w a b. a = b)"
| "bv_rel Z3_ne = Some (\<lambda>w a b. a \<noteq> b)"
| "bv_rel Z3_ugt = Some (\<lambda>w a b. a > b)"
| "bv_rel Z3_uge = Some (\<lambda>w a b. a \<ge> b)"
| "bv_rel Z3_ult = Some (\<lambda>w a b. a < b)"
| "bv_rel Z3_ule = Some (\<lambda>w a b. a \<le> b)"
| "bv_rel Z3_gt = Some (\<lambda>w a b. to_signed w a > to_signed w b)"
| "bv_rel Z3_ge = Some (\<lambda>w a b. to_signed w a \<ge> to_signed w b)"
| "bv_rel Z3_lt = Some (\<lambda>w a b. to_signed w a < to_signed w b)"
| "bv_rel Z3_le = Some (\<lambda>w a b. to_signed w a \<le> to_signed w b)"
| "bv_rel _ = None"

text \<open>The operations of one bit vector: the width of the result and its value.\<close>

fun bv_un :: "z3_un \<Rightarrow> nat \<Rightarrow> (nat \<times> (nat \<Rightarrow> nat)) option" where
  "bv_un Z3_bnot w = Some (w, \<lambda>a. 2 ^ w - 1 - a)"
| "bv_un (Z3_extract hi lo) w =
     (if lo \<le> hi \<and> hi < w then Some (hi - lo + 1, \<lambda>a. drop_bit lo a mod 2 ^ (hi - lo + 1)) else None)"
| "bv_un (Z3_zext k) w = Some (w + k, \<lambda>a. a)"
| "bv_un (Z3_sext k) w = Some (w + k, \<lambda>a. of_signed (w + k) (to_signed w a))"
| "bv_un _ w = None"

fun bool_logic :: "z3_bin \<Rightarrow> (bool \<Rightarrow> bool \<Rightarrow> bool) option" where
  "bool_logic Z3_land = Some (\<and>)"
| "bool_logic Z3_lor = Some (\<or>)"
| "bool_logic _ = None"

definition denotes :: "('e, 'i, 'y) z3_scheme \<Rightarrow> ('v assignment \<Rightarrow> 'e \<Rightarrow> 'v zval) \<Rightarrow> 'e \<Rightarrow> z3_sort \<Rightarrow> ('v assignment \<Rightarrow> 'v zval) \<Rightarrow> bool" where
  "denotes Z ev e t f \<longleftrightarrow> get_sort Z e = t \<and> (\<forall>\<alpha>. sorted_assignment \<alpha> \<longrightarrow> ev \<alpha> e = f \<alpha>)"

definition z3_laws :: "('i, 'f, 'z) ctx_scheme \<Rightarrow> ('e, 'i, 'y) z3_scheme \<Rightarrow> ('v assignment \<Rightarrow> 'e \<Rightarrow> 'v zval) \<Rightarrow> bool" where
  "z3_laws S Z ev \<longleftrightarrow>
     (\<forall>e \<alpha>. sorted_assignment \<alpha> \<longrightarrow> zval_sort (ev \<alpha> e) (get_sort Z e))
   \<and> (\<forall>s t. denotes Z ev (z3_constant Z s t) t (\<lambda>\<alpha>. \<alpha> s t))
   \<and> (\<forall>n w. 0 < w \<longrightarrow> denotes Z ev (z3_bv_val Z n w) (BVSort w) (\<lambda>_. ZBV w (n mod 2 ^ w)))
   \<and> (\<forall>i. 0 < ap_width S i \<longrightarrow>
        denotes Z ev (z3_bv_string Z (ap_decimal Z i) (ap_width S i)) (BVSort (ap_width S i)) (\<lambda>_. ZBV (ap_width S i) (ap_val S i)))
   \<and> (\<forall>f g w a b. bv_arith f = Some g \<longrightarrow> get_sort Z a = BVSort w \<longrightarrow> get_sort Z b = BVSort w \<longrightarrow>
        (\<exists>e. z3_binary Z f a b = Some e \<and> denotes Z ev e (BVSort w) (\<lambda>\<alpha>. ZBV w (g w (znum (ev \<alpha> a)) (znum (ev \<alpha> b))))))
   \<and> (\<forall>f g w a b. bv_rel f = Some g \<longrightarrow> get_sort Z a = BVSort w \<longrightarrow> get_sort Z b = BVSort w \<longrightarrow>
        (\<exists>e. z3_binary Z f a b = Some e \<and> denotes Z ev e BoolSort (\<lambda>\<alpha>. ZBool (g w (znum (ev \<alpha> a)) (znum (ev \<alpha> b))))))
   \<and> (\<forall>f g a b. bool_logic f = Some g \<longrightarrow> get_sort Z a = BoolSort \<longrightarrow> get_sort Z b = BoolSort \<longrightarrow>
        (\<exists>e. z3_binary Z f a b = Some e \<and> denotes Z ev e BoolSort (\<lambda>\<alpha>. ZBool (g (ev \<alpha> a = ZBool True) (ev \<alpha> b = ZBool True)))))
   \<and> (\<forall>f w n g a. bv_un f w = Some (n, g) \<longrightarrow> get_sort Z a = BVSort w \<longrightarrow>
        (\<exists>e. z3_unary Z f a = Some e \<and> denotes Z ev e (BVSort n) (\<lambda>\<alpha>. ZBV n (g (znum (ev \<alpha> a))))))
   \<and> (\<forall>a. get_sort Z a = BoolSort \<longrightarrow>
        (\<exists>e. z3_unary Z Z3_lnot a = Some e \<and> denotes Z ev e BoolSort (\<lambda>\<alpha>. ZBool (ev \<alpha> a \<noteq> ZBool True))))
   \<and> (\<forall>c a b. get_sort Z c = BoolSort \<longrightarrow> get_sort Z a = get_sort Z b \<longrightarrow>
        (\<exists>e. z3_ternary Z Z3_ite c a b = Some e \<and> denotes Z ev e (get_sort Z a) (\<lambda>\<alpha>. if ev \<alpha> c = ZBool True then ev \<alpha> a else ev \<alpha> b)))"

lemma z3_lawsD:
  assumes "z3_laws S Z ev"
  shows "sorted_assignment \<alpha> \<Longrightarrow> zval_sort (ev \<alpha> e) (get_sort Z e)"
    and "denotes Z ev (z3_constant Z s t) t (\<lambda>\<alpha>. \<alpha> s t)"
    and "0 < w \<Longrightarrow> denotes Z ev (z3_bv_val Z n w) (BVSort w) (\<lambda>_. ZBV w (n mod 2 ^ w))"
    and "0 < ap_width S i \<Longrightarrow>
      denotes Z ev (z3_bv_string Z (ap_decimal Z i) (ap_width S i)) (BVSort (ap_width S i)) (\<lambda>_. ZBV (ap_width S i) (ap_val S i))"
    and "bv_arith f = Some g \<Longrightarrow> get_sort Z a = BVSort w \<Longrightarrow> get_sort Z b = BVSort w \<Longrightarrow>
      \<exists>e. z3_binary Z f a b = Some e \<and> denotes Z ev e (BVSort w) (\<lambda>\<alpha>. ZBV w (g w (znum (ev \<alpha> a)) (znum (ev \<alpha> b))))"
    and "bv_rel f = Some p \<Longrightarrow> get_sort Z a = BVSort w \<Longrightarrow> get_sort Z b = BVSort w \<Longrightarrow>
      \<exists>e. z3_binary Z f a b = Some e \<and> denotes Z ev e BoolSort (\<lambda>\<alpha>. ZBool (p w (znum (ev \<alpha> a)) (znum (ev \<alpha> b))))"
    and "bool_logic f = Some q \<Longrightarrow> get_sort Z a = BoolSort \<Longrightarrow> get_sort Z b = BoolSort \<Longrightarrow>
      \<exists>e. z3_binary Z f a b = Some e \<and> denotes Z ev e BoolSort (\<lambda>\<alpha>. ZBool (q (ev \<alpha> a = ZBool True) (ev \<alpha> b = ZBool True)))"
    and "bv_un u w = Some (n, h) \<Longrightarrow> get_sort Z a = BVSort w \<Longrightarrow>
      \<exists>e. z3_unary Z u a = Some e \<and> denotes Z ev e (BVSort n) (\<lambda>\<alpha>. ZBV n (h (znum (ev \<alpha> a))))"
    and "get_sort Z a = BoolSort \<Longrightarrow>
      \<exists>e. z3_unary Z Z3_lnot a = Some e \<and> denotes Z ev e BoolSort (\<lambda>\<alpha>. ZBool (ev \<alpha> a \<noteq> ZBool True))"
    and "get_sort Z c = BoolSort \<Longrightarrow> get_sort Z a = get_sort Z b \<Longrightarrow>
      \<exists>e. z3_ternary Z Z3_ite c a b = Some e \<and> denotes Z ev e (get_sort Z a) (\<lambda>\<alpha>. if ev \<alpha> c = ZBool True then ev \<alpha> a else ev \<alpha> b)"
  using assms unfolding z3_laws_def by auto

section \<open>Integer terms\<close>

abbreviation int_term :: "('e, 'i, 'y) z3_scheme \<Rightarrow> nat \<Rightarrow> 'e \<Rightarrow> bool" where
  "int_term Z w e \<equiv> get_sort Z e = BVSort w \<or> w = 1 \<and> get_sort Z e = BoolSort"

lemma znum_sort:
  assumes "z3_laws S Z ev" "sorted_assignment \<alpha>"
  shows "get_sort Z e = BVSort w \<Longrightarrow> ev \<alpha> e = ZBV w (znum (ev \<alpha> e)) \<and> znum (ev \<alpha> e) < 2 ^ w"
    and "get_sort Z e = BoolSort \<Longrightarrow> ev \<alpha> e = ZBool (znum (ev \<alpha> e) = 1) \<and> znum (ev \<alpha> e) \<le> 1"
    and "int_term Z w e \<Longrightarrow> znum (ev \<alpha> e) < 2 ^ w"
proof -
  have s: "zval_sort (ev \<alpha> e) (get_sort Z e)" using z3_lawsD(1) [OF assms] .
  show 1: "ev \<alpha> e = ZBV w (znum (ev \<alpha> e)) \<and> znum (ev \<alpha> e) < 2 ^ w" if "get_sort Z e = BVSort w"
    using s that by (cases "ev \<alpha> e") auto
  show 2: "ev \<alpha> e = ZBool (znum (ev \<alpha> e) = 1) \<and> znum (ev \<alpha> e) \<le> 1" if "get_sort Z e = BoolSort"
    using s that by (cases "ev \<alpha> e") auto
  show "int_term Z w e \<Longrightarrow> znum (ev \<alpha> e) < 2 ^ w" using 1 2 by (auto simp: le_less_trans)
qed

lemma normalize_bv:
  assumes L: "z3_laws S Z ev" and e: "int_term Z w e"
  obtains e' where "normalize_to_bv Z e = Some e'" "get_sort Z e' = BVSort w"
    "\<And>\<alpha>. sorted_assignment \<alpha> \<Longrightarrow> znum (ev \<alpha> e') = znum (ev \<alpha> e)"
proof (cases "is_bool Z e")
  case False
  then show thesis using that [of e] e by (simp add: normalize_to_bv_def is_bool_def)
next
  case True
  then have b: "get_sort Z e = BoolSort" "w = 1" using e by (auto simp: is_bool_def)
  have v: "denotes Z ev (z3_bv_val Z n 1) (BVSort 1) (\<lambda>_. ZBV 1 (n mod 2))" for n using z3_lawsD(3) [OF L, of 1 n] by simp
  obtain e' where e': "z3_ternary Z Z3_ite e (z3_bv_val Z 1 1) (z3_bv_val Z 0 1) = Some e'"
      "denotes Z ev e' (BVSort 1) (\<lambda>\<alpha>. if ev \<alpha> e = ZBool True then ev \<alpha> (z3_bv_val Z 1 1) else ev \<alpha> (z3_bv_val Z 0 1))"
    using z3_lawsD(10) [OF L b(1), of "z3_bv_val Z 1 1" "z3_bv_val Z 0 1"] v [unfolded denotes_def] by auto
  have "znum (ev \<alpha> e') = znum (ev \<alpha> e)" if "sorted_assignment \<alpha>" for \<alpha>
    using e'(2) v [of 0] v [of 1] that z3_lawsD(1) [OF L that, of e] b by (cases "ev \<alpha> e") (auto simp: denotes_def)
  then show thesis using that [of e'] True b e' by (simp add: normalize_to_bv_def bool_to_bv_def denotes_def)
qed

lemma normalize_bool:
  assumes L: "z3_laws S Z ev" and e: "int_term Z w e"
  obtains e' where "normalize_to_bool Z e = Some e'" "get_sort Z e' = (if w = 1 then BoolSort else BVSort w)"
    "\<And>\<alpha>. sorted_assignment \<alpha> \<Longrightarrow> znum (ev \<alpha> e') = znum (ev \<alpha> e)"
proof (cases "get_sort Z e = BVSort 1")
  case False
  then show thesis using that [of e] e by (auto simp: normalize_to_bool_def is_bv_def bv_size_def split: z3_sort.splits)
next
  case True
  have v: "denotes Z ev (z3_bv_val Z 1 1) (BVSort 1) (\<lambda>_. ZBV 1 1)" using z3_lawsD(3) [OF L, of 1 1] by simp
  obtain e' where e': "z3_binary Z Z3_eq e (z3_bv_val Z 1 1) = Some e'"
      "denotes Z ev e' BoolSort (\<lambda>\<alpha>. ZBool (znum (ev \<alpha> e) = znum (ev \<alpha> (z3_bv_val Z 1 1))))"
    using z3_lawsD(6) [OF L, of Z3_eq _ e 1 "z3_bv_val Z 1 1"] True v [unfolded denotes_def] by auto
  have "znum (ev \<alpha> e') = znum (ev \<alpha> e)" if "sorted_assignment \<alpha>" for \<alpha>
    using e'(2) v that znum_sort(1) [OF L that True] by (auto simp: denotes_def less_2_cases_iff)
  then show thesis using that [of e'] True e e' by (simp add: normalize_to_bool_def bv_to_bool_def is_bv_def bv_size_def denotes_def)
qed

section \<open>The state of the visitor\<close>

text \<open>
  \<open>z3_agrees st X E \<alpha>\<close>: the assignment gives the constants of \<open>X\<close>, each of the type that \<open>st\<close> gives it, the
  values they have in the environment.
\<close>

definition z3_agrees :: "(symbol \<Rightarrow> ty) \<Rightarrow> symbol set \<Rightarrow> 'f senv \<Rightarrow> 'v assignment \<Rightarrow> bool" where
  "z3_agrees st X E \<alpha> \<longleftrightarrow>
     (\<forall>s\<in>X. \<forall>w n. st s = Type Integer w \<longrightarrow> 0 < w \<longrightarrow> w < 2 ^ 24 \<longrightarrow> name_to_symbol (op_name s) = Some n \<longrightarrow>
        sym_val E (st s) s = SInt w (znum (\<alpha> n (BVSort w))))"

definition translates :: "('i, 'f, 'z) ctx_scheme \<Rightarrow> ('e, 'i, 'y) z3_scheme \<Rightarrow> ('v assignment \<Rightarrow> 'e \<Rightarrow> 'v zval) \<Rightarrow>
    (symbol \<Rightarrow> ty) \<Rightarrow> symbol set \<Rightarrow> ('i, 'f) op \<Rightarrow> 'e \<Rightarrow> bool" where
  "translates S Z ev st X x e \<longleftrightarrow>
     (\<exists>w. op_type x = Type Integer w \<and> int_term Z w e)
   \<and> (\<forall>E \<alpha>. world_ok S E \<longrightarrow> sorted_assignment \<alpha> \<longrightarrow> z3_agrees st X E \<alpha> \<longrightarrow> znum (ev \<alpha> e) \<in> ivals S E x)"

text \<open>The symbols that have a constant.\<close>

definition known :: "'e z3_state \<Rightarrow> symbol set" where
  "known zs = {s. const_map zs (op_name s) \<noteq> None}"

definition z3_inv :: "('i, 'f, 'z) ctx_scheme \<Rightarrow> ('e, 'i, 'y) z3_scheme \<Rightarrow> ('v assignment \<Rightarrow> 'e \<Rightarrow> 'v zval) \<Rightarrow>
    (symbol \<Rightarrow> ty) \<Rightarrow> symbol set \<Rightarrow> ('i, 'f) op memory \<Rightarrow> 'e z3_state \<Rightarrow> bool" where
  "z3_inv S Z ev st X M zs \<longleftrightarrow>
     (\<forall>s e. const_map zs (op_name s) = Some e \<longrightarrow>
        (\<exists>t n. type_to_sort (st s) = Some t \<and> name_to_symbol (op_name s) = Some n \<and> e = z3_constant Z n t))
   \<and> (\<forall>a e. op_cache zs a = Some e \<longrightarrow> (\<exists>x. alive M x \<and> address M x = a \<and> translates S Z ev st X x e \<and> snd ` syms x \<subseteq> known zs))"

text \<open>What a visit of \<open>x\<close> promises.\<close>

definition visits :: "('i, 'f, 'z) ctx_scheme \<Rightarrow> ('e, 'i, 'y) z3_scheme \<Rightarrow> ('v assignment \<Rightarrow> 'e \<Rightarrow> 'v zval) \<Rightarrow>
    (symbol \<Rightarrow> ty) \<Rightarrow> symbol set \<Rightarrow> ('i, 'f) op memory \<Rightarrow> ('i, 'f, 'e) z3_visitor \<Rightarrow> ('i, 'f) op \<Rightarrow> bool" where
  "visits S Z ev st X M vis x \<longleftrightarrow>
     (\<forall>zs. z3_inv S Z ev st X M zs \<longrightarrow>
        (\<exists>e zs'. vis x zs = Some (e, zs') \<and> z3_inv S Z ev st X M zs' \<and> solver_terms zs' = solver_terms zs
           \<and> translates S Z ev st X x e \<and> known zs \<subseteq> known zs' \<and> snd ` syms x \<subseteq> known zs'))"

lemma visitsD:
  assumes "visits S Z ev st X M vis x" "z3_inv S Z ev st X M zs" "is_i S w x"
  obtains e zs' where "vis x zs = Some (e, zs')" "z3_inv S Z ev st X M zs'" "solver_terms zs' = solver_terms zs" "int_term Z w e"
    "\<And>E \<alpha>. world_ok S E \<Longrightarrow> sorted_assignment \<alpha> \<Longrightarrow> z3_agrees st X E \<alpha> \<Longrightarrow> znum (ev \<alpha> e) \<in> ivals S E x"
    "known zs \<subseteq> known zs'" "snd ` syms x \<subseteq> known zs'"
  using assms unfolding visits_def translates_def is_i_def by (metis ty.inject)

lemma visits_cong: "visits S Z ev st X M f x \<Longrightarrow> g x = f x \<Longrightarrow> visits S Z ev st X M g x"
  by (simp add: visits_def)

lemma translatesI:
  assumes "is_i S w x" "int_term Z w e"
    and "\<And>E \<alpha>. world_ok S E \<Longrightarrow> sorted_assignment \<alpha> \<Longrightarrow> z3_agrees st X E \<alpha> \<Longrightarrow> znum (ev \<alpha> e) \<in> ivals S E x"
  shows "translates S Z ev st X x e"
  using assms by (auto simp: translates_def is_i_def)

section \<open>Nodes\<close>

lemma syms_int_node [simp]: "syms (int_node c w ops) = \<Union> (syms ` set ops)"
  by (simp add: int_node_def symbol_of_def)

lemma operand_at_node [simp]: "i < length ops \<Longrightarrow> operand_at (int_node c w ops) i = Some (ops ! i)"
  by (simp add: operand_at_def num_operands_def)

text \<open>Nodes whose two operands become bit vectors.\<close>

lemma binop_visits:
  assumes L: "z3_laws S Z ev" and x: "x = int_node c n [l, r]" "is_i S w l" "is_i S w r" "is_i S n x"
    and vis: "visits S Z ev st X M vis l" "visits S Z ev st X M vis r"
    and f: "\<And>a b. get_sort Z a = BVSort w \<Longrightarrow> get_sort Z b = BVSort w \<Longrightarrow>
      \<exists>e. z3_binary Z f a b = Some e \<and> int_term Z n e \<and> (\<forall>\<alpha>. sorted_assignment \<alpha> \<longrightarrow> znum (ev \<alpha> e) = h (znum (ev \<alpha> a)) (znum (ev \<alpha> b)))"
    and h: "\<And>E a b. world_ok S E \<Longrightarrow> a \<in> ivals S E l \<Longrightarrow> b \<in> ivals S E r \<Longrightarrow> h a b \<in> ivals S E x"
  shows "visits S Z ev st X M (z3_binop Z f vis) x"
  unfolding visits_def
proof (intro allI impI)
  fix zs assume inv: "z3_inv S Z ev st X M zs"
  obtain le z1 where 1: "vis l zs = Some (le, z1)" "z3_inv S Z ev st X M z1" "solver_terms z1 = solver_terms zs" "int_term Z w le"
    "\<And>E \<alpha>. world_ok S E \<Longrightarrow> sorted_assignment \<alpha> \<Longrightarrow> z3_agrees st X E \<alpha> \<Longrightarrow> znum (ev \<alpha> le) \<in> ivals S E l"
    "known zs \<subseteq> known z1" "snd ` syms l \<subseteq> known z1"
    using visitsD [OF vis(1) inv x(2)] by metis
  obtain re z2 where 2: "vis r z1 = Some (re, z2)" "z3_inv S Z ev st X M z2" "solver_terms z2 = solver_terms z1" "int_term Z w re"
    "\<And>E \<alpha>. world_ok S E \<Longrightarrow> sorted_assignment \<alpha> \<Longrightarrow> z3_agrees st X E \<alpha> \<Longrightarrow> znum (ev \<alpha> re) \<in> ivals S E r"
    "known z1 \<subseteq> known z2" "snd ` syms r \<subseteq> known z2"
    using visitsD [OF vis(2) 1(2) x(3)] by metis
  obtain a where a: "normalize_to_bv Z le = Some a" "get_sort Z a = BVSort w" "\<And>\<alpha>. sorted_assignment \<alpha> \<Longrightarrow> znum (ev \<alpha> a) = znum (ev \<alpha> le)"
    using normalize_bv [OF L 1(4)] by metis
  obtain b where b: "normalize_to_bv Z re = Some b" "get_sort Z b = BVSort w" "\<And>\<alpha>. sorted_assignment \<alpha> \<Longrightarrow> znum (ev \<alpha> b) = znum (ev \<alpha> re)"
    using normalize_bv [OF L 2(4)] by metis
  obtain e where e: "z3_binary Z f a b = Some e" "int_term Z n e"
      "\<And>\<alpha>. sorted_assignment \<alpha> \<Longrightarrow> znum (ev \<alpha> e) = h (znum (ev \<alpha> a)) (znum (ev \<alpha> b))"
    using f [OF a(2) b(2)] by blast
  have "translates S Z ev st X x e"
    by (rule translatesI [OF x(4) e(2)]) (simp add: e(3) a(3) b(3) h 1(5) 2(5))
  moreover have "z3_binop Z f vis x zs = Some (e, z2)" using 1(1) 2(1) a(1) b(1) e(1) by (simp add: z3_binop_def x(1))
  ultimately show "\<exists>e zs'. z3_binop Z f vis x zs = Some (e, zs') \<and> z3_inv S Z ev st X M zs' \<and> solver_terms zs' = solver_terms zs
      \<and> translates S Z ev st X x e \<and> known zs \<subseteq> known zs' \<and> snd ` syms x \<subseteq> known zs'"
    using 1(3,6,7) 2(2,3,6,7) by (auto simp: x(1))
qed

fun arith_term :: "opcode \<Rightarrow> z3_bin option" where
  "arith_term Add = Some Z3_add" | "arith_term Sub = Some Z3_sub" | "arith_term Mul = Some Z3_mul"
| "arith_term UDiv = Some Z3_udiv" | "arith_term SDiv = Some Z3_div" | "arith_term URem = Some Z3_urem"
| "arith_term Xor = Some Z3_xor" | "arith_term Shl = Some Z3_shl" | "arith_term LShr = Some Z3_lshr" | "arith_term AShr = Some Z3_ashr"
| "arith_term _ = None"

lemma arith_term_sem:
  assumes "arith_term c = Some f" "a < 2 ^ w" "b < 2 ^ w" "0 < w"
  shows "c \<in> int_ops" "\<exists>g. bv_arith f = Some g \<and> g w a b \<in> int_sem c w a b"
  using assms
  by (cases c; auto simp: int_ops_def upto_pow_def bvsdiv_val_def sdiv_faults_def sdiv_val_def of_signed_def nat_less_iff)+

lemma arith_visits:
  assumes L: "z3_laws S Z ev" and c: "arith_term c = Some f" and x: "x = int_node c w [l, r]" "is_i S w l" "is_i S w r" "is_i S w x"
    and vis: "visits S Z ev st X M vis l" "visits S Z ev st X M vis r" and W: "world_ok S E0"
  shows "visits S Z ev st X M (z3_binop Z f vis) x"
proof -
  have w: "0 < w" by (rule ivalsD(1) [OF W x(2)])
  obtain g where g: "bv_arith f = Some g" using arith_term_sem(2) [OF c, of 0 w 0] w by auto
  show ?thesis
  proof (rule binop_visits [OF L x vis, where h = "g w"])
    show "\<exists>e. z3_binary Z f a b = Some e \<and> int_term Z w e \<and> (\<forall>\<alpha>. sorted_assignment \<alpha> \<longrightarrow> znum (ev \<alpha> e) = g w (znum (ev \<alpha> a)) (znum (ev \<alpha> b)))"
      if "get_sort Z a = BVSort w" "get_sort Z b = BVSort w" for a b
      using z3_lawsD(5) [OF L g that] by (auto simp: denotes_def)
    show "g w a b \<in> ivals S E x" if "world_ok S E" "a \<in> ivals S E l" "b \<in> ivals S E r" for E a b
    proof -
      have "a < 2 ^ w" "b < 2 ^ w" using ivalsD(4) [OF that(1)] x(2,3) that(2,3) by blast+
      then have "g w a b \<in> int_sem c w a b" "c \<in> int_ops" using arith_term_sem [OF c _ _ w] g by auto
      then show ?thesis using int_binop_node(2) [OF that(1) _ x(2,3)] x(1) that(2,3) by auto
    qed
  qed
qed

lemma icmp_term_sem: "bv_rel (icmp_term p) = Some (icmp_sem p)"
  by (cases p) (simp_all add: fun_eq_iff)

lemma icmp_visits:
  assumes L: "z3_laws S Z ev" and x: "x = int_node (ICmp p) 1 [l, r]" "is_i S w l" "is_i S w r" "is_i S 1 x"
    and vis: "visits S Z ev st X M vis l" "visits S Z ev st X M vis r"
  shows "visits S Z ev st X M (z3_binop Z (icmp_term p) vis) x"
proof (rule binop_visits [OF L x vis, where h = "\<lambda>a b. truth (icmp_sem p w a b)"])
  show "\<exists>e. z3_binary Z (icmp_term p) a b = Some e \<and> int_term Z 1 e \<and> (\<forall>\<alpha>. sorted_assignment \<alpha> \<longrightarrow> znum (ev \<alpha> e) = truth (icmp_sem p w (znum (ev \<alpha> a)) (znum (ev \<alpha> b))))"
    if "get_sort Z a = BVSort w" "get_sort Z b = BVSort w" for a b
    using z3_lawsD(6) [OF L icmp_term_sem that, of p] by (auto simp: denotes_def truth_def)
qed (use icmp_node(2) x in blast)

text \<open>Conjunction and disjunction, on booleans or on bit vectors.\<close>

lemma logic_visits:
  assumes L: "z3_laws S Z ev" and x: "x = int_node c w [l, r]" "is_i S w l" "is_i S w r" "is_i S w x"
    and vis: "visits S Z ev st X M vis l" "visits S Z ev st X M vis r"
    and f: "bool_logic logical = Some q" "bv_arith bitwise = Some g" "c \<in> int_ops" "\<And>a b. int_sem c w a b = {g w a b}"
      "\<And>p p'. g 1 (if p then 1 else 0) (if p' then 1 else 0) = (if q p p' then 1 else (0 :: nat))"
  shows "visits S Z ev st X M (z3_logic Z logical bitwise vis) x"
  unfolding visits_def
proof (intro allI impI)
  fix zs assume inv: "z3_inv S Z ev st X M zs"
  let ?t = "if w = 1 then BoolSort else BVSort w"
  obtain le z1 where 1: "vis l zs = Some (le, z1)" "z3_inv S Z ev st X M z1" "solver_terms z1 = solver_terms zs" "int_term Z w le"
    "\<And>E \<alpha>. world_ok S E \<Longrightarrow> sorted_assignment \<alpha> \<Longrightarrow> z3_agrees st X E \<alpha> \<Longrightarrow> znum (ev \<alpha> le) \<in> ivals S E l"
    "known zs \<subseteq> known z1" "snd ` syms l \<subseteq> known z1"
    using visitsD [OF vis(1) inv x(2)] by metis
  obtain re z2 where 2: "vis r z1 = Some (re, z2)" "z3_inv S Z ev st X M z2" "solver_terms z2 = solver_terms z1" "int_term Z w re"
    "\<And>E \<alpha>. world_ok S E \<Longrightarrow> sorted_assignment \<alpha> \<Longrightarrow> z3_agrees st X E \<alpha> \<Longrightarrow> znum (ev \<alpha> re) \<in> ivals S E r"
    "known z1 \<subseteq> known z2" "snd ` syms r \<subseteq> known z2"
    using visitsD [OF vis(2) 1(2) x(3)] by metis
  obtain a where a: "normalize_to_bool Z le = Some a" "get_sort Z a = ?t" "\<And>\<alpha>. sorted_assignment \<alpha> \<Longrightarrow> znum (ev \<alpha> a) = znum (ev \<alpha> le)"
    using normalize_bool [OF L 1(4)] by metis
  obtain b where b: "normalize_to_bool Z re = Some b" "get_sort Z b = ?t" "\<And>\<alpha>. sorted_assignment \<alpha> \<Longrightarrow> znum (ev \<alpha> b) = znum (ev \<alpha> re)"
    using normalize_bool [OF L 2(4)] by metis
  have "\<exists>e. z3_binary Z (if is_bool Z a then logical else bitwise) a b = Some e \<and> int_term Z w e
      \<and> (\<forall>\<alpha>. sorted_assignment \<alpha> \<longrightarrow> znum (ev \<alpha> e) = g w (znum (ev \<alpha> a)) (znum (ev \<alpha> b)))"
  proof (cases "w = 1")
    case True
    then have t: "get_sort Z a = BoolSort" "get_sort Z b = BoolSort" using a(2) b(2) by simp_all
    obtain e where e: "z3_binary Z logical a b = Some e" "denotes Z ev e BoolSort (\<lambda>\<alpha>. ZBool (q (ev \<alpha> a = ZBool True) (ev \<alpha> b = ZBool True)))"
      using z3_lawsD(7) [OF L f(1) t] by blast
    have "znum (ev \<alpha> e) = g w (znum (ev \<alpha> a)) (znum (ev \<alpha> b))" if \<alpha>: "sorted_assignment \<alpha>" for \<alpha>
    proof -
      obtain p p' where "ev \<alpha> a = ZBool p" "ev \<alpha> b = ZBool p'" using znum_sort(2) [OF L \<alpha>] t by metis
      then show ?thesis using e(2) \<alpha> f(5) [of p p'] True by (simp add: denotes_def)
    qed
    then show ?thesis using e t True by (auto simp: is_bool_def denotes_def)
  next
    case False
    then show ?thesis using z3_lawsD(5) [OF L f(2), of a w b] a(2) b(2) by (auto simp: is_bool_def denotes_def)
  qed
  then obtain e where e: "z3_binary Z (if is_bool Z a then logical else bitwise) a b = Some e" "int_term Z w e"
      "\<And>\<alpha>. sorted_assignment \<alpha> \<Longrightarrow> znum (ev \<alpha> e) = g w (znum (ev \<alpha> a)) (znum (ev \<alpha> b))" by blast
  have "g w a b \<in> ivals S E x" if "world_ok S E" "a \<in> ivals S E l" "b \<in> ivals S E r" for E a b
    using int_binop_node(2) [OF that(1) f(3) x(2,3)] that(2,3) by (auto simp: x(1) f(4))
  then have "translates S Z ev st X x e"
    by (intro translatesI [OF x(4) e(2)]) (simp add: e(3) a(3) b(3) 1(5) 2(5))
  moreover have "z3_logic Z logical bitwise vis x zs = Some (e, z2)" using 1(1) 2(1) a(1) b(1) e(1) by (simp add: z3_logic_def x(1))
  ultimately show "\<exists>e zs'. z3_logic Z logical bitwise vis x zs = Some (e, zs') \<and> z3_inv S Z ev st X M zs' \<and> solver_terms zs' = solver_terms zs
      \<and> translates S Z ev st X x e \<and> known zs \<subseteq> known zs' \<and> snd ` syms x \<subseteq> known zs'"
    using 1(3,6,7) 2(2,3,6,7) by (auto simp: x(1))
qed

text \<open>Nodes of one operand.\<close>

lemma not_visits:
  assumes L: "z3_laws S Z ev" and x: "x = int_node Not w [a]" "is_i S w a" "is_i S w x"
    and vis: "visits S Z ev st X M vis a"
  shows "visits S Z ev st X M (z3Not Z vis) x"
  unfolding visits_def
proof (intro allI impI)
  fix zs assume inv: "z3_inv S Z ev st X M zs"
  obtain ae z1 where 1: "vis a zs = Some (ae, z1)" "z3_inv S Z ev st X M z1" "solver_terms z1 = solver_terms zs" "int_term Z w ae"
    "\<And>E \<alpha>. world_ok S E \<Longrightarrow> sorted_assignment \<alpha> \<Longrightarrow> z3_agrees st X E \<alpha> \<Longrightarrow> znum (ev \<alpha> ae) \<in> ivals S E a"
    "known zs \<subseteq> known z1" "snd ` syms a \<subseteq> known z1"
    using visitsD [OF vis inv x(2)] by metis
  obtain b where b: "normalize_to_bool Z ae = Some b" "get_sort Z b = (if w = 1 then BoolSort else BVSort w)"
      "\<And>\<alpha>. sorted_assignment \<alpha> \<Longrightarrow> znum (ev \<alpha> b) = znum (ev \<alpha> ae)"
    using normalize_bool [OF L 1(4)] by metis
  have "\<exists>e. z3_unary Z (if is_bool Z b then Z3_lnot else Z3_bnot) b = Some e \<and> int_term Z w e
      \<and> (\<forall>\<alpha>. sorted_assignment \<alpha> \<longrightarrow> znum (ev \<alpha> e) = 2 ^ w - 1 - znum (ev \<alpha> b))"
  proof (cases "w = 1")
    case True
    then have t: "get_sort Z b = BoolSort" using b(2) by simp
    obtain e where e: "z3_unary Z Z3_lnot b = Some e" "denotes Z ev e BoolSort (\<lambda>\<alpha>. ZBool (ev \<alpha> b \<noteq> ZBool True))"
      using z3_lawsD(9) [OF L t] by blast
    have "znum (ev \<alpha> e) = 2 ^ w - 1 - znum (ev \<alpha> b)" if \<alpha>: "sorted_assignment \<alpha>" for \<alpha>
      using e(2) \<alpha> z3_lawsD(1) [OF L \<alpha>, of b] t True by (cases "ev \<alpha> b") (auto simp: denotes_def)
    then show ?thesis using e t True by (auto simp: is_bool_def denotes_def)
  next
    case False
    then show ?thesis using z3_lawsD(8) [OF L, of Z3_bnot w _ _ b] b(2) by (auto simp: is_bool_def denotes_def)
  qed
  then obtain e where e: "z3_unary Z (if is_bool Z b then Z3_lnot else Z3_bnot) b = Some e" "int_term Z w e"
      "\<And>\<alpha>. sorted_assignment \<alpha> \<Longrightarrow> znum (ev \<alpha> e) = 2 ^ w - 1 - znum (ev \<alpha> b)" by blast
  have "widths_ok Not w w" by (simp add: widths_ok_def)
  then have "2 ^ w - 1 - k \<in> ivals S E x" if "world_ok S E" "k \<in> ivals S E a" for E k
    using unary_node(2) [OF that(1) x(2)] that(2) by (simp add: x(1))
  then have "translates S Z ev st X x e"
    by (intro translatesI [OF x(3) e(2)]) (simp add: e(3) b(3) 1(5))
  moreover have "z3Not Z vis x zs = Some (e, z1)" using 1(1) b(1) e(1) by (simp add: z3Not_def x(1))
  ultimately show "\<exists>e zs'. z3Not Z vis x zs = Some (e, zs') \<and> z3_inv S Z ev st X M zs' \<and> solver_terms zs' = solver_terms zs
      \<and> translates S Z ev st X x e \<and> known zs \<subseteq> known zs' \<and> snd ` syms x \<subseteq> known zs'"
    using 1(2,3,6,7) by (auto simp: x(1))
qed

lemma usub_diff:
  assumes "b \<le> a" "a < 2 ^ 32"
  shows "usub a b = a - b"
proof -
  have "usub a b = ((a - b) + 2 ^ 32) mod 2 ^ 32" unfolding usub_def using assms by (intro arg_cong [where f = "\<lambda>n. n mod 2 ^ 32"]) simp
  also have "\<dots> = (a - b) mod 2 ^ 32" by (rule mod_add_self2)
  finally show ?thesis using assms by simp
qed

lemma cast_visits:
  assumes L: "z3_laws S Z ev" and x: "x = int_node c n [a]" "is_i S w a" "widths_ok c w n" "is_i S n x"
    and vis: "visits S Z ev st X M vis a"
    and f: "\<And>e. get_sort Z e = BVSort w \<Longrightarrow> f e = Some u" "bv_un u w = Some (n, unary_sem c w n)"
  shows "visits S Z ev st X M (z3_bv_unop Z f vis) x"
  unfolding visits_def
proof (intro allI impI)
  fix zs assume inv: "z3_inv S Z ev st X M zs"
  obtain ae z1 where 1: "vis a zs = Some (ae, z1)" "z3_inv S Z ev st X M z1" "solver_terms z1 = solver_terms zs" "int_term Z w ae"
    "\<And>E \<alpha>. world_ok S E \<Longrightarrow> sorted_assignment \<alpha> \<Longrightarrow> z3_agrees st X E \<alpha> \<Longrightarrow> znum (ev \<alpha> ae) \<in> ivals S E a"
    "known zs \<subseteq> known z1" "snd ` syms a \<subseteq> known z1"
    using visitsD [OF vis inv x(2)] by metis
  obtain b where b: "normalize_to_bv Z ae = Some b" "get_sort Z b = BVSort w" "\<And>\<alpha>. sorted_assignment \<alpha> \<Longrightarrow> znum (ev \<alpha> b) = znum (ev \<alpha> ae)"
    using normalize_bv [OF L 1(4)] by metis
  obtain e where e: "z3_unary Z u b = Some e" "denotes Z ev e (BVSort n) (\<lambda>\<alpha>. ZBV n (unary_sem c w n (znum (ev \<alpha> b))))"
    using z3_lawsD(8) [OF L f(2) b(2)] by blast
  have "unary_sem c w n k \<in> ivals S E x" if "world_ok S E" "k \<in> ivals S E a" for E k
    using unary_node(2) [OF that(1) x(2,3)] that(2) by (simp add: x(1))
  then have "translates S Z ev st X x e"
    using e(2) by (intro translatesI [OF x(4)]) (simp_all add: denotes_def b(3) 1(5))
  moreover have "z3_bv_unop Z f vis x zs = Some (e, z1)" using 1(1) b(1) e(1) f(1) [OF b(2)] by (simp add: z3_bv_unop_def x(1))
  ultimately show "\<exists>e zs'. z3_bv_unop Z f vis x zs = Some (e, zs') \<and> z3_inv S Z ev st X M zs' \<and> solver_terms zs' = solver_terms zs
      \<and> translates S Z ev st X x e \<and> known zs \<subseteq> known zs' \<and> snd ` syms x \<subseteq> known zs'"
    using 1(2,3,6,7) by (auto simp: x(1))
qed

lemma trunc_extend_visits:
  assumes W: "world_ok S E0" and L: "z3_laws S Z ev" and x: "x = int_node c n [a]" "is_i S w a" "widths_ok c w n" "is_i S n x"
    and vis: "visits S Z ev st X M vis a"
  shows "c = Trunc \<Longrightarrow> visits S Z ev st X M (z3Trunc Z vis) x"
    and "c = ZExt \<Longrightarrow> visits S Z ev st X M (z3ZExt Z vis) x"
    and "c = SExt \<Longrightarrow> visits S Z ev st X M (z3SExt Z vis) x"
proof -
  have w: "0 < n" "n < 2 ^ 24" "0 < w" "w < 2 ^ 24" using ivalsD(1,2) [OF W x(4)] ivalsD(1,2) [OF W x(2)] by auto
  have bw: "bitwidth (op_type x) = Some n" using x(1) by (simp add: bitwidth_int)
  show "visits S Z ev st X M (z3Trunc Z vis) x" if c: "c = Trunc"
  proof (rule visits_cong [OF cast_visits [OF L x vis, where f = "\<lambda>_. Some (Z3_extract (n - 1) 0)"]])
    have u: "usub n 1 = n - 1" using w by (intro usub_diff) auto
    show "z3Trunc Z vis x = z3_bv_unop Z (\<lambda>_. Some (Z3_extract (n - 1) 0)) vis x" using bw u by (simp add: z3Trunc_def)
    show "bv_un (Z3_extract (n - 1) 0) w = Some (n, unary_sem c w n)" using w c x(3) by (auto simp: widths_ok_def fun_eq_iff)
  qed simp
  have up: "w \<le> n \<Longrightarrow> usub n w = n - w" using w by (intro usub_diff) auto
  have sz: "do { m \<leftarrow> bitwidth (op_type x); k \<leftarrow> bv_size Z e; Some (h (usub m k)) } = Some (h (n - w))"
    if "get_sort Z e = BVSort w" "w \<le> n" for e and h :: "nat \<Rightarrow> z3_un"
    using bw up that by (simp add: bv_size_def)
  show "visits S Z ev st X M (z3ZExt Z vis) x" if c: "c = ZExt"
  proof (rule visits_cong [OF cast_visits [OF L x vis]])
    show "do { m \<leftarrow> bitwidth (op_type x); k \<leftarrow> bv_size Z e; Some (Z3_zext (usub m k)) } = Some (Z3_zext (n - w))"
      if "get_sort Z e = BVSort w" for e using sz [OF that, of Z3_zext] c x(3) by (simp add: widths_ok_def)
    show "bv_un (Z3_zext (n - w)) w = Some (n, unary_sem c w n)" using c x(3) by (auto simp: widths_ok_def fun_eq_iff)
  qed (simp add: z3ZExt_def)
  show "visits S Z ev st X M (z3SExt Z vis) x" if c: "c = SExt"
  proof (rule visits_cong [OF cast_visits [OF L x vis]])
    show "do { m \<leftarrow> bitwidth (op_type x); k \<leftarrow> bv_size Z e; Some (Z3_sext (usub m k)) } = Some (Z3_sext (n - w))"
      if "get_sort Z e = BVSort w" for e using sz [OF that, of Z3_sext] c x(3) by (simp add: widths_ok_def)
    show "bv_un (Z3_sext (n - w)) w = Some (n, unary_sem c w n)" using c x(3) by (auto simp: widths_ok_def fun_eq_iff)
  qed (simp add: z3SExt_def)
qed

lemma select_visits:
  assumes L: "z3_laws S Z ev" and x: "x = Operation (OperationData Select t) [c, u, v]" "is_i S 1 c" "is_i S w u" "is_i S w v" "is_i S w x"
    and vis: "visits S Z ev st X M vis c" "visits S Z ev st X M vis u" "visits S Z ev st X M vis v"
  shows "visits S Z ev st X M (z3Select Z vis) x"
  unfolding visits_def
proof (intro allI impI)
  fix zs assume inv: "z3_inv S Z ev st X M zs"
  obtain ce z1 where 1: "vis c zs = Some (ce, z1)" "z3_inv S Z ev st X M z1" "solver_terms z1 = solver_terms zs" "int_term Z 1 ce"
    "\<And>E \<alpha>. world_ok S E \<Longrightarrow> sorted_assignment \<alpha> \<Longrightarrow> z3_agrees st X E \<alpha> \<Longrightarrow> znum (ev \<alpha> ce) \<in> ivals S E c"
    "known zs \<subseteq> known z1" "snd ` syms c \<subseteq> known z1"
    using visitsD [OF vis(1) inv x(2)] by metis
  obtain ue z2 where 2: "vis u z1 = Some (ue, z2)" "z3_inv S Z ev st X M z2" "solver_terms z2 = solver_terms z1" "int_term Z w ue"
    "\<And>E \<alpha>. world_ok S E \<Longrightarrow> sorted_assignment \<alpha> \<Longrightarrow> z3_agrees st X E \<alpha> \<Longrightarrow> znum (ev \<alpha> ue) \<in> ivals S E u"
    "known z1 \<subseteq> known z2" "snd ` syms u \<subseteq> known z2"
    using visitsD [OF vis(2) 1(2) x(3)] by metis
  obtain ve z3 where 3: "vis v z2 = Some (ve, z3)" "z3_inv S Z ev st X M z3" "solver_terms z3 = solver_terms z2" "int_term Z w ve"
    "\<And>E \<alpha>. world_ok S E \<Longrightarrow> sorted_assignment \<alpha> \<Longrightarrow> z3_agrees st X E \<alpha> \<Longrightarrow> znum (ev \<alpha> ve) \<in> ivals S E v"
    "known z2 \<subseteq> known z3" "snd ` syms v \<subseteq> known z3"
    using visitsD [OF vis(3) 2(2) x(4)] by metis
  obtain cb where cb: "normalize_to_bool Z ce = Some cb" "get_sort Z cb = BoolSort" "\<And>\<alpha>. sorted_assignment \<alpha> \<Longrightarrow> znum (ev \<alpha> cb) = znum (ev \<alpha> ce)"
    using normalize_bool [OF L 1(4)] by metis
  obtain a where a: "normalize_to_bv Z ue = Some a" "get_sort Z a = BVSort w" "\<And>\<alpha>. sorted_assignment \<alpha> \<Longrightarrow> znum (ev \<alpha> a) = znum (ev \<alpha> ue)"
    using normalize_bv [OF L 2(4)] by metis
  obtain b where b: "normalize_to_bv Z ve = Some b" "get_sort Z b = BVSort w" "\<And>\<alpha>. sorted_assignment \<alpha> \<Longrightarrow> znum (ev \<alpha> b) = znum (ev \<alpha> ve)"
    using normalize_bv [OF L 3(4)] by metis
  obtain e where e: "z3_ternary Z Z3_ite cb a b = Some e" "denotes Z ev e (BVSort w) (\<lambda>\<alpha>. if ev \<alpha> cb = ZBool True then ev \<alpha> a else ev \<alpha> b)"
    using z3_lawsD(10) [OF L cb(2), of a b] a(2) b(2) by auto
  have "translates S Z ev st X x e"
  proof (rule translatesI [OF x(5)])
    show "int_term Z w e" using e(2) by (simp add: denotes_def)
    have sel: "n \<in> ivals S E x" if "1 \<in> ivals S E c \<and> n \<in> ivals S E u \<or> 0 \<in> ivals S E c \<and> n \<in> ivals S E v" for n E
      using that x(2-5) by (auto simp: x(1) ivals_def is_i_def op_type_def)
    show "znum (ev \<alpha> e) \<in> ivals S E x" if A: "world_ok S E" "sorted_assignment \<alpha>" "z3_agrees st X E \<alpha>" for E \<alpha>
    proof (cases "znum (ev \<alpha> cb) = 1")
      case True
      then have "znum (ev \<alpha> e) = znum (ev \<alpha> ue)" using e(2) A(2) znum_sort(2) [OF L A(2) cb(2)] a(3) by (simp add: denotes_def)
      then show ?thesis using sel 1(5) [OF A] 2(5) [OF A] True cb(3) [OF A(2)] by simp
    next
      case False
      then have "znum (ev \<alpha> cb) = 0" using znum_sort(2) [OF L A(2) cb(2)] by auto
      moreover have "znum (ev \<alpha> e) = znum (ev \<alpha> ve)" using False e(2) A(2) znum_sort(2) [OF L A(2) cb(2)] b(3) by (auto simp: denotes_def)
      ultimately show ?thesis using sel 1(5) [OF A] 3(5) [OF A] cb(3) [OF A(2)] by simp
    qed
  qed
  moreover have k: "known zs \<subseteq> known z3" "snd ` syms x \<subseteq> known z3"
    using 1(6,7) 2(6,7) 3(6,7) by (simp_all add: x(1) symbol_of_def image_Un) blast+
  moreover have "z3Select Z vis x zs = Some (e, z3)"
    using 1(1) 2(1) 3(1) cb(1) a(1) b(1) e(1) by (simp add: z3Select_def x(1) operand_at_def num_operands_def numeral_2_eq_2 One_nat_def)
  ultimately show "\<exists>e zs'. z3Select Z vis x zs = Some (e, zs') \<and> z3_inv S Z ev st X M zs' \<and> solver_terms zs' = solver_terms zs
      \<and> translates S Z ev st X x e \<and> known zs \<subseteq> known zs' \<and> snd ` syms x \<subseteq> known zs'"
    using 1(3) 2(3) 3(2,3) by auto
qed

section \<open>Leaves\<close>

lemma op_name_inject [simp]: "op_name s = op_name s' \<longleftrightarrow> s = s'"
  by (auto simp: op_name_def split: symbol.splits)

lemma constant_visits:
  assumes L: "z3_laws S Z ev" and x: "x = Operation (ConstantData c t s) []" "is_i S w x" "t = st s" "s \<in> X"
    and n: "name_to_symbol (op_name s) = Some n"
  shows "visits S Z ev st X M (z3Constant Z) x"
  unfolding visits_def
proof (intro allI impI)
  fix zs assume inv: "z3_inv S Z ev st X M zs"
  have t: "t = Type Integer w" using x(1,2) by (simp add: is_i_def op_type_def)
  then have so: "type_to_sort (op_type x) = Some (BVSort w)" using x(1) by (simp add: type_to_sort_def op_type_def bitwidth_int)
  let ?e = "z3_constant Z n (BVSort w)"
  have d: "denotes Z ev ?e (BVSort w) (\<lambda>\<alpha>. \<alpha> n (BVSort w))" by (rule z3_lawsD(2) [OF L])
  have "translates S Z ev st X x ?e"
  proof (rule translatesI [OF x(2)])
    show "znum (ev \<alpha> ?e) \<in> ivals S E x" if A: "world_ok S E" "sorted_assignment \<alpha>" "z3_agrees st X E \<alpha>" for E \<alpha>
    proof -
      have "sym_val E t s = SInt w (znum (\<alpha> n (BVSort w)))" using A(3) x(3,4) t n ivalsD(1,2) [OF A(1) x(2)] unfolding z3_agrees_def by metis
      then show ?thesis using d A(2) x(1) t by (simp add: denotes_def ivals_def op_type_def)
    qed
  qed (use d in \<open>simp add: denotes_def\<close>)
  moreover have "\<exists>zs'. z3Constant Z x zs = Some (?e, zs') \<and> z3_inv S Z ev st X M zs' \<and> solver_terms zs' = solver_terms zs
      \<and> known zs \<subseteq> known zs' \<and> snd ` syms x \<subseteq> known zs'"
  proof (cases "const_map zs (op_name s)")
    case None
    have "z3_inv S Z ev st X M (zs\<lparr>const_map := (const_map zs)(op_name s \<mapsto> ?e)\<rparr>)"
      using inv so n x(1,3) by (fastforce simp: z3_inv_def op_type_def known_def)
    then show ?thesis using None so n x(1) by (auto simp: z3Constant_def op_symbol_def Let_def known_def symbol_of_def)
  next
    case (Some e)
    then obtain t' n' where "type_to_sort (st s) = Some t'" "name_to_symbol (op_name s) = Some n'" "e = z3_constant Z n' t'"
      using inv unfolding z3_inv_def by blast
    then have "e = ?e" using so n x(1,3) by (simp add: op_type_def)
    then show ?thesis using Some x(1) inv by (simp add: z3Constant_def op_symbol_def known_def symbol_of_def)
  qed
  ultimately show "\<exists>e zs'. z3Constant Z x zs = Some (e, zs') \<and> z3_inv S Z ev st X M zs' \<and> solver_terms zs' = solver_terms zs
      \<and> translates S Z ev st X x e \<and> known zs \<subseteq> known zs' \<and> snd ` syms x \<subseteq> known zs'" by blast
qed

lemma literal_visits:
  assumes W: "world_ok S E0" and L: "z3_laws S Z ev" and x: "is_i S w x" "as_const_int x = Some i"
  shows "visits S Z ev st X M (z3ConstantInt S Z) x"
proof -
  note c = as_const_int_wt [OF W x]
  have v: "ap_limited S i size_max = ap_val S i" if "ap_width S i \<le> 64"
  proof -
    have "ap_val S i < 2 ^ 64" using c(2,6) that by (meson less_le_trans one_le_numeral power_increasing)
    then show ?thesis by (simp add: apint_lawsD [OF world_okD(3) [OF W]] size_max_def)
  qed
  let ?e = "if ap_width S i \<le> 64 then z3_bv_val Z (ap_limited S i size_max) (ap_width S i)
           else z3_bv_string Z (ap_decimal Z i) (ap_width S i)"
  have "denotes Z ev ?e (BVSort w) (\<lambda>_. ZBV w (ap_val S i))"
    using z3_lawsD(3) [OF L c(4), of "ap_val S i"] z3_lawsD(4) [OF L, of i] c(2,4,6) v by auto
  then have "translates S Z ev st X x ?e"
    using as_const_int_wt(3) [OF _ x] by (intro translatesI [OF x(1)]) (simp_all add: denotes_def)
  moreover have "syms x = {}" by (subst c(1)) (simp add: const_node_def symbol_of_def)
  ultimately show ?thesis using x(2) by (simp add: visits_def z3ConstantInt_def)
qed

lemma undef_visits:
  assumes W: "world_ok S E0" and L: "z3_laws S Z ev" and x: "is_i S w x" "is_undef x"
  shows "visits S Z ev st X M (z3Undef Z) x"
proof -
  have w: "0 < w" "w < 2 ^ 24" by (rule ivalsD [OF W x(1)])+
  have d: "denotes Z ev (z3_bv_val Z 0 w) (BVSort w) (\<lambda>_. ZBV w 0)" using z3_lawsD(3) [OF L w(1), of 0] by simp
  have t: "op_type x = Type Integer w" "wt S x" using x(1) by (simp_all add: is_i_def)
  then have n: "x = Operation (OperationData Undef (Type Integer w)) []" using wt_undef(1) [OF t(2) x(2)] by (simp add: undef_node_def)
  then have "0 \<in> ivals S E x" for E using w by (simp add: ivals_def op_type_def)
  then have "translates S Z ev st X x (z3_bv_val Z 0 w)"
    using d by (intro translatesI [OF x(1)]) (simp_all add: denotes_def)
  then show ?thesis using t(1) n by (simp add: visits_def z3Undef_def is_int_def bitwidth_int symbol_of_def)
qed

section \<open>The dispatch\<close>

definition z3_expr :: "('i, 'f, 'z) ctx_scheme \<Rightarrow> (symbol \<Rightarrow> ty) \<Rightarrow> symbol set \<Rightarrow> ('i, 'f) op \<Rightarrow> bool" where
  "z3_expr S st X x \<longleftrightarrow> wt S x \<and> all_nodes (scalar_node True) x \<and> (\<forall>(t, s)\<in>syms x. t = st s \<and> s \<in> X)"

lemma z3_expr_operands: "z3_expr S st X (Operation d ops) \<Longrightarrow> y \<in> set ops \<Longrightarrow> z3_expr S st X y"
  by (auto simp: z3_expr_def list_all_iff)

lemma z3_opcodes:
  assumes "wt S x" "op_type x = Type Integer w" "all_nodes (scalar_node True) x"
  shows "op_opcode x \<in> {ConstantNamed, ConstantNumbered, ConstantInt, Undef, And, Or, Not, Trunc, ZExt, SExt, Select}
    \<or> (\<exists>p. op_opcode x = ICmp p) \<or> arith_term (op_opcode x) \<noteq> None"
proof -
  obtain d ops where x: "x = Operation d ops" by (cases x)
  have "scalar_node True d (map op_type ops)" "wt_node S d (map op_type ops)" "data_type d = Type Integer w"
    using assms by (simp_all add: x op_type_def)
  then show ?thesis
    by (cases d; cases "data_opcode d";
        auto simp: x op_opcode_def scalar_node_def wt_operation_def is_float_def float_ops_def conv_ops_def type_of_apfloat_def float_ty_eq_Some
          int_ops_def split: prod.splits)
qed

lemma dispatch_visits:
  assumes W: "world_ok S E0" and L: "z3_laws S Z ev" and X: "\<And>s. s \<in> X \<Longrightarrow> name_to_symbol (op_name s) \<noteq> None"
    and x: "is_i S w x" "z3_expr S st X x"
    and ops: "\<And>y n. y \<in> set (operands x) \<Longrightarrow> is_i S n y \<Longrightarrow> visits S Z ev st X M vis y"
  shows "visits S Z ev st X M (z3_dispatch S Z vis) x"
proof -
  have wt: "wt S x" "op_type x = Type Integer w" "all_nodes (scalar_node True) x" using x by (simp_all add: is_i_def z3_expr_def)
  consider (con) "op_opcode x \<in> {ConstantNamed, ConstantNumbered}" | (lit) "op_opcode x = ConstantInt" | (und) "op_opcode x = Undef"
    | (log) "op_opcode x \<in> {And, Or}" | (un) "op_opcode x \<in> {Not, Trunc, ZExt, SExt}" | (sel) "op_opcode x = Select"
    | (cmp) p where "op_opcode x = ICmp p" | (bin) f where "arith_term (op_opcode x) = Some f"
    using z3_opcodes [OF wt] by auto
  then show ?thesis
  proof cases
    case con
    then obtain c t s where n: "x = Operation (ConstantData c t s) []" "c \<in> {ConstantNamed, ConstantNumbered}"
      using wt(1) by (cases x; cases "op_data x") (auto simp: op_opcode_def wt_operation_def int_ops_def float_ops_def conv_ops_def)
    then have "(t, s) \<in> syms x" by (auto simp: symbol_of_def)
    then have s: "t = st s" "s \<in> X" using x(2) by (auto simp: z3_expr_def)
    obtain m where "name_to_symbol (op_name s) = Some m" using X [OF s(2)] by blast
    from constant_visits [where st = st, OF L n(1) x(1) s this] show ?thesis
      by (rule visits_cong) (use con in \<open>auto simp: z3_dispatch_def\<close>)
  next
    case lit
    then obtain i where "as_const_int x = Some i" using wt(1) by (cases x; cases "op_data x") (auto simp: op_opcode_def as_const_int_def wt_operation_def int_ops_def float_ops_def conv_ops_def)
    from literal_visits [OF W L x(1) this] show ?thesis by (rule visits_cong) (simp add: z3_dispatch_def lit)
  next
    case und
    from undef_visits [OF W L x(1)] und have "visits S Z ev st X M (z3Undef Z) x" by (simp add: is_undef_def)
    then show ?thesis by (rule visits_cong) (simp add: z3_dispatch_def und)
  next
    case log
    then obtain n l r where n: "x = int_node (op_opcode x) n [l, r]" "is_i S n l" "is_i S n r"
      using wt_int_op [OF wt(1) refl] by (auto simp: int_ops_def)
    have nw: "n = w" using arg_cong [OF n(1), of op_type] wt(2) by simp
    have v: "visits S Z ev st X M vis l" "visits S Z ev st X M vis r" using ops n(2,3) by (subst (asm) n(1), simp)+
    have "visits S Z ev st X M (z3And Z vis) x" if c: "op_opcode x = And"
      unfolding z3And_def using logic_visits [OF L n(1) [unfolded c nw] n(2,3) [unfolded nw] x(1) v, of Z3_land "(\<and>)" Z3_band "\<lambda>w a b. and a b"]
      by (simp add: int_ops_def One_nat_def)
    moreover have "visits S Z ev st X M (z3Or Z vis) x" if c: "op_opcode x = Or"
      unfolding z3Or_def using logic_visits [OF L n(1) [unfolded c nw] n(2,3) [unfolded nw] x(1) v, of Z3_lor "(\<or>)" Z3_bor "\<lambda>w a b. or a b"]
      by (simp add: int_ops_def One_nat_def)
    ultimately show ?thesis using log by (auto simp: z3_dispatch_def intro: visits_cong)
  next
    case un
    obtain k n a where n: "x = int_node (op_opcode x) n [a]" "is_i S k a" "widths_ok (op_opcode x) k n" by (rule wt_unary [OF wt(1) refl un])
    have nw: "n = w" using arg_cong [OF n(1), of op_type] wt(2) by simp
    have v: "visits S Z ev st X M vis a" using ops n(2) by (subst (asm) n(1), simp)
    note t = trunc_extend_visits [OF W L n(1-3) [unfolded nw] x(1) v]
    have "visits S Z ev st X M (z3Not Z vis) x" if c: "op_opcode x = Not"
      using not_visits [OF L n(1) [unfolded c nw] _ x(1) v] n(2,3) c nw by (simp add: widths_ok_def)
    then show ?thesis using un t by (auto simp: z3_dispatch_def intro: visits_cong)
  next
    case sel
    then obtain t c u v where n: "x = Operation (OperationData Select t) [c, u, v]" "is_i S 1 c" "wt S u" "wt S v"
      using wt_shapes(1) [OF wt(1)] by blast
    then have "is_i S w u" "is_i S w v" using wt(1,2) by (auto simp: is_i_def wt_operation_def op_type_def)
    then have "visits S Z ev st X M (z3Select Z vis) x"
      using n(2) by (intro select_visits [OF L n(1,2) _ _ x(1)] ops) (auto simp: n(1))
    then show ?thesis by (rule visits_cong) (simp add: z3_dispatch_def sel)
  next
    case cmp
    obtain k l r where n: "x = int_node (ICmp p) 1 [l, r]" "is_i S k l" "is_i S k r" by (rule wt_icmp [OF wt(1) cmp])
    have "is_i S 1 x" by (rule icmp_node(1) [OF W n(2,3), of p, folded n(1)])
    then have "visits S Z ev st X M (z3_binop Z (icmp_term p) vis) x"
      using n(2,3) by (intro icmp_visits [OF L n] ops) (auto simp: n(1))
    then show ?thesis by (rule visits_cong) (simp add: z3_dispatch_def z3ICmp_def cmp)
  next
    case bin
    have "op_opcode x \<in> int_ops" using arith_term_sem(1) [OF bin, of 0 1 0] by simp
    then obtain n l r where n: "x = int_node (op_opcode x) n [l, r]" "is_i S n l" "is_i S n r"
      using wt_int_op [OF wt(1) refl] by blast
    have nw: "n = w" using arg_cong [OF n(1), of op_type] wt(2) by simp
    have v: "visits S Z ev st X M vis l" "visits S Z ev st X M vis r" using ops n(2,3) by (subst (asm) n(1), simp)+
    have "visits S Z ev st X M (z3_binop Z f vis) x"
      by (rule arith_visits [OF L bin n(1-3) [unfolded nw] x(1) v W])
    then show ?thesis by (rule visits_cong) (use bin in \<open>cases "op_opcode x"; simp add: z3_dispatch_def\<close>)
  qed
qed

section \<open>Soundness of the visitor\<close>

lemma visit_depth_visits:
  assumes W: "world_ok S E0" and L: "z3_laws S Z ev" and M: "memory_ok M" and X: "\<And>s. s \<in> X \<Longrightarrow> name_to_symbol (op_name s) \<noteq> None"
  shows "is_i S w x \<Longrightarrow> z3_expr S st X x \<Longrightarrow> everywhere (alive M) x \<Longrightarrow> height x \<le> d \<Longrightarrow>
    visits S Z ev st X M (z3_visit_depth S Z M d) x"
proof (induction d arbitrary: x w)
  case 0
  then show ?case by (cases x) simp
next
  case (Suc d)
  obtain dt ops where x: "x = Operation dt ops" by (cases x)
  have "visits S Z ev st X M (z3_dispatch S Z (z3_visit_depth S Z M d)) x"
  proof (rule dispatch_visits [OF W L X Suc.prems(1,2)])
    fix y n assume y: "y \<in> set (operands x)" "is_i S n y"
    then have "y \<in> set ops" by (simp add: x)
    then have "z3_expr S st X y" "everywhere (alive M) y" "height y \<le> d"
      using Suc.prems(2-4) z3_expr_operands height_operand [of y "Operation dt ops"] by (auto simp: x list_all_iff)
    then show "visits S Z ev st X M (z3_visit_depth S Z M d) y" by (rule Suc.IH [OF y(2)])
  qed
  note step = this [unfolded visits_def, rule_format]
  have al: "alive M x" using Suc.prems(3) by (simp add: x)
  show ?case unfolding visits_def
  proof (intro allI impI)
    fix zs assume inv: "z3_inv S Z ev st X M zs"
    let ?P = "\<lambda>e zs'. z3_inv S Z ev st X M zs' \<and> solver_terms zs' = solver_terms zs \<and> translates S Z ev st X x e
      \<and> known zs \<subseteq> known zs' \<and> snd ` syms x \<subseteq> known zs'"
    show "\<exists>e zs'. z3_visit_depth S Z M (Suc d) x zs = Some (e, zs') \<and> ?P e zs'"
    proof (cases "op_cache zs (address M x)")
      case (Some e)
      then obtain y where y: "alive M y" "address M y = address M x" "translates S Z ev st X y e" "snd ` syms y \<subseteq> known zs"
        using inv unfolding z3_inv_def by blast
      then have "y = x" using M al by (simp add: memory_ok_def inj_on_def)
      then show ?thesis using Some inv y(3,4) by simp
    next
      case None
      obtain e zs' where e: "z3_dispatch S Z (z3_visit_depth S Z M d) x zs = Some (e, zs')" "?P e zs'"
        using step [OF inv] by blast
      have "z3_inv S Z ev st X M (zs'\<lparr>op_cache := (op_cache zs')(address M x \<mapsto> e)\<rparr>)"
        using e(2) al by (auto simp: z3_inv_def known_def)
      then show ?thesis using None e by (auto simp: known_def)
    qed
  qed
qed

lemma visit_visits:
  assumes "world_ok S E0" "z3_laws S Z ev" "memory_ok M" "\<And>s. s \<in> X \<Longrightarrow> name_to_symbol (op_name s) \<noteq> None"
    and "is_i S w x" "z3_expr S st X x" "everywhere (alive M) x"
  shows "visits S Z ev st X M (z3_visit S Z M) x"
  by (rule visits_cong [OF visit_depth_visits [where d = "height x + 1", OF assms]]) (simp_all add: z3_visit_def)

lemma z3_start_inv: "z3_inv S Z ev st X M z3_start"
  by (simp add: z3_inv_def z3_start_def)

end
