(* ===== verification/Constraint_Slicer.thy ===== *)
theory Constraint_Slicer
  imports Transforms Weak_Map
begin

text \<open>
  \<^verbatim>\<open>ConstraintSlicer\<close> of src/Query/ConstraintSlicer.cpp: the part of an assertion list that a query needs.
  Expressions are the objects of the weak map that caches the constants they contain; \<open>order\<close> is the
  order in which \<^verbatim>\<open>std::unordered_set\<close> is traversed, about which nothing is assumed but that it is a
  traversal.
\<close>

declare One_nat_def [simp del]

section \<open>The constants of an expression\<close>

type_synonym ('i, 'f) slicer = "(('i, 'f) op, symbol list) weak_map"

fun calc_contained_constants :: "('i, 'f) op memory \<Rightarrow> ('i, 'f) op \<Rightarrow> ('i, 'f) slicer \<times> symbol list \<Rightarrow> (('i, 'f) slicer \<times> symbol list) option"
  and calc_operands :: "('i, 'f) op memory \<Rightarrow> ('i, 'f) op list \<Rightarrow> ('i, 'f) slicer \<times> symbol list \<Rightarrow> (('i, 'f) slicer \<times> symbol list) option" where
  "calc_contained_constants M (Operation d ops) (c, out) =
     (case wm_find M (Operation d ops) c of
        (c', Some symbols) \<Rightarrow> Some (c', fold List.insert symbols out)
      | (c', None) \<Rightarrow>
          if isa_constant (Operation d ops)
          then do { s \<leftarrow> op_symbol (Operation d ops); Some (c', List.insert s out) }
          else do {
            out' \<leftarrow> (if op_opcode (Operation d ops) = ConstantArray
                     then do { s \<leftarrow> op_symbol (Operation d ops); Some (List.insert s out) }
                     else Some out);
            calc_operands M ops (c', out') })"
| "calc_operands M [] st = Some st"
| "calc_operands M (x # xs) st = do { st' \<leftarrow> calc_contained_constants M x st; calc_operands M xs st' }"

definition contained_constants :: "('i, 'f) op memory \<Rightarrow> (symbol list \<Rightarrow> symbol list) \<Rightarrow> ('i, 'f) op \<Rightarrow> ('i, 'f) slicer \<Rightarrow>
    (('i, 'f) slicer \<times> symbol list) option" where
  "contained_constants M order x c =
     (case wm_find M x c of
        (c', Some symbols) \<Rightarrow> Some (c', symbols)
      | (c', None) \<Rightarrow> do {
          (c1, seen) \<leftarrow> calc_contained_constants M x (c', []);
          (case wm_emplace M (Some x) (order seen) c1 of (c2, r, _) \<Rightarrow> do { symbols \<leftarrow> r; Some (c2, symbols) }) })"

section \<open>Slicing\<close>

fun push_known :: "('i, 'f) assertion \<Rightarrow> symbol list \<Rightarrow> (symbol \<Rightarrow> ('i, 'f) assertion list) \<Rightarrow> symbol \<Rightarrow> ('i, 'f) assertion list" where
  "push_known a [] known = known"
| "push_known a (s # ss) known = push_known a ss (known(s := known s @ [a]))"

fun index_proven :: "('i, 'f) op memory \<Rightarrow> (symbol list \<Rightarrow> symbol list) \<Rightarrow> ('i, 'f) assertion list \<Rightarrow> ('i, 'f) slicer \<Rightarrow>
    (symbol \<Rightarrow> ('i, 'f) assertion list) \<Rightarrow> (('i, 'f) slicer \<times> (symbol \<Rightarrow> ('i, 'f) assertion list)) option" where
  "index_proven M order [] c known = Some (c, known)"
| "index_proven M order (a # as) c known = do {
     (c', ss) \<leftarrow> contained_constants M order a c;
     index_proven M order as c' (push_known a ss known) }"

text \<open>\<^verbatim>\<open>known.find(symbol)\<close> fails exactly for the symbols under which nothing was pushed.\<close>

fun insert_known :: "('i, 'f, 'z) ctx_scheme \<Rightarrow> ('i, 'f) folder \<Rightarrow> (symbol \<Rightarrow> ('i, 'f) assertion list) \<Rightarrow> symbol list \<Rightarrow>
    ('i, 'f) assertion_list \<Rightarrow> ('i, 'f) assertion_list option" where
  "insert_known S cf known [] l = Some l"
| "insert_known S cf known (s # ss) l = do {
     l' \<leftarrow> (if known s \<noteq> [] then al_insert S cf (known s) l else Some l);
     insert_known S cf known ss l' }"

fun insert_unproven :: "('i, 'f, 'z) ctx_scheme \<Rightarrow> ('i, 'f) folder \<Rightarrow> ('i, 'f) op memory \<Rightarrow> (symbol list \<Rightarrow> symbol list) \<Rightarrow>
    (symbol \<Rightarrow> ('i, 'f) assertion list) \<Rightarrow> ('i, 'f) assertion list \<Rightarrow> ('i, 'f) slicer \<Rightarrow> ('i, 'f) assertion_list \<Rightarrow>
    (('i, 'f) slicer \<times> ('i, 'f) assertion_list) option" where
  "insert_unproven S cf M order known [] c l = Some (c, l)"
| "insert_unproven S cf M order known (a # as) c l = do {
     l1 \<leftarrow> al_insert S cf [a] l;
     (c', ss) \<leftarrow> contained_constants M order a c;
     l2 \<leftarrow> insert_known S cf known ss l1;
     insert_unproven S cf M order known as c' l2 }"

fun insert_each :: "('i, 'f, 'z) ctx_scheme \<Rightarrow> ('i, 'f) folder \<Rightarrow> ('i, 'f) assertion list \<Rightarrow> ('i, 'f) assertion_list \<Rightarrow> ('i, 'f) assertion_list option" where
  "insert_each S cf [] l = Some l"
| "insert_each S cf (a # as) l = do { l' \<leftarrow> al_insert S cf [a] l; insert_each S cf as l' }"

definition slice_list :: "('i, 'f, 'z) ctx_scheme \<Rightarrow> ('i, 'f) folder \<Rightarrow> ('i, 'f) op memory \<Rightarrow> (symbol list \<Rightarrow> symbol list) \<Rightarrow>
    ('i, 'f) slicer \<Rightarrow> ('i, 'f) assertion_list \<Rightarrow> ('i, 'f) assertion \<Rightarrow> (('i, 'f) slicer \<times> ('i, 'f) assertion_list) option" where
  "slice_list S cf M order c al extra = do {
     ps \<leftarrow> proven al;
     old \<leftarrow> those (map (al_get al) ps);
     (c1, known) \<leftarrow> index_proven M order old c (\<lambda>_. []);
     us \<leftarrow> unproven al;
     new \<leftarrow> those (map (al_get al) us);
     (c2, l1) \<leftarrow> insert_unproven S cf M order known new c1 al_empty;
     (c3, ss) \<leftarrow> contained_constants M order extra c2;
     l2 \<leftarrow> insert_known S cf known ss l1;
     l3 \<leftarrow> insert_each S cf new l2;
     Some (c3, l3) }"

section \<open>Correctness of the cached constants\<close>

text \<open>All symbols of constants and of constant arrays.\<close>

definition data_symbols :: "('i, 'f) opdata \<Rightarrow> symbol set" where
  "data_symbols d = (case d of ConstantData _ _ s \<Rightarrow> {s} | _ \<Rightarrow> {})"

primrec constants_of :: "('i, 'f) op \<Rightarrow> symbol set" where
  "constants_of (Operation d ops) = data_symbols d \<union> \<Union> (set (map constants_of ops))"

definition slicer_ok :: "('i, 'f) op memory \<Rightarrow> ('i, 'f) slicer \<Rightarrow> bool" where
  "slicer_ok M c \<longleftrightarrow> memory_ok M \<and> wm_wf M c \<and> (\<forall>x ss. wm_view M c x = Some ss \<longrightarrow> set ss = constants_of x)"

lemma slicer_okD:
  assumes "slicer_ok M c"
  shows "memory_ok M \<and> wm_wf M c" "\<forall>x ss. wm_view M c x = Some ss \<longrightarrow> set ss = constants_of x"
  using assms by (simp_all add: slicer_ok_def)

lemma slicer_find:
  assumes "slicer_ok M c" "alive M x" "wm_find M x c = (c', r)"
  shows "slicer_ok M c'" "r = Some ss \<Longrightarrow> set ss = constants_of x"
  using weak.find_right [OF slicer_okD [OF assms(1)] assms(2,3)] by (simp_all add: slicer_ok_def)

lemma slicer_emplace:
  assumes "slicer_ok M c" "alive M x" "set ss = constants_of x" "wm_emplace M (Some x) ss c = (c', r, b)"
  shows "slicer_ok M c'" "\<exists>ss'. r = Some ss' \<and> set ss' = constants_of x"
  using weak.emplace_right [OF slicer_okD [OF assms(1)] assms(2-4)] by (simp_all add: slicer_ok_def)

lemma set_fold_insert: "set (fold List.insert xs ys) = set xs \<union> set ys"
  by (induction xs arbitrary: ys) auto

lemma op_symbol_wt:
  assumes "wt S (Operation d ops)"
  shows "isa_constant (Operation d ops) \<Longrightarrow> \<exists>s. op_symbol (Operation d ops) = Some s \<and> data_symbols d = {s} \<and> ops = []"
    and "op_opcode (Operation d ops) = ConstantArray \<Longrightarrow> \<exists>s. op_symbol (Operation d ops) = Some s \<and> data_symbols d = {s}"
    and "\<not> isa_constant (Operation d ops) \<Longrightarrow> op_opcode (Operation d ops) \<noteq> ConstantArray \<Longrightarrow> data_symbols d = {}"
  using assms
  by (cases d; auto simp: isa_constant_def op_opcode_def op_symbol_def data_symbols_def wt_operation_def int_ops_def float_ops_def conv_ops_def)+

lemma calc_operands_ok:
  assumes "\<And>x c out. x \<in> set xs \<Longrightarrow> slicer_ok M c \<Longrightarrow>
      \<exists>c' out'. calc_contained_constants M x (c, out) = Some (c', out') \<and> slicer_ok M c' \<and> set out' = set out \<union> constants_of x"
    and "slicer_ok M c"
  shows "\<exists>c' out'. calc_operands M xs (c, out) = Some (c', out') \<and> slicer_ok M c' \<and> set out' = set out \<union> \<Union> (constants_of ` set xs)"
  using assms
proof (induction xs arbitrary: c out)
  case (Cons x xs)
  obtain c1 out1 where 1: "calc_contained_constants M x (c, out) = Some (c1, out1)" "slicer_ok M c1" "set out1 = set out \<union> constants_of x"
    using Cons.prems(1) [of x c out] Cons.prems(2) by auto
  obtain c2 out2 where "calc_operands M xs (c1, out1) = Some (c2, out2)" "slicer_ok M c2" "set out2 = set out1 \<union> \<Union> (constants_of ` set xs)"
    using Cons.IH [OF _ 1(2), of out1] Cons.prems(1) by auto
  then show ?case using 1 by auto
qed simp

lemma calc_ok:
  "slicer_ok M c \<Longrightarrow> everywhere (alive M) x \<Longrightarrow> wt S x \<Longrightarrow>
    \<exists>c' out'. calc_contained_constants M x (c, out) = Some (c', out') \<and> slicer_ok M c' \<and> set out' = set out \<union> constants_of x"
proof (induction x arbitrary: c out)
  case (Operation d ops)
  let ?x = "Operation d ops"
  obtain c1 r where f: "wm_find M ?x c = (c1, r)" by (cases "wm_find M ?x c")
  have c1: "slicer_ok M c1" "\<And>ss. r = Some ss \<Longrightarrow> set ss = constants_of ?x"
    using slicer_find [OF Operation.prems(1) _ f] Operation.prems(2) by auto
  show ?case
  proof (cases r)
    case (Some ss)
    then show ?thesis using f c1 by (auto simp: set_fold_insert)
  next
    case None
    note sym = op_symbol_wt [OF Operation.prems(3)]
    have ops: "\<exists>c' out'. calc_operands M ops (c1, out1) = Some (c', out') \<and> slicer_ok M c' \<and> set out' = set out1 \<union> \<Union> (constants_of ` set ops)" for out1
      using Operation.prems(2,3) by (intro calc_operands_ok c1(1) Operation.IH) (auto simp: list_all_iff)
    show ?thesis
    proof (cases "isa_constant ?x")
      case True
      then show ?thesis using None f c1(1) sym(1) by auto
    next
      case nc: False
      show ?thesis
      proof (cases "op_opcode ?x = ConstantArray")
        case True
        then obtain s where "op_symbol ?x = Some s" "data_symbols d = {s}" using sym(2) by blast
        then show ?thesis using None f nc True ops [of "List.insert s out"] by auto
      next
        case False
        then show ?thesis using None f nc sym(3) ops [of out] by auto
      qed
    qed
  qed
qed

lemma contained_constants_ok:
  assumes c: "slicer_ok M c" and x: "everywhere (alive M) x" "wt S x" and order: "\<And>xs. set (order xs) = set xs"
  shows "\<exists>c' ss. contained_constants M order x c = Some (c', ss) \<and> slicer_ok M c' \<and> set ss = constants_of x"
proof -
  have a: "alive M x" by (rule everywhereD(1) [OF x(1)])
  obtain c1 r where f: "wm_find M x c = (c1, r)" by (cases "wm_find M x c")
  note c1 = slicer_find [OF c a f]
  show ?thesis
  proof (cases r)
    case (Some ss)
    then show ?thesis using f c1 by (simp add: contained_constants_def)
  next
    case None
    obtain c2 seen where 2: "calc_contained_constants M x (c1, []) = Some (c2, seen)" "slicer_ok M c2" "set seen = constants_of x"
      using calc_ok [OF c1(1) x, of "[]"] by auto
    obtain c3 r3 b where 3: "wm_emplace M (Some x) (order seen) c2 = (c3, r3, b)" by (cases "wm_emplace M (Some x) (order seen) c2")
    have "set (order seen) = constants_of x" using order 2(3) by simp
    from slicer_emplace [OF 2(2) a this 3] obtain ss where "slicer_ok M c3" "r3 = Some ss" "set ss = constants_of x" by blast
    then show ?thesis using f None 2(1) 3 by (simp add: contained_constants_def del: wm_emplace.simps)
  qed
qed

section \<open>The slice\<close>

lemma push_known_set: "set (push_known a ss known s) = set (known s) \<union> (if s \<in> set ss then {a} else {})"
  by (induction ss arbitrary: known) auto

definition queryable :: "('i, 'f, 'z) ctx_scheme \<Rightarrow> ('i, 'f) op memory \<Rightarrow> ('i, 'f) op \<Rightarrow> bool" where
  "queryable S M x \<longleftrightarrow> is_i S 1 x \<and> everywhere (alive M) x"

lemma index_proven_ok:
  assumes order: "\<And>xs. set (order xs) = set xs"
  shows "slicer_ok M c \<Longrightarrow> list_all (queryable S M) as \<Longrightarrow>
    \<exists>c' known'. index_proven M order as c known = Some (c', known') \<and> slicer_ok M c'
      \<and> (\<forall>s. set (known' s) = set (known s) \<union> {a \<in> set as. s \<in> constants_of a})"
proof (induction as arbitrary: c known)
  case (Cons a as)
  have "everywhere (alive M) a" "wt S a" using Cons.prems(2) by (simp_all add: queryable_def is_i_def)
  then obtain c1 ss where 1: "contained_constants M order a c = Some (c1, ss)" "slicer_ok M c1" "set ss = constants_of a"
    using contained_constants_ok [where order = order, OF Cons.prems(1) _ _ order] by blast
  obtain c2 known' where "index_proven M order as c1 (push_known a ss known) = Some (c2, known')" "slicer_ok M c2"
      "\<forall>s. set (known' s) = set (push_known a ss known s) \<union> {a \<in> set as. s \<in> constants_of a}"
    using Cons.IH [OF 1(2), of "push_known a ss known"] Cons.prems(2) by auto
  then show ?case using 1 by (auto simp: push_known_set)
qed simp

text \<open>Insertion in the form the loops need it.\<close>

lemma insert_list:
  assumes "world_ok S E0" "hash_consed S" "al_wf S l" "list_all (queryable S M) as"
  shows "\<exists>l'. al_insert S (constant_fold S) as l = Some l' \<and> al_wf S l'
    \<and> (\<forall>E. world_ok S E \<longrightarrow> sat S E (elems l') = (sat S E (elems l) \<and> sat S E as))"
proof -
  have "list_all (is_i S 1) as" using assms(4) by (auto simp: list_all_iff queryable_def)
  then show ?thesis using al_insert_ok [OF assms(1-3)] by (fastforce simp: insert_ok_def)
qed

lemma insert_known_ok:
  assumes W: "world_ok S E0" "hash_consed S" and k: "\<And>s. list_all (queryable S M) (known s)"
  shows "al_wf S l \<Longrightarrow> \<exists>l'. insert_known S (constant_fold S) known ss l = Some l' \<and> al_wf S l'
    \<and> (\<forall>E. world_ok S E \<longrightarrow> sat S E (elems l') = (sat S E (elems l) \<and> (\<forall>s\<in>set ss. sat S E (known s))))"
proof (induction ss arbitrary: l)
  case (Cons s ss)
  obtain l1 where 1: "(if known s \<noteq> [] then al_insert S (constant_fold S) (known s) l else Some l) = Some l1" "al_wf S l1"
      "\<forall>E. world_ok S E \<longrightarrow> sat S E (elems l1) = (sat S E (elems l) \<and> sat S E (known s))"
    using insert_list [OF W Cons.prems k [of s]] Cons.prems by (cases "known s = []") auto
  from Cons.IH [OF 1(2)] 1 show ?case by auto
qed simp

lemma insert_each_ok:
  assumes W: "world_ok S E0" "hash_consed S"
  shows "al_wf S l \<Longrightarrow> list_all (queryable S M) as \<Longrightarrow> \<exists>l'. insert_each S (constant_fold S) as l = Some l' \<and> al_wf S l'
    \<and> (\<forall>E. world_ok S E \<longrightarrow> sat S E (elems l') = (sat S E (elems l) \<and> sat S E as))"
proof (induction as arbitrary: l)
  case (Cons a as)
  then obtain l1 where 1: "al_insert S (constant_fold S) [a] l = Some l1" "al_wf S l1"
      "\<forall>E. world_ok S E \<longrightarrow> sat S E (elems l1) = (sat S E (elems l) \<and> sat S E [a])"
    using insert_list [OF W Cons.prems(1), of M "[a]"] by auto
  from Cons.IH [OF 1(2)] Cons.prems(2) 1 show ?case by (auto simp del: al_insert.simps)
qed simp

lemma insert_unproven_ok:
  assumes W: "world_ok S E0" "hash_consed S" and k: "\<And>s. list_all (queryable S M) (known s)" and order: "\<And>xs. set (order xs) = set xs"
  shows "slicer_ok M c \<Longrightarrow> al_wf S l \<Longrightarrow> list_all (queryable S M) as \<Longrightarrow>
    \<exists>c' l'. insert_unproven S (constant_fold S) M order known as c l = Some (c', l') \<and> slicer_ok M c' \<and> al_wf S l'
      \<and> (\<forall>E. world_ok S E \<longrightarrow> sat S E (elems l') = (sat S E (elems l) \<and> sat S E as \<and> (\<forall>a\<in>set as. \<forall>s\<in>constants_of a. sat S E (known s))))"
proof (induction as arbitrary: c l)
  case (Cons a as)
  obtain l1 where 1: "al_insert S (constant_fold S) [a] l = Some l1" "al_wf S l1"
      "\<forall>E. world_ok S E \<longrightarrow> sat S E (elems l1) = (sat S E (elems l) \<and> sat S E [a])"
    using insert_list [OF W Cons.prems(2), of M "[a]"] Cons.prems(3) by auto
  have "everywhere (alive M) a" "wt S a" using Cons.prems(3) by (simp_all add: queryable_def is_i_def)
  then obtain c1 ss where c1: "contained_constants M order a c = Some (c1, ss)" "slicer_ok M c1" "set ss = constants_of a"
    using contained_constants_ok [where order = order, OF Cons.prems(1) _ _ order] by blast
  obtain l2 where 2: "insert_known S (constant_fold S) known ss l1 = Some l2" "al_wf S l2"
      "\<forall>E. world_ok S E \<longrightarrow> sat S E (elems l2) = (sat S E (elems l1) \<and> (\<forall>s\<in>set ss. sat S E (known s)))"
    using insert_known_ok [where known = known, OF W k 1(2)] by blast
  have "list_all (queryable S M) as" using Cons.prems(3) by simp
  then obtain c3 l3 where 3: "insert_unproven S (constant_fold S) M order known as c1 l2 = Some (c3, l3)" "slicer_ok M c3" "al_wf S l3"
      "\<forall>E. world_ok S E \<longrightarrow> sat S E (elems l3) = (sat S E (elems l2) \<and> sat S E as \<and> (\<forall>a\<in>set as. \<forall>s\<in>constants_of a. sat S E (known s)))"
    using Cons.IH [OF c1(2) 2(2)] by blast
  have "insert_unproven S (constant_fold S) M order known (a # as) c l = Some (c3, l3)"
    using 1(1) c1(1) 2(1) 3(1) by (simp del: al_insert.simps)
  moreover have "\<forall>E. world_ok S E \<longrightarrow> sat S E (elems l3) = (sat S E (elems l) \<and> sat S E (a # as) \<and> (\<forall>a\<in>set (a # as). \<forall>s\<in>constants_of a. sat S E (known s)))"
    using 1(3) 2(3) 3(4) c1(3) by auto
  ultimately show ?case using 3(2,3) by blast
qed simp

definition proven_part :: "('i, 'f) assertion_list \<Rightarrow> ('i, 'f) assertion list" where
  "proven_part al = vals (take (al_mark al) (elements (al_list al)))"

definition unproven_part :: "('i, 'f) assertion_list \<Rightarrow> ('i, 'f) assertion list" where
  "unproven_part al = vals (drop (al_mark al) (elements (al_list al)))"

lemma elems_parts: "elems al = proven_part al @ unproven_part al"
  unfolding elems_vals proven_part_def unproven_part_def by (metis append_take_drop_id vals_simps(4))

lemma part_positions:
  assumes "al_wf S al"
  obtains ps us where "proven al = Some ps" "those (map (al_get al) ps) = Some (proven_part al)"
    "unproven al = Some us" "those (map (al_get al) us) = Some (unproven_part al)"
proof -
  let ?es = "elements (al_list al)" and ?m = "al_mark al"
  have m: "?m \<le> length ?es" using assms by (simp add: al_wf_def backing_size_def)
  show thesis
    using that [OF proven_positions(2) [OF m] _ proven_positions(1) [OF m]] get_positions [of 0 ?m al] get_positions [of ?m "length ?es" al] m
    by (simp add: proven_part_def unproven_part_def those_map_Some_id)
qed

lemma slice_ok:
  assumes "world_ok S E0" "hash_consed S" "al_wf S al" "slicer_ok M c" "list_all (queryable S M) (extra # elems al)"
    and "\<And>xs. set (order xs) = set xs"
  shows "\<exists>c' l. slice_list S (constant_fold S) M order c al extra = Some (c', l) \<and> slicer_ok M c' \<and> al_wf S l
    \<and> al_models S l = {E. world_ok S E \<and> (\<forall>u\<in>set (unproven_part al). holds S E u)
        \<and> (\<forall>p\<in>set (proven_part al). (\<exists>u\<in>insert extra (set (unproven_part al)). constants_of p \<inter> constants_of u \<noteq> {}) \<longrightarrow> holds S E p)}"
proof -
  let ?cf = "constant_fold S"
  obtain ps us where pos: "proven al = Some ps" "those (map (al_get al) ps) = Some (proven_part al)"
    "unproven al = Some us" "those (map (al_get al) us) = Some (unproven_part al)" by (rule part_positions [OF assms(3)])
  have q: "list_all (queryable S M) (proven_part al)" "list_all (queryable S M) (unproven_part al)" "everywhere (alive M) extra" "wt S extra"
    using assms(5) by (simp_all add: elems_parts queryable_def is_i_def)
  obtain c1 known where 1: "index_proven M order (proven_part al) c (\<lambda>_. []) = Some (c1, known)" "slicer_ok M c1"
      "\<And>s. set (known s) = {a \<in> set (proven_part al). s \<in> constants_of a}"
    using index_proven_ok [where order = order, OF assms(6,4) q(1), of "\<lambda>_. []"] by auto
  have k: "list_all (queryable S M) (known s)" for s using 1(3) q(1) by (simp add: list_all_iff)
  obtain c2 l2 where 2: "insert_unproven S ?cf M order known (unproven_part al) c1 al_empty = Some (c2, l2)" "slicer_ok M c2" "al_wf S l2"
      "\<forall>E. world_ok S E \<longrightarrow> sat S E (elems l2) = (sat S E (elems al_empty) \<and> sat S E (unproven_part al) \<and> (\<forall>a\<in>set (unproven_part al). \<forall>s\<in>constants_of a. sat S E (known s)))"
    using insert_unproven_ok [where known = known and order = order, OF assms(1,2) k assms(6) 1(2) al_wf_empty q(2)] by blast
  obtain c3 ss where 3: "contained_constants M order extra c2 = Some (c3, ss)" "slicer_ok M c3" "set ss = constants_of extra"
    using contained_constants_ok [where order = order, OF 2(2) q(3,4) assms(6)] by blast
  obtain l4 where 4: "insert_known S ?cf known ss l2 = Some l4" "al_wf S l4"
      "\<forall>E. world_ok S E \<longrightarrow> sat S E (elems l4) = (sat S E (elems l2) \<and> (\<forall>s\<in>set ss. sat S E (known s)))"
    using insert_known_ok [where known = known, OF assms(1,2) k 2(3)] by blast
  obtain l5 where 5: "insert_each S ?cf (unproven_part al) l4 = Some l5" "al_wf S l5"
      "\<forall>E. world_ok S E \<longrightarrow> sat S E (elems l5) = (sat S E (elems l4) \<and> sat S E (unproven_part al))"
    using insert_each_ok [OF assms(1,2) 4(2) q(2)] by blast
  have "elems (al_empty :: ('a, 'b) assertion_list) = []" by (simp add: elems_vals al_empty_def sv_empty_def)
  then have m1: "sat S E (elems l5) \<longleftrightarrow> sat S E (unproven_part al) \<and> (\<forall>u\<in>insert extra (set (unproven_part al)). \<forall>s\<in>constants_of u. sat S E (known s))"
    if "world_ok S E" for E
    using 5(3) 4(3) 2(4) 3(3) that by auto
  have m2: "(\<forall>u\<in>U. \<forall>s\<in>constants_of u. sat S E (known s)) \<longleftrightarrow> (\<forall>p\<in>set (proven_part al). (\<exists>u\<in>U. constants_of p \<inter> constants_of u \<noteq> {}) \<longrightarrow> holds S E p)" for U E
    unfolding 1(3) by blast
  have m: "sat S E (elems l5) \<longleftrightarrow> sat S E (unproven_part al)
      \<and> (\<forall>p\<in>set (proven_part al). (\<exists>u\<in>insert extra (set (unproven_part al)). constants_of p \<inter> constants_of u \<noteq> {}) \<longrightarrow> holds S E p)"
    if "world_ok S E" for E
    by (simp only: m1 [OF that] m2)
  have "slice_list S ?cf M order c al extra = Some (c3, l5)"
    using pos 1(1) 2(1) 3(1) 4(1) 5(1) by (simp add: slice_list_def)
  moreover have "al_models S l5 = {E. world_ok S E \<and> (\<forall>u\<in>set (unproven_part al). holds S E u)
        \<and> (\<forall>p\<in>set (proven_part al). (\<exists>u\<in>insert extra (set (unproven_part al)). constants_of p \<inter> constants_of u \<noteq> {}) \<longrightarrow> holds S E p)}"
    unfolding al_models_def by (intro Collect_cong conj_cong refl m)
  ultimately show ?thesis using 3(2) 5(2) by blast
qed

text \<open>
  C9: \<^verbatim>\<open>slice\<close> never fails; its cache stays right; and the list it returns holds in exactly the environments in
  which the unproven assertions hold together with those proven ones that have a constant in common
  with an unproven one or with the extra assertion.
\<close>

theorem slice_models:
  assumes "world_ok S E0" "hash_consed S" "al_wf S al" "slicer_ok M c" "list_all (queryable S M) (extra # elems al)"
    and "\<And>xs. set (order xs) = set xs"
  shows "\<exists>c' l. slice_list S (constant_fold S) M order c al extra = Some (c', l) \<and> slicer_ok M c' \<and> al_wf S l
    \<and> al_models S l = {E. world_ok S E \<and> (\<forall>u\<in>set (unproven_part al). holds S E u)
        \<and> (\<forall>p\<in>set (proven_part al). (\<exists>u\<in>insert extra (set (unproven_part al)). constants_of p \<inter> constants_of u \<noteq> {}) \<longrightarrow> holds S E p)}"
  using slice_ok [where order = order, OF assms] .

section \<open>A chain of constraints\<close>

text \<open>The assertions \<open>x = y\<close> and \<open>y = 0\<close>, proven satisfiable, and the query \<open>x = 1\<close>, over bytes.\<close>

definition byte_var :: "string \<Rightarrow> (ref_int, ref_float) op" where
  "byte_var s = Operation (ConstantData ConstantNamed (Type Integer 8) (Named s)) []"

definition chain_xy :: "(ref_int, ref_float) op" where
  "chain_xy = byte_cmp ICmp_EQ (byte_var ''x'') (byte_var ''y'')"

definition chain_y0 :: "(ref_int, ref_float) op" where
  "chain_y0 = byte_cmp ICmp_EQ (byte_var ''y'') (byte_const 0)"

definition chain_x1 :: "(ref_int, ref_float) op" where
  "chain_x1 = byte_cmp ICmp_EQ (byte_var ''x'') (byte_const 1)"

definition chain_list :: "(ref_int, ref_float) assertion_list" where
  "chain_list = al_push chain_x1 (mark_sat (al_push chain_y0 (al_push chain_xy al_empty)))"

definition true_assertion :: "(ref_int, ref_float) assertion" where
  "true_assertion = Operation (ConstantIntData (Type Integer 1) (1, 1)) []"

text \<open>A memory that holds the listed expressions, each at its position.\<close>

definition holding :: "'o list \<Rightarrow> 'o memory" where
  "holding xs = \<lparr>address = (\<lambda>x. length (takeWhile (\<lambda>y. y \<noteq> x) xs)), alive = (\<lambda>x. x \<in> set xs)\<rparr>"

definition chain_memory :: "(ref_int, ref_float) op memory" where
  "chain_memory = holding [chain_xy, chain_y0, chain_x1, true_assertion, byte_var ''x'', byte_var ''y'', byte_const 0, byte_const 1]"

definition bytes_env :: "nat \<Rightarrow> ref_float senv" where
  "bytes_env n = default_env\<lparr>sym_val := (\<lambda>t s. if t = Type Integer 8 then SInt 8 n else default_val t)\<rparr>"

lemma holding_ok: "memory_ok (holding xs)"
proof -
  have "x = y" if "x \<in> set xs" "y \<in> set xs" "length (takeWhile (\<lambda>z. z \<noteq> x) xs) = length (takeWhile (\<lambda>z. z \<noteq> y) xs)" for x y
    using that by (induction xs) (auto split: if_splits)
  then show ?thesis by (auto simp: memory_ok_def inj_on_def holding_def)
qed

lemma bytes_world: "n < 256 \<Longrightarrow> world_ok ref_ctx (bytes_env n)"
  using default_world by (auto simp: world_ok_def senv_ok_def bytes_env_def default_val_typed)

lemmas chain_defs = chain_xy_def chain_y0_def chain_x1_def byte_cmp_def byte_var_def byte_const_def

lemma chain_elems: "elems chain_list = [chain_xy, chain_y0, chain_x1]"
  and chain_parts: "proven_part chain_list = [chain_xy, chain_y0]" "unproven_part chain_list = [chain_x1]"
  by (simp_all add: chain_list_def elems_vals al_empty_def sv_empty_def proven_part_def unproven_part_def mark_sat_def Let_def
      compress_def backing_size_def numeral_2_eq_2)

lemma bytes_i: "is_i ref_ctx 8 (byte_var s)" "n < 256 \<Longrightarrow> is_i ref_ctx 8 (byte_const n)"
proof -
  have "inhabited ref_ctx (Type Integer 8)" by (auto simp: inhabited_def intro: exI [of _ "SInt 8 0"])
  then show "is_i ref_ctx 8 (byte_var s)" "n < 256 \<Longrightarrow> is_i ref_ctx 8 (byte_const n)"
    by (simp_all add: is_i_def byte_var_def byte_const_def op_type_def type_of_apint_def int_ty_eq_Some ref_eval)
qed

lemma chain_bool: "is_i ref_ctx 1 chain_xy" "is_i ref_ctx 1 chain_y0" "is_i ref_ctx 1 chain_x1" "is_i ref_ctx 1 true_assertion"
proof -
  have "is_i ref_ctx 1 (byte_cmp ICmp_EQ l r)" if "is_i ref_ctx 8 l" "is_i ref_ctx 8 r" for l r
    using that by (simp add: is_i_def byte_cmp_def wt_operation_def op_type_def)
  then show "is_i ref_ctx 1 chain_xy" "is_i ref_ctx 1 chain_y0" "is_i ref_ctx 1 chain_x1"
    by (simp_all add: chain_xy_def chain_y0_def chain_x1_def bytes_i)
  show "is_i ref_ctx 1 true_assertion"
    by (simp add: is_i_def true_assertion_def op_type_def type_of_apint_def int_ty_eq_Some ref_eval)
qed

lemma chain_wf: "al_wf ref_ctx chain_list"
proof -
  let ?one = "al_push chain_xy (al_empty :: (ref_int, ref_float) assertion_list)" and ?two = "al_push chain_y0 (al_push chain_xy al_empty)"
  have push: "al_wf ref_ctx (al_push x al)" if "al_wf ref_ctx al" "x \<notin> set (elems al)" "is_i ref_ctx 1 x" for x al
    using push_ok [OF that] by (simp add: insert_ok_def)
  have mark: "al_wf ref_ctx (mark_sat al)" if "al_wf ref_ctx al" for al
    using mark_sat_fields [OF that] that by (auto simp: al_wf_def backing_size_def)
  have e: "elems (al_empty :: (ref_int, ref_float) assertion_list) = []" "elems ?one = [chain_xy]" "elems (mark_sat ?two) = [chain_xy, chain_y0]"
    by (simp_all add: mark_sat_def Let_def compress_def backing_size_def elems_vals al_empty_def sv_empty_def)
  have new: "chain_y0 \<noteq> chain_xy" "chain_x1 \<noteq> chain_xy" "chain_x1 \<noteq> chain_y0" by (simp_all add: chain_defs)
  have "al_wf ref_ctx ?one" by (rule push) (simp_all add: al_wf_empty e chain_bool)
  then have "al_wf ref_ctx ?two" by (rule push) (simp_all add: e chain_bool new)
  then have "al_wf ref_ctx (mark_sat ?two)" by (rule mark)
  then show ?thesis unfolding chain_list_def by (rule push) (simp_all only: e chain_bool, simp add: new)
qed

lemma chain_queryable: "list_all (queryable ref_ctx chain_memory) (true_assertion # elems chain_list)" "slicer_ok chain_memory wm_empty"
proof -
  show "list_all (queryable ref_ctx chain_memory) (true_assertion # elems chain_list)"
    using chain_bool by (simp add: queryable_def chain_elems chain_memory_def holding_def) (simp add: chain_defs true_assertion_def)
  show "slicer_ok chain_memory wm_empty"
    using holding_ok by (simp add: slicer_ok_def chain_memory_def wm_wf_def wm_empty_def wm_view_def)
qed

lemma chain_slice:
  "\<exists>c l. slice_list ref_ctx (constant_fold ref_ctx) chain_memory rev wm_empty chain_list true_assertion = Some (c, l)
    \<and> slicer_ok chain_memory c \<and> al_models ref_ctx l = {E. world_ok ref_ctx E \<and> holds ref_ctx E chain_x1 \<and> holds ref_ctx E chain_xy}"
proof -
  have s: "set (rev xs) = set xs" for xs :: "symbol list" by simp
  have c: "constants_of chain_xy = {Named ''x'', Named ''y''}" "constants_of chain_y0 = {Named ''y''}" "constants_of chain_x1 = {Named ''x''}"
    "constants_of true_assertion = {}"
    by (auto simp: chain_defs true_assertion_def data_symbols_def)
  from slice_ok [where order = rev, OF default_world hash_consed_ref chain_wf chain_queryable(2,1) s] show ?thesis
    by (simp add: chain_parts c) blast
qed

lemma slice_models_witness:
  "\<exists>c l. slice_list ref_ctx (constant_fold ref_ctx) chain_memory rev wm_empty chain_list true_assertion = Some (c, l)
    \<and> slicer_ok chain_memory c \<and> al_wf ref_ctx l"
  using slice_models [where order = rev, OF default_world hash_consed_ref chain_wf chain_queryable(2,1)] by auto

lemma chain_meaning:
  assumes "world_ok ref_ctx E"
  shows "holds ref_ctx E chain_xy \<longleftrightarrow> sym_val E (Type Integer 8) (Named ''x'') = sym_val E (Type Integer 8) (Named ''y'')"
    "holds ref_ctx E chain_y0 \<longleftrightarrow> sym_val E (Type Integer 8) (Named ''y'') = SInt 8 0"
    "holds ref_ctx E chain_x1 \<longleftrightarrow> sym_val E (Type Integer 8) (Named ''x'') = SInt 8 1"
proof -
  have "inhabited ref_ctx (Type Integer 8)" by (auto simp: inhabited_def intro: exI [of _ "SInt 8 0"])
  then have "\<exists>n. sym_val E (Type Integer 8) s = SInt 8 n" for s
    using assms has_type_int by (metis world_ok_def senv_ok_def)
  then obtain x y where "sym_val E (Type Integer 8) (Named ''x'') = SInt 8 x" "sym_val E (Type Integer 8) (Named ''y'') = SInt 8 y" by metis
  then show "holds ref_ctx E chain_xy \<longleftrightarrow> sym_val E (Type Integer 8) (Named ''x'') = sym_val E (Type Integer 8) (Named ''y'')"
    "holds ref_ctx E chain_y0 \<longleftrightarrow> sym_val E (Type Integer 8) (Named ''y'') = SInt 8 0"
    "holds ref_ctx E chain_x1 \<longleftrightarrow> sym_val E (Type Integer 8) (Named ''x'') = SInt 8 1"
    by (simp_all add: holds_def chain_defs binary_beh_def of_bool1_def ref_eval)
qed

text \<open>
  Slicing does not keep satisfiability: only the assertions that share a constant with the query are
  kept, not those that are connected to it through others. From \<open>x = y, y = 0\<close> (proven) and \<open>x = 1\<close> it
  drops \<open>y = 0\<close>; the slice has a model and the list has none.
\<close>

theorem slice_not_transitive:
  "\<exists>c l. slice_list ref_ctx (constant_fold ref_ctx) chain_memory rev wm_empty chain_list true_assertion = Some (c, l)
    \<and> al_models ref_ctx l \<noteq> {} \<and> al_models ref_ctx chain_list = {}
    \<and> {E. world_ok ref_ctx E \<and> list_all (holds ref_ctx E) (proven_part chain_list)} \<noteq> {}"
proof -
  obtain c l where l: "slice_list ref_ctx (constant_fold ref_ctx) chain_memory rev wm_empty chain_list true_assertion = Some (c, l)"
    "al_models ref_ctx l = {E. world_ok ref_ctx E \<and> holds ref_ctx E chain_x1 \<and> holds ref_ctx E chain_xy}"
    using chain_slice by blast
  have 1: "world_ok ref_ctx (bytes_env 1)" "world_ok ref_ctx (bytes_env 0)" using bytes_world by simp_all
  have "bytes_env 1 \<in> al_models ref_ctx l" using 1 chain_meaning [OF 1(1)] l(2) by (simp add: bytes_env_def)
  moreover have "bytes_env 0 \<in> {E. world_ok ref_ctx E \<and> list_all (holds ref_ctx E) (proven_part chain_list)}"
    using 1 chain_meaning [OF 1(2)] by (simp add: bytes_env_def chain_parts)
  moreover have "al_models ref_ctx chain_list = {}" using chain_meaning by (auto simp: al_models_def chain_elems)
  ultimately show ?thesis using l(1) by blast
qed

end
