(* ===== verification/Z3_Reference.thy ===== *)
theory Z3_Reference
  imports Z3_Sound Constraint_Slicer
begin

text \<open>
  Terms with the sorts and the meaning that SMT-LIB gives them, as an instance of the Z3 API on which
  its laws hold, and what the translation promises.
\<close>

declare One_nat_def [simp del]

section \<open>Reference terms\<close>

datatype zterm =
    TConst z3_symbol z3_sort | TVal nat nat | TString string nat | TZero z3_sort
  | TUn z3_un zterm | TBin z3_bin zterm zterm | TTern z3_tern zterm zterm zterm

fun bin_sort :: "z3_bin \<Rightarrow> z3_sort \<Rightarrow> z3_sort \<Rightarrow> z3_sort option" where
  "bin_sort f (BVSort w) (BVSort w') =
     (if w \<noteq> w' then None else if bv_arith f \<noteq> None then Some (BVSort w) else if bv_rel f \<noteq> None then Some BoolSort else None)"
| "bin_sort f BoolSort BoolSort = (if bool_logic f \<noteq> None then Some BoolSort else None)"
| "bin_sort f t t' = None"

fun un_sort :: "z3_un \<Rightarrow> z3_sort \<Rightarrow> z3_sort option" where
  "un_sort u (BVSort w) = map_option (BVSort \<circ> fst) (bv_un u w)"
| "un_sort u BoolSort = (if u = Z3_lnot then Some BoolSort else None)"
| "un_sort u t = None"

fun tern_sort :: "z3_tern \<Rightarrow> z3_sort \<Rightarrow> z3_sort \<Rightarrow> z3_sort \<Rightarrow> z3_sort option" where
  "tern_sort Z3_ite c a b = (if c = BoolSort \<and> a = b then Some a else None)"
| "tern_sort f c a b = None"

definition no_sort :: "z3_sort option \<Rightarrow> z3_sort" where
  "no_sort t = (case t of Some t' \<Rightarrow> t' | None \<Rightarrow> FPASort 0 0)"

primrec zterm_sort :: "zterm \<Rightarrow> z3_sort" where
  "zterm_sort (TConst s t) = t"
| "zterm_sort (TVal n w) = BVSort w"
| "zterm_sort (TString s w) = BVSort w"
| "zterm_sort (TZero t) = (case t of FPASort _ _ \<Rightarrow> t | _ \<Rightarrow> FPASort 0 0)"
| "zterm_sort (TUn u a) = no_sort (un_sort u (zterm_sort a))"
| "zterm_sort (TBin f a b) = no_sort (bin_sort f (zterm_sort a) (zterm_sort b))"
| "zterm_sort (TTern f c a b) = no_sort (tern_sort f (zterm_sort c) (zterm_sort a) (zterm_sort b))"

fun digits :: "nat \<Rightarrow> string" where
  "digits n = (if n < 10 then [char_of (48 + n)] else digits (n div 10) @ [char_of (48 + n mod 10)])"

declare digits.simps [simp del]

definition read_digits :: "string \<Rightarrow> nat" where
  "read_digits s = foldl (\<lambda>n c. 10 * n + (of_char c - 48)) 0 s"

lemma read_digits: "read_digits (digits n) = n"
proof (induction n rule: digits.induct)
  case (1 n)
  have c: "of_char (char_of (48 + k)) = (48 + k :: nat)" if "k < 10" for k using that by (simp add: of_char_of take_bit_nat_eq_self)
  show ?case
  proof (cases "n < 10")
    case True
    then show ?thesis using c [of n] by (simp add: digits.simps read_digits_def del: of_char_of)
  next
    case False
    then show ?thesis using 1 c [of "n mod 10"] by (simp add: digits.simps [of n] read_digits_def del: of_char_of)
  qed
qed

fun bin_val :: "z3_bin \<Rightarrow> 'v zval \<Rightarrow> 'v zval \<Rightarrow> 'v zval option" where
  "bin_val f (ZBV w a) (ZBV w' b) =
     (if w \<noteq> w' then None
      else case bv_arith f of Some g \<Rightarrow> Some (ZBV w (g w a b)) | None \<Rightarrow> map_option (\<lambda>p. ZBool (p w a b)) (bv_rel f))"
| "bin_val f (ZBool p) (ZBool q) = map_option (\<lambda>h. ZBool (h p q)) (bool_logic f)"
| "bin_val f u v = None"

fun un_val :: "z3_un \<Rightarrow> 'v zval \<Rightarrow> 'v zval option" where
  "un_val u (ZBV w a) = map_option (\<lambda>(n, h). ZBV n (h a)) (bv_un u w)"
| "un_val u (ZBool p) = (if u = Z3_lnot then Some (ZBool (\<not> p)) else None)"
| "un_val u v = None"

definition no_val :: "unit zval option \<Rightarrow> unit zval" where
  "no_val v = (case v of Some v' \<Rightarrow> v' | None \<Rightarrow> ZOther ())"

primrec zterm_val :: "unit assignment \<Rightarrow> zterm \<Rightarrow> unit zval" where
  "zterm_val \<alpha> (TConst s t) = \<alpha> s t"
| "zterm_val \<alpha> (TVal n w) = ZBV w (n mod 2 ^ w)"
| "zterm_val \<alpha> (TString s w) = ZBV w (read_digits s mod 2 ^ w)"
| "zterm_val \<alpha> (TZero t) = ZOther ()"
| "zterm_val \<alpha> (TUn u a) = no_val (un_val u (zterm_val \<alpha> a))"
| "zterm_val \<alpha> (TBin f a b) = no_val (bin_val f (zterm_val \<alpha> a) (zterm_val \<alpha> b))"
| "zterm_val \<alpha> (TTern f c a b) =
     (if tern_sort f (zterm_sort c) (zterm_sort a) (zterm_sort b) = None then ZOther ()
      else if zterm_val \<alpha> c = ZBool True then zterm_val \<alpha> a else zterm_val \<alpha> b)"

definition ref_z3 :: "(zterm, ref_int) z3" where
  "ref_z3 = \<lparr>get_sort = zterm_sort, z3_constant = TConst, z3_bv_val = TVal, z3_bv_string = TString, z3_fpa_zero = TZero,
     z3_unary = (\<lambda>u a. if un_sort u (zterm_sort a) = None then None else Some (TUn u a)),
     z3_binary = (\<lambda>f a b. if bin_sort f (zterm_sort a) (zterm_sort b) = None then None else Some (TBin f a b)),
     z3_ternary = (\<lambda>f c a b. if tern_sort f (zterm_sort c) (zterm_sort a) (zterm_sort b) = None then None else Some (TTern f c a b)),
     ap_decimal = (\<lambda>i. digits (ap_val ref_ctx i))\<rparr>"

section \<open>The laws hold\<close>

lemma of_signed_bound [simp]: "of_signed w z < 2 ^ w"
  by (simp add: of_signed_def nat_less_iff)

lemma bv_arith_bound:
  assumes "bv_arith f = Some g" "a < 2 ^ w" "b < 2 ^ w"
  shows "g w a b < 2 ^ w"
proof -
  have "a div b < 2 ^ w" "a mod b < 2 ^ w" "drop_bit b a < 2 ^ w"
    using assms(2) by (auto intro: le_less_trans [OF div_le_dividend] le_less_trans [OF mod_less_eq_dividend] simp: drop_bit_eq_div)
  moreover have "1 < (2 :: nat) ^ w" if "to_signed w a < 0" using that assms(2) by (cases w) (auto simp: to_signed_def split: if_splits)
  ultimately show ?thesis using assms
    by (cases f) (auto simp: and_less_power or_less_power xor_less_power bvsdiv_val_def bvsmod_val_def sdiv_val_def shl_val_def ashr_val_def)
qed

lemma bv_un_bound:
  assumes "bv_un u w = Some (n, h)" "a < 2 ^ w"
  shows "h a < 2 ^ n"
proof -
  have "a < 2 ^ (w + k)" for k using assms(2) by (meson le_add1 less_le_trans one_le_numeral power_increasing)
  then show ?thesis using assms by (cases u) (auto split: if_splits)
qed

lemma zterm_val_sort: "sorted_assignment \<alpha> \<Longrightarrow> zval_sort (zterm_val \<alpha> e) (zterm_sort e)"
proof (induction e)
  case (TUn u a)
  then show ?case
    using bv_un_bound [of u]
    by (cases "zterm_val \<alpha> a"; cases "zterm_sort a") (auto simp: no_sort_def no_val_def split: option.splits)
next
  case (TBin f a b)
  then show ?case
    using bv_arith_bound [of f]
    by (cases "zterm_val \<alpha> a"; cases "zterm_val \<alpha> b"; cases "zterm_sort a"; cases "zterm_sort b")
       (auto simp: no_sort_def no_val_def split: option.splits)
next
  case (TTern f c a b)
  then show ?case by (cases f) (auto simp: no_sort_def)
qed (auto simp: sorted_assignment_def split: z3_sort.split)

lemma ref_z3_fields [simp]:
  "get_sort ref_z3 = zterm_sort" "z3_constant ref_z3 = TConst" "z3_bv_val ref_z3 = TVal" "z3_bv_string ref_z3 = TString"
  "z3_unary ref_z3 u a = (if un_sort u (zterm_sort a) = None then None else Some (TUn u a))"
  "z3_binary ref_z3 f a b = (if bin_sort f (zterm_sort a) (zterm_sort b) = None then None else Some (TBin f a b))"
  "z3_ternary ref_z3 g c a b = (if tern_sort g (zterm_sort c) (zterm_sort a) (zterm_sort b) = None then None else Some (TTern g c a b))"
  "ap_decimal ref_z3 i = digits (ap_val ref_ctx i)"
  by (simp_all add: ref_z3_def)

lemma zterm_bv:
  assumes "sorted_assignment \<alpha>" "zterm_sort e = BVSort w"
  obtains n where "zterm_val \<alpha> e = ZBV w n" "n < 2 ^ w"
  using zterm_val_sort [OF assms(1), of e] assms(2) by (cases "zterm_val \<alpha> e") auto

lemma zterm_bool:
  assumes "sorted_assignment \<alpha>" "zterm_sort e = BoolSort"
  obtains p where "zterm_val \<alpha> e = ZBool p"
  using zterm_val_sort [OF assms(1), of e] assms(2) by (cases "zterm_val \<alpha> e") auto

lemma bin_val_bv:
  assumes "sorted_assignment \<alpha>" "zterm_sort a = BVSort w" "zterm_sort b = BVSort w"
  shows "bin_val f (zterm_val \<alpha> a) (zterm_val \<alpha> b) =
    (case bv_arith f of Some g \<Rightarrow> Some (ZBV w (g w (znum (zterm_val \<alpha> a)) (znum (zterm_val \<alpha> b))))
     | None \<Rightarrow> map_option (\<lambda>p. ZBool (p w (znum (zterm_val \<alpha> a)) (znum (zterm_val \<alpha> b)))) (bv_rel f))"
  by (rule zterm_bv [OF assms(1,2)], rule zterm_bv [OF assms(1,3)]) (simp split: option.split)

lemma bin_val_bool:
  assumes "sorted_assignment \<alpha>" "zterm_sort a = BoolSort" "zterm_sort b = BoolSort"
  shows "bin_val f (zterm_val \<alpha> a) (zterm_val \<alpha> b) =
    map_option (\<lambda>h. ZBool (h (zterm_val \<alpha> a = ZBool True) (zterm_val \<alpha> b = ZBool True))) (bool_logic f)"
  by (rule zterm_bool [OF assms(1,2)], rule zterm_bool [OF assms(1,3)]) simp

lemma un_val_sorts:
  assumes "sorted_assignment \<alpha>"
  shows "zterm_sort a = BVSort w \<Longrightarrow> un_val u (zterm_val \<alpha> a) = map_option (\<lambda>(n, h). ZBV n (h (znum (zterm_val \<alpha> a)))) (bv_un u w)"
    and "zterm_sort a = BoolSort \<Longrightarrow> un_val Z3_lnot (zterm_val \<alpha> a) = Some (ZBool (zterm_val \<alpha> a \<noteq> ZBool True))"
  using zterm_val_sort [OF assms, of a] by (cases "zterm_val \<alpha> a"; simp)+

lemma ref_z3_laws: "z3_laws ref_ctx ref_z3 zterm_val"
  unfolding z3_laws_def
proof (intro conjI allI impI)
  show "zval_sort (zterm_val \<alpha> e) (get_sort ref_z3 e)" if "sorted_assignment \<alpha>" for \<alpha> e using zterm_val_sort [OF that] by simp
  show "denotes ref_z3 zterm_val (z3_constant ref_z3 s t) t (\<lambda>\<alpha>. \<alpha> s t)" for s t by (simp add: denotes_def)
  show "denotes ref_z3 zterm_val (z3_bv_val ref_z3 n w) (BVSort w) (\<lambda>_. ZBV w (n mod 2 ^ w))" for n w by (simp add: denotes_def)
  show "denotes ref_z3 zterm_val (z3_bv_string ref_z3 (ap_decimal ref_z3 i) (ap_width ref_ctx i)) (BVSort (ap_width ref_ctx i)) (\<lambda>_. ZBV (ap_width ref_ctx i) (ap_val ref_ctx i))" for i
    using apint_lawsD(1) [OF world_okD(3) [OF default_world], of i] by (simp add: denotes_def read_digits)
  show "\<exists>e. z3_binary ref_z3 f a b = Some e \<and> denotes ref_z3 zterm_val e (BVSort w) (\<lambda>\<alpha>. ZBV w (g w (znum (zterm_val \<alpha> a)) (znum (zterm_val \<alpha> b))))"
    if "bv_arith f = Some g" "get_sort ref_z3 a = BVSort w" "get_sort ref_z3 b = BVSort w" for f g w a b
    using that by (auto simp: denotes_def no_sort_def no_val_def bin_val_bv)
  show "\<exists>e. z3_binary ref_z3 f a b = Some e \<and> denotes ref_z3 zterm_val e BoolSort (\<lambda>\<alpha>. ZBool (g w (znum (zterm_val \<alpha> a)) (znum (zterm_val \<alpha> b))))"
    if "bv_rel f = Some g" "get_sort ref_z3 a = BVSort w" "get_sort ref_z3 b = BVSort w" for f g w a b
  proof -
    have "bv_arith f = None" using that(1) by (cases f) simp_all
    then show ?thesis using that by (auto simp: denotes_def no_sort_def no_val_def bin_val_bv)
  qed
  show "\<exists>e. z3_binary ref_z3 f a b = Some e \<and> denotes ref_z3 zterm_val e BoolSort (\<lambda>\<alpha>. ZBool (g (zterm_val \<alpha> a = ZBool True) (zterm_val \<alpha> b = ZBool True)))"
    if "bool_logic f = Some g" "get_sort ref_z3 a = BoolSort" "get_sort ref_z3 b = BoolSort" for f g a b
    using that by (auto simp: denotes_def no_sort_def no_val_def bin_val_bool)
  show "\<exists>e. z3_unary ref_z3 f a = Some e \<and> denotes ref_z3 zterm_val e (BVSort n) (\<lambda>\<alpha>. ZBV n (g (znum (zterm_val \<alpha> a))))"
    if "bv_un f w = Some (n, g)" "get_sort ref_z3 a = BVSort w" for f w n g a
    using that by (auto simp: denotes_def no_sort_def no_val_def un_val_sorts)
  show "\<exists>e. z3_unary ref_z3 Z3_lnot a = Some e \<and> denotes ref_z3 zterm_val e BoolSort (\<lambda>\<alpha>. ZBool (zterm_val \<alpha> a \<noteq> ZBool True))"
    if "get_sort ref_z3 a = BoolSort" for a
    using that by (auto simp: denotes_def no_sort_def no_val_def un_val_sorts)
  show "\<exists>e. z3_ternary ref_z3 Z3_ite c a b = Some e \<and> denotes ref_z3 zterm_val e (get_sort ref_z3 a) (\<lambda>\<alpha>. if zterm_val \<alpha> c = ZBool True then zterm_val \<alpha> a else zterm_val \<alpha> b)"
    if "get_sort ref_z3 c = BoolSort" "get_sort ref_z3 a = get_sort ref_z3 b" for c a b
    using that by (auto simp: denotes_def no_sort_def)
qed

section \<open>What the translation promises\<close>


lemma chain_alive: "everywhere (alive chain_memory) chain_x1" "everywhere (alive chain_memory) chain_xy" "everywhere (alive chain_memory) chain_y0"
  "everywhere (alive chain_memory) true_assertion"
  by (simp_all add: chain_memory_def holding_def chain_defs true_assertion_def)

definition byte_type :: "symbol \<Rightarrow> ty" where
  "byte_type s = Type Integer 8"

lemma chain_z3_expr:
  "z3_expr ref_ctx byte_type {Named ''x'', Named ''y''} chain_x1" "z3_expr ref_ctx byte_type {Named ''x'', Named ''y''} chain_xy"
  "z3_expr ref_ctx byte_type {Named ''x'', Named ''y''} chain_y0" "z3_expr ref_ctx byte_type {Named ''x'', Named ''y''} true_assertion"
  using chain_bool by (simp_all add: z3_expr_def is_i_def) (simp_all add: chain_defs true_assertion_def scalar_node_def symbol_of_def byte_type_def)

lemma named_symbol: "s \<in> {Named ''x'', Named ''y''} \<Longrightarrow> name_to_symbol (op_name s) \<noteq> None"
  by (auto simp: op_name_def name_to_symbol_def)


text \<open>
  C11: a signed remainder is translated to \<^verbatim>\<open>operator%\<close>, the signed modulo of Z3, whose sign is that of the
  divisor: the term of \<open>-5 srem 3\<close> on bytes has the value \<open>1\<close>, where the expression has the value \<open>-2\<close>.
\<close>

theorem z3_srem_is_modulo:
  assumes "world_ok S E" "z3_laws S Z ev" "memory_ok M" "sorted_assignment \<alpha>"
    and "x = int_node SRem 8 [const_node S (ap_make S 8 251), const_node S (ap_make S 8 3)]" "everywhere (alive M) x"
  shows "\<exists>e zs. z3_visit S Z M x z3_start = Some (e, zs) \<and> ev \<alpha> e = ZBV 8 1 \<and> beh S E x = {SInt 8 (2 ^ 8 - 2)}"
proof -
  let ?l = "const_node S (ap_make S 8 251)" and ?r = "const_node S (ap_make S 8 3)"
  note L = apint_lawsD [OF world_okD(3) [OF assms(1)]]
  have c: "is_i S 8 ?l" "is_i S 8 ?r" "ivals S E ?l = {251}" "ivals S E ?r = {3}"
    using const_node [OF assms(1), of "ap_make S 8 251"] const_node [OF assms(1), of "ap_make S 8 3"] by (simp_all add: L)
  have z: "z3_expr S (\<lambda>_. Type Integer 8) {} ?l" "z3_expr S (\<lambda>_. Type Integer 8) {} ?r"
    using c(1,2) by (simp_all add: z3_expr_def is_i_def) (simp_all add: const_node_def scalar_node_def symbol_of_def)
  have al: "everywhere (alive M) ?l" "everywhere (alive M) ?r" using assms(6) by (simp_all add: assms(5) int_node_def del: everywhere.simps(1)) (simp_all)
  have hg: "height ?l \<le> 2" "height ?r \<le> 2" "height x = 2" by (simp_all add: assms(5) int_node_def const_node_def)
  let ?T = "\<lambda>_ :: symbol. Type Integer 8"
  have vl: "visits S Z ev ?T {} M (z3_visit_depth S Z M 2) ?l" by (rule visit_depth_visits [OF assms(1-3) _ c(1) z(1) al(1) hg(1)]) simp
  have vr: "visits S Z ev ?T {} M (z3_visit_depth S Z M 2) ?r" by (rule visit_depth_visits [OF assms(1-3) _ c(2) z(2) al(2) hg(2)]) simp
  have ag: "z3_agrees ?T {} E \<alpha>" by (simp add: z3_agrees_def)
  obtain le z1 where 1: "z3_visit_depth S Z M 2 ?l z3_start = Some (le, z1)" "z3_inv S Z ev ?T {} M z1" "int_term Z 8 le" "znum (ev \<alpha> le) = 251"
    using visitsD [OF vl z3_start_inv c(1)] assms(1,4) ag c(3) by (metis singletonD)
  obtain re z2 where 2: "z3_visit_depth S Z M 2 ?r z1 = Some (re, z2)" "int_term Z 8 re" "znum (ev \<alpha> re) = 3"
    using visitsD [OF vr 1(2) c(2)] assms(1,4) ag c(4) by (metis singletonD)
  have nb: "normalize_to_bv Z le = Some le" "normalize_to_bv Z re = Some re" using 1(3) 2(2) by (auto simp: normalize_to_bv_def is_bool_def)
  obtain e where e: "z3_binary Z Z3_mod le re = Some e" "ev \<alpha> e = ZBV 8 (bvsmod_val 8 251 3)"
    using z3_lawsD(5) [OF assms(2), of Z3_mod bvsmod_val le 8 re] 1(3,4) 2(2,3) assms(4) by (auto simp: denotes_def)
  have "z3_dispatch S Z (z3_visit_depth S Z M 2) x z3_start = Some (e, z2)"
    using 1(1) 2(1) nb e(1) by (simp add: assms(5) z3_dispatch_def z3_binop_def)
  then have "\<exists>zs. z3_visit S Z M x z3_start = Some (e, zs)"
    by (simp add: z3_visit_def hg(3) z3_start_def numeral_3_eq_3 numeral_2_eq_2)
  moreover have "beh S E x = {SInt 8 (2 ^ 8 - 2)}"
  proof -
    have "ivals S E x = {srem_val 8 251 3}"
      using int_binop_node(2) [OF assms(1) _ c(1,2), of SRem] c(3,4) by (simp add: assms(5) int_ops_def)
    moreover have "srem_val 8 251 3 = 254" by (simp add: srem_val_def to_signed_def of_signed_def signed_modulo_int_def signed_divide_int_def)
    ultimately show ?thesis using ivalsD(5) [OF assms(1) int_binop_node(1) [OF assms(1) _ c(1,2), of SRem]] by (simp add: assms(5) int_ops_def)
  qed
  moreover have "bvsmod_val 8 251 3 = 1" by (simp add: bvsmod_val_def to_signed_def of_signed_def)
  ultimately show ?thesis using e(2) by auto
qed

definition zero_assignment :: "unit assignment" where
  "zero_assignment s t = (case t of BoolSort \<Rightarrow> ZBool False | BVSort w \<Rightarrow> ZBV w 0 | _ \<Rightarrow> ZOther ())"

lemma zero_assignment_sorted: "sorted_assignment zero_assignment"
  by (auto simp: sorted_assignment_def zero_assignment_def split: z3_sort.split)

lemma z3_srem_is_modulo_witness:
  "\<exists>M x e zs. z3_visit ref_ctx ref_z3 M x z3_start = Some (e, zs) \<and> zterm_val zero_assignment e = ZBV 8 1
    \<and> beh ref_ctx default_env x = {SInt 8 254}"
proof -
  let ?l = "const_node ref_ctx (ap_make ref_ctx 8 251)" and ?r = "const_node ref_ctx (ap_make ref_ctx 8 3)"
  let ?x = "int_node SRem 8 [?l, ?r]"
  have "everywhere (alive (holding [?x, ?l, ?r])) ?x" by (simp add: holding_def int_node_def const_node_def)
  from z3_srem_is_modulo [OF default_world ref_z3_laws holding_ok zero_assignment_sorted refl this]
  show ?thesis by auto
qed

end
