(* ===== verification/Z3_Solver.thy ===== *)
theory Z3_Solver
  imports Z3_Reference Model_Eval
begin

text \<open>
  \<^verbatim>\<open>SolverResult\<close> of src/Solver/Solver.cpp, and \<^verbatim>\<open>Z3Solver\<close> and \<^verbatim>\<open>Z3Model\<close> of src/Solver/Z3Solver.cpp: a query is
  translated, given to Z3, and the model Z3 returns is read back.
\<close>

declare One_nat_def [simp del]

section \<open>Results\<close>

datatype solver_kind = UNSAT | SAT | Unknown

type_synonym 'm solver_result = "solver_kind \<times> 'm option"

definition mk_result :: "solver_kind \<Rightarrow> 'm option \<Rightarrow> 'm solver_result option" where
  "mk_result k m = do { ensure (k = SAT \<or> m = None); Some (k, m) }"

section \<open>The solver of Z3\<close>

text \<open>
  The rest of the API: checking a list of terms, the evaluation of a term in a model with completion,
  and the readings of a numeral. \<open>numeral_uint64\<close> throws when the numeral does not fit. \<open>ap_of_decimal\<close> is
  the constructor of \<^verbatim>\<open>APInt\<close> from a decimal string.
\<close>

datatype 'm z3_answer = Z3_sat 'm | Z3_unsat | Z3_unknown

record ('e, 'i, 'm) z3_solver = "('e, 'i) z3" +
  z3_check :: "'e list \<Rightarrow> 'm z3_answer"
  model_eval :: "'m \<Rightarrow> 'e \<Rightarrow> 'e"
  numeral_uint64 :: "'e \<Rightarrow> nat option"
  numeral_decimal :: "'e \<Rightarrow> string"
  ap_of_decimal :: "nat \<Rightarrow> string \<Rightarrow> 'i"
  fpa_is_nan :: "'e \<Rightarrow> bool"
  fpa_is_inf :: "'e \<Rightarrow> bool"
  fpa_significand_uint64 :: "'e \<Rightarrow> nat option"
  fpa_significand_string :: "'e \<Rightarrow> string"
  fpa_exponent_int64 :: "'e \<Rightarrow> int option"
  fpa_sign :: "'e \<Rightarrow> bool option"

section \<open>Reading numerals\<close>

definition z3_to_apint :: "('i, 'f, 'z) ctx_scheme \<Rightarrow> ('e, 'i, 'm, 'y) z3_solver_scheme \<Rightarrow> 'e \<Rightarrow> 'i option" where
  "z3_to_apint S Z e = do {
     bw \<leftarrow> bv_size Z e;
     Some (case numeral_uint64 Z e of
             Some n \<Rightarrow> ap_make S bw n
           | None \<Rightarrow> ap_of_decimal Z bw (numeral_decimal Z e)) }"

text \<open>The shift by an \<^verbatim>\<open>unsigned\<close> and \<^verbatim>\<open>setSignBit\<close> of \<^verbatim>\<open>APInt\<close>, by the shift of LLVM.\<close>

definition shl_by :: "('i, 'f, 'z) ctx_scheme \<Rightarrow> nat \<Rightarrow> 'i \<Rightarrow> nat \<Rightarrow> 'i" where
  "shl_by S w i n = ap_shl S i (ap_make S w n)"

definition z3_to_apfloat :: "('i, 'f, 'z) ctx_scheme \<Rightarrow> ('e, 'i, 'm, 'y) z3_solver_scheme \<Rightarrow> 'e \<Rightarrow> 'f option" where
  "z3_to_apfloat S Z e =
     (case get_sort Z e of
        FPASort ebits sbits \<Rightarrow> do {
          let significand =
            (if fpa_is_nan Z e then ap_max S sbits
             else case fpa_significand_uint64 Z e of
                    Some s \<Rightarrow> ap_make S sbits s
                  | None \<Rightarrow> ap_of_decimal Z sbits (fpa_significand_string Z e));
          let mantissa = ap_trunc S significand (ap_width S significand - 1);
          exponent \<leftarrow>
            (if fpa_is_nan Z e \<or> fpa_is_inf Z e then Some (ap_max S ebits)
             else do { x \<leftarrow> fpa_exponent_int64 Z e; Some (ap_make_signed S ebits x) });
          sign \<leftarrow> (if fpa_is_nan Z e then Some False else fpa_sign Z e);
          let tbits = ebits + sbits;
          let total = ap_or S (ap_zext S mantissa tbits) (shl_by S tbits (ap_zext S exponent tbits) (usub sbits 1));
          let total' = (if sign then ap_or S total (shl_by S tbits (ap_make S tbits 1) (tbits - 1)) else total);
          t \<leftarrow> float_ty ebits sbits;
          v \<leftarrow> bitcast_value S (Int_Value total') t;
          apfloat v }
      | _ \<Rightarrow> None)"

section \<open>Z3Model\<close>

type_synonym ('e, 'm) z3_model = "'m \<times> (z3_name \<Rightarrow> 'e option)"

fun read_bytes :: "('e, 'i, 'm, 'y) z3_solver_scheme \<Rightarrow> 'm \<Rightarrow> 'e \<Rightarrow> nat \<Rightarrow> nat list \<Rightarrow> byte list option" where
  "read_bytes Z m e w [] = Some []"
| "read_bytes Z m e w (i # is) = do {
     sel \<leftarrow> z3_binary Z Z3_select e (z3_bv_val Z i w);
     n \<leftarrow> numeral_uint64 Z (model_eval Z m sel);
     bs \<leftarrow> read_bytes Z m e w is;
     Some (word_of_nat n # bs) }"

definition z3_lookup :: "('i, 'f, 'z) ctx_scheme \<Rightarrow> ('e, 'i, 'm, 'y) z3_solver_scheme \<Rightarrow> ('e, 'm) z3_model \<Rightarrow>
    symbol \<Rightarrow> nat option \<Rightarrow> ('i, 'f) ir_value option" where
  "z3_lookup S Z mc s sz =
     (case mc of (m, constants) \<Rightarrow>
        (case constants (op_name s) of
           None \<Rightarrow> Some Empty_Value
         | Some e \<Rightarrow>
             (case get_sort Z e of
                BVSort _ \<Rightarrow> map_option Int_Value (z3_to_apint S Z (model_eval Z m e))
              | FPASort _ _ \<Rightarrow> map_option Float_Value (z3_to_apfloat S Z (model_eval Z m e))
              | ArraySort dt rt \<Rightarrow> do {
                  n \<leftarrow> sz;
                  w \<leftarrow> (case dt of BVSort w \<Rightarrow> Some w | _ \<Rightarrow> None);
                  ensure (rt = BVSort 8);
                  bs \<leftarrow> read_bytes Z m e w [0..<n];
                  t \<leftarrow> int_ty w;
                  value_of_array (sa_of_vector bs) t }
              | BoolSort \<Rightarrow> None)))"

section \<open>Z3Solver\<close>

text \<open>\<^verbatim>\<open>visitor.visit\<close> and \<^verbatim>\<open>solver.add\<close> for each assertion; an assertion is never empty.\<close>

fun add_assertions :: "('i, 'f, 'z) ctx_scheme \<Rightarrow> ('e, 'i, 'y) z3_scheme \<Rightarrow> ('i, 'f) op memory \<Rightarrow> ('i, 'f) assertion list \<Rightarrow>
    'e z3_state \<Rightarrow> 'e z3_state option" where
  "add_assertions S Z M [] zs = Some zs"
| "add_assertions S Z M (a # as) zs = do {
     (e, zs1) \<leftarrow> z3_visit S Z M a zs;
     b \<leftarrow> normalize_to_bool Z e;
     add_assertions S Z M as (zs1\<lparr>solver_terms := solver_terms zs1 @ [b]\<rparr>) }"

definition al_assertions :: "('i, 'f) assertion_list \<Rightarrow> ('i, 'f) assertion list option" where
  "al_assertions al = those (map (al_get al) (sv_iterate (al_list al) (sv_begin (al_list al))))"

definition z3_resolve :: "('i, 'f, 'z) ctx_scheme \<Rightarrow> ('e, 'i, 'm, 'y) z3_solver_scheme \<Rightarrow> ('i, 'f) op memory \<Rightarrow>
    ('i, 'f) assertion_list \<Rightarrow> ('i, 'f) assertion \<Rightarrow> ('e, 'm) z3_model solver_result option" where
  "z3_resolve S Z M al extra =
     (if is_constant_value S extra False then mk_result UNSAT None
      else do {
        as \<leftarrow> al_assertions al;
        if list_ex (\<lambda>a. is_constant_value S a False) as then mk_result UNSAT None
        else do {
          zs \<leftarrow> add_assertions S Z M as z3_start;
          zs' \<leftarrow> (if \<not> is_constant_value S extra True then add_assertions S Z M [extra] zs else Some zs);
          (case z3_check Z (solver_terms zs') of
             Z3_sat m \<Rightarrow> mk_result SAT (Some (m, const_map zs'))
           | Z3_unsat \<Rightarrow> mk_result UNSAT None
           | Z3_unknown \<Rightarrow> mk_result Unknown None) } })"

text \<open>\<open>mem al extra\<close> is the memory during a call with these arguments.\<close>

definition z3_solver_check :: "('i, 'f, 'z) ctx_scheme \<Rightarrow> ('e, 'i, 'm, 'y) z3_solver_scheme \<Rightarrow>
    (('i, 'f) assertion_list \<Rightarrow> ('i, 'f) assertion \<Rightarrow> ('i, 'f) op memory) \<Rightarrow>
    ('i, 'f) assertion_list \<Rightarrow> ('i, 'f) assertion \<Rightarrow> (('e, 'm) z3_model solver_result \<times> ('i, 'f) assertion_list) option" where
  "z3_solver_check S Z mem al extra = do {
     us \<leftarrow> unproven al;
     if us = [] \<and> is_constant_value S extra True then do { r \<leftarrow> mk_result SAT None; Some (r, al) }
     else if is_constant_value S extra False then do { r \<leftarrow> mk_result UNSAT None; Some (r, al) }
     else do {
       al1 \<leftarrow> al_insert S (constant_fold S) [extra] al;
       us1 \<leftarrow> unproven al1;
       r \<leftarrow> (if us1 = [] then mk_result SAT None
             else do { t \<leftarrow> assertion_empty S (constant_fold S); r' \<leftarrow> z3_resolve S Z (mem al1 t) al1 t; mk_result (fst r') None });
       al2 \<leftarrow> restore S (checkpoint al) al1;
       Some (r, al2) } }"

section \<open>Documented behaviour of the solver\<close>

text \<open>A model of Z3 gives the values of an assignment; a numeral that does not fit a \<^verbatim>\<open>uint64_t\<close> is read in decimal.\<close>

definition model_reads :: "('i, 'f, 'z) ctx_scheme \<Rightarrow> ('e, 'i, 'm, 'y) z3_solver_scheme \<Rightarrow> ('v assignment \<Rightarrow> 'e \<Rightarrow> 'v zval) \<Rightarrow>
    'm \<Rightarrow> 'v assignment \<Rightarrow> bool" where
  "model_reads S Z ev m \<alpha> \<longleftrightarrow>
     (\<forall>e w. get_sort Z e = BVSort w \<longrightarrow>
        get_sort Z (model_eval Z m e) = BVSort w
      \<and> (case numeral_uint64 Z (model_eval Z m e) of
           Some n \<Rightarrow> n = znum (ev \<alpha> e) \<and> n < 2 ^ 64
         | None \<Rightarrow> ap_width S (ap_of_decimal Z w (numeral_decimal Z (model_eval Z m e))) = w
                   \<and> ap_val S (ap_of_decimal Z w (numeral_decimal Z (model_eval Z m e))) = znum (ev \<alpha> e)))"

definition z3_solver_laws :: "('i, 'f, 'z) ctx_scheme \<Rightarrow> ('e, 'i, 'm, 'y) z3_solver_scheme \<Rightarrow> ('v assignment \<Rightarrow> 'e \<Rightarrow> 'v zval) \<Rightarrow> bool" where
  "z3_solver_laws S Z ev \<longleftrightarrow>
     z3_laws S Z ev
   \<and> (\<forall>es. list_all (\<lambda>e. get_sort Z e = BoolSort) es \<longrightarrow>
        (case z3_check Z es of
           Z3_unsat \<Rightarrow> \<not> (\<exists>\<alpha>. sorted_assignment \<alpha> \<and> (\<forall>e\<in>set es. ev \<alpha> e = ZBool True))
         | Z3_sat m \<Rightarrow> \<exists>\<alpha>. sorted_assignment \<alpha> \<and> (\<forall>e\<in>set es. ev \<alpha> e = ZBool True) \<and> model_reads S Z ev m \<alpha>
         | Z3_unknown \<Rightarrow> True))"

text \<open>Symbols with different names for Z3, and the assertions that a query may have.\<close>

definition z3_names :: "symbol set \<Rightarrow> bool" where
  "z3_names X \<longleftrightarrow> (\<forall>s\<in>X. name_to_symbol (op_name s) \<noteq> None) \<and> inj_on (\<lambda>s. name_to_symbol (op_name s)) X"

definition z3_query :: "('i, 'f, 'z) ctx_scheme \<Rightarrow> ('i, 'f) op memory \<Rightarrow> (symbol \<Rightarrow> ty) \<Rightarrow> symbol set \<Rightarrow> ('i, 'f) assertion \<Rightarrow> bool" where
  "z3_query S M st X a \<longleftrightarrow> is_i S 1 a \<and> z3_expr S st X a \<and> everywhere (alive M) a"

section \<open>Environments and assignments\<close>

lemma assignment_of_env:
  assumes W: "world_ok S E" and X: "z3_names X"
  obtains \<alpha> :: "'v assignment" where "sorted_assignment \<alpha>" "z3_agrees st X E \<alpha>"
proof -
  define zero :: "z3_sort \<Rightarrow> 'v zval" where "zero t = (case t of BoolSort \<Rightarrow> ZBool False | BVSort w \<Rightarrow> ZBV w 0 | _ \<Rightarrow> ZOther undefined)" for t
  define P where "P n w s \<longleftrightarrow> s \<in> X \<and> name_to_symbol (op_name s) = Some n \<and> (\<exists>k. sym_val E (Type Integer w) s = SInt w k \<and> k < 2 ^ w)" for n w s
  define val where "val n w = (SOME k. \<exists>s. P n w s \<and> sym_val E (Type Integer w) s = SInt w k \<and> k < 2 ^ w)" for n w
  define \<alpha> :: "'v assignment" where "\<alpha> n t = (case t of BVSort w \<Rightarrow> if \<exists>s. P n w s then ZBV w (val n w) else ZBV w 0 | _ \<Rightarrow> zero t)" for n t
  have val: "\<exists>s. P n w s \<and> sym_val E (Type Integer w) s = SInt w (val n w) \<and> val n w < 2 ^ w" if "P n w s" for n w s
    unfolding val_def by (rule someI_ex) (use that P_def in blast)
  have one: "s' = s" if "P n w s" "P n w' s'" for n w w' s s' using that X unfolding z3_names_def P_def inj_on_def by force
  have "sorted_assignment \<alpha>"
    unfolding sorted_assignment_def \<alpha>_def zero_def using val by (auto split: z3_sort.split)
  moreover have "z3_agrees st X E \<alpha>"
    unfolding z3_agrees_def
  proof (intro ballI allI impI)
    fix s w n assume s: "s \<in> X" "st s = Type Integer w" "0 < w" "w < 2 ^ 24" "name_to_symbol (op_name s) = Some n"
    then have "inhabited S (Type Integer w)" by (auto simp: inhabited_def intro: exI [of _ "SInt w 0"])
    then have "has_type S (sym_val E (Type Integer w) s) (Type Integer w)" using W by (simp add: world_ok_def senv_ok_def)
    then have p: "P n w s" using s has_type_int unfolding P_def by blast
    then obtain s' where "P n w s'" "sym_val E (Type Integer w) s' = SInt w (val n w)" using val by blast
    then show "sym_val E (st s) s = SInt w (znum (\<alpha> n (BVSort w)))" using one [OF p] p s(2) by (auto simp: \<alpha>_def)
  qed
  ultimately show thesis by (rule that)
qed

lemma env_of_assignment:
  assumes W: "world_ok S E0" and \<alpha>: "sorted_assignment \<alpha>" and n: "\<And>s. s \<in> X \<Longrightarrow> name_to_symbol (op_name s) \<noteq> None"
  obtains E where "world_ok S E" "z3_agrees st X E \<alpha>"
proof -
  define E where "E = E0\<lparr>sym_val := (\<lambda>t s.
      if s \<in> X \<and> t = st s \<and> kind t = Integer \<and> 0 < desc t \<and> desc t < 2 ^ 24
      then SInt (desc t) (znum (\<alpha> (the (name_to_symbol (op_name s))) (BVSort (desc t))))
      else sym_val E0 t s)\<rparr>"
  have "znum (\<alpha> m (BVSort w)) < 2 ^ w" for m w
    using \<alpha> unfolding sorted_assignment_def by (cases "\<alpha> m (BVSort w)") (metis zval_sort.simps(1) z3_sort.distinct(1), metis zval_sort.simps(2) z3_sort.inject(1) znum.simps(2), simp)
  then have "world_ok S E" using W unfolding world_ok_def senv_ok_def E_def
    by (auto simp: ty.expand)
  moreover have "z3_agrees st X E \<alpha>" using n by (auto simp: z3_agrees_def E_def)
  ultimately show thesis by (rule that)
qed

section \<open>Soundness of the queries\<close>

text \<open>The term added for an assertion is true exactly where its value is one.\<close>

definition asserts :: "('i, 'f, 'z) ctx_scheme \<Rightarrow> ('e, 'i, 'y) z3_scheme \<Rightarrow> ('v assignment \<Rightarrow> 'e \<Rightarrow> 'v zval) \<Rightarrow>
    (symbol \<Rightarrow> ty) \<Rightarrow> symbol set \<Rightarrow> ('i, 'f) assertion \<Rightarrow> 'e \<Rightarrow> bool" where
  "asserts S Z ev st X a t \<longleftrightarrow> get_sort Z t = BoolSort
   \<and> (\<forall>E \<alpha>. world_ok S E \<longrightarrow> sorted_assignment \<alpha> \<longrightarrow> z3_agrees st X E \<alpha> \<longrightarrow> (if ev \<alpha> t = ZBool True then 1 else 0) \<in> ivals S E a)"

lemma add_assertions_ok:
  assumes W: "world_ok S E0" and L: "z3_laws S Z ev" and M: "memory_ok M" and X: "\<And>s. s \<in> X \<Longrightarrow> name_to_symbol (op_name s) \<noteq> None"
  shows "list_all (z3_query S M st X) as \<Longrightarrow> z3_inv S Z ev st X M zs \<Longrightarrow>
    \<exists>zs' ts. add_assertions S Z M as zs = Some zs' \<and> z3_inv S Z ev st X M zs' \<and> solver_terms zs' = solver_terms zs @ ts
      \<and> list_all2 (asserts S Z ev st X) as ts \<and> known zs \<subseteq> known zs' \<and> (\<forall>a\<in>set as. snd ` syms a \<subseteq> known zs')"
proof (induction as arbitrary: zs)
  case (Cons a as)
  have a: "is_i S 1 a" "z3_expr S st X a" "everywhere (alive M) a" using Cons.prems(1) by (simp_all add: z3_query_def)
  obtain e z1 where 1: "z3_visit S Z M a zs = Some (e, z1)" "z3_inv S Z ev st X M z1" "solver_terms z1 = solver_terms zs" "int_term Z 1 e"
      "\<And>E \<alpha>. world_ok S E \<Longrightarrow> sorted_assignment \<alpha> \<Longrightarrow> z3_agrees st X E \<alpha> \<Longrightarrow> znum (ev \<alpha> e) \<in> ivals S E a"
      "known zs \<subseteq> known z1" "snd ` syms a \<subseteq> known z1"
    using visitsD [OF visit_visits [where st = st, OF W L M X a] Cons.prems(2) a(1)] by metis
  obtain b where b: "normalize_to_bool Z e = Some b" "get_sort Z b = BoolSort" "\<And>\<alpha>. sorted_assignment \<alpha> \<Longrightarrow> znum (ev \<alpha> b) = znum (ev \<alpha> e)"
    using normalize_bool [OF L 1(4)] by metis
  let ?z = "z1\<lparr>solver_terms := solver_terms z1 @ [b]\<rparr>"
  have "z3_inv S Z ev st X M ?z" using 1(2) by (simp add: z3_inv_def known_def)
  moreover have kz: "known ?z = known z1" by (simp add: known_def)
  ultimately obtain zs' ts where IH: "add_assertions S Z M as ?z = Some zs'" "z3_inv S Z ev st X M zs'" "solver_terms zs' = solver_terms zs @ b # ts"
      "list_all2 (asserts S Z ev st X) as ts" "known z1 \<subseteq> known zs'" "\<forall>a\<in>set as. snd ` syms a \<subseteq> known zs'"
    using Cons.IH [of ?z] Cons.prems(1) 1(3) by auto
  have "(if ev \<alpha> b = ZBool True then 1 else 0) = znum (ev \<alpha> e)" if "sorted_assignment \<alpha>" for \<alpha>
    using znum_sort(2) [OF L that b(2)] b(3) [OF that] by (auto simp: le_Suc_eq One_nat_def)
  then have "asserts S Z ev st X a b" using b(2) 1(5) by (simp add: asserts_def)
  then show ?case using 1(1,6,7) b(1) IH by (intro exI [of _ zs'] exI [of _ "b # ts"]) auto
qed auto

lemma asserts_true:
  assumes "asserts S Z ev st X a t" "z3_laws S Z ev" "world_ok S E" "sorted_assignment \<alpha>" "z3_agrees st X E \<alpha>" "is_i S 1 a"
  shows "holds S E a \<Longrightarrow> ev \<alpha> t = ZBool True" "ev \<alpha> t = ZBool True \<Longrightarrow> all_nodes defined_node a \<Longrightarrow> holds S E a"
proof -
  have v: "(if ev \<alpha> t = ZBool True then 1 else 0) \<in> ivals S E a" using assms(1,3-5) by (simp add: asserts_def)
  then show "holds S E a \<Longrightarrow> ev \<alpha> t = ZBool True" using holds_ivals [OF assms(3,6)] by (auto split: if_splits)
  assume "ev \<alpha> t = ZBool True" "all_nodes defined_node a"
  then have "1 \<in> ivals S E a" "at_most_one (beh S E a)" using v defined_one by auto
  then have "ivals S E a = {1}" by (auto simp: ivals_def at_most_one_def)
  then show "holds S E a" using holds_ivals [OF assms(3,6)] by simp
qed

text \<open>The constants of an integer expression are integers.\<close>

lemma z3_operands_int:
  assumes "is_i S w x" "all_nodes (scalar_node True) x" "y \<in> set (operands x)"
  shows "\<exists>k. is_i S k y"
proof -
  obtain d ops where x: "x = Operation d ops" by (cases x)
  have wt: "wt S x" "op_type x = Type Integer w" using assms(1) by (simp_all add: is_i_def)
  have ops: "list_all (wt S) ops" "wt_node S d (map op_type ops)" using wt(1) by (simp_all add: x list.pred_map)
  have "\<exists>k. op_type y = Type Integer k"
  proof (cases d)
    case (OperationData c t)
    have t: "t = Type Integer w" using wt(2) by (simp add: x OperationData op_type_def)
    have y: "op_type y \<in> set (map op_type ops)" using assms(3) by (simp add: x)
    consider "c \<in> {And, Or} \<or> arith_term c \<noteq> None" | "c \<in> {Undef, Not, Trunc, ZExt, SExt, Select}" | p where "c = ICmp p"
      using z3_opcodes [OF wt assms(2)] ops(2) by (auto simp: x OperationData op_opcode_def wt_operation_def int_ops_def float_ops_def conv_ops_def)
    then show ?thesis
    proof cases
      case 1
      then have "c \<in> int_ops" using arith_term_sem(1) [of c _ 0 1 0] by (auto simp: int_ops_def)
      then show ?thesis using ops(2) y t by (auto simp: OperationData wt_operation_int)
    next
      case 2
      then show ?thesis using ops(2) y t by (auto simp: OperationData wt_operation_def)
    next
      case 3
      then show ?thesis using ops(2) y by (auto simp: OperationData wt_operation_def)
    qed
  next
    case (ConstantData c t s)
    then show ?thesis using ops(2) assms(3) wt(2) by (auto simp: x op_type_def)
  qed (use ops(2) assms(3) x in auto)
  then show ?thesis using ops(1) assms(3) by (auto simp: is_i_def x list_all_iff)
qed

lemma z3_syms_int:
  assumes W: "world_ok S E0"
  shows "is_i S w x \<Longrightarrow> all_nodes (scalar_node True) x \<Longrightarrow> (t, s) \<in> syms x \<Longrightarrow> \<exists>k. t = Type Integer k \<and> 0 < k \<and> k < 2 ^ 24"
proof (induction x arbitrary: w)
  case (Operation d ops)
  show ?case
  proof (cases "(t, s) \<in> symbol_of d")
    case True
    then show ?thesis
      using Operation.prems(1) ivalsD(1,2) [OF W Operation.prems(1)] by (cases d) (auto simp: symbol_of_def is_i_def op_type_def split: if_splits)
  next
    case False
    then obtain y where y: "y \<in> set ops" "(t, s) \<in> syms y" using Operation.prems(3) by auto
    then obtain k where "is_i S k y" using z3_operands_int [OF Operation.prems(1,2), of y] by auto
    then show ?thesis using Operation.IH [OF y(1)] Operation.prems(2) y by (auto simp: list_all_iff)
  qed
qed

lemma al_assertions_elems: "al_assertions al = Some (elems al)"
  using get_positions [of 0 "length (elements (al_list al))" al] by (simp add: al_assertions_def all_positions elems_vals those_map_Some_id)

lemma z3_lookup_int:
  assumes W: "world_ok S E" and L: "z3_laws S Z ev" and a: "z3_agrees st X E \<alpha>" "model_reads S Z ev m \<alpha>" "sorted_assignment \<alpha>"
    and s: "s \<in> X" "st s = Type Integer w" "0 < w" "w < 2 ^ 24" and inv: "z3_inv S Z ev st X M zs" "s \<in> known zs"
  shows "\<exists>v. z3_lookup S Z (m, const_map zs) s None = Some v \<and> represents S v (sym_val E (st s) s)"
proof -
  obtain e where e: "const_map zs (op_name s) = Some e" using inv(2) by (auto simp: known_def)
  then obtain n where n: "name_to_symbol (op_name s) = Some n" "e = z3_constant Z n (BVSort w)"
    using inv(1) s(2) unfolding z3_inv_def by (fastforce simp: type_to_sort_def bitwidth_int)
  define k where "k = znum (\<alpha> n (BVSort w))"
  have d: "get_sort Z e = BVSort w" "znum (ev \<alpha> e) = k" using z3_lawsD(2) [OF L] n(2) a(3) by (simp_all add: denotes_def k_def)
  have v: "sym_val E (st s) s = SInt w k" using a(1) s n(1) unfolding z3_agrees_def k_def by metis
  have k: "k < 2 ^ w" using znum_sort(1) [OF L a(3) d(1)] d(2) by simp
  have "get_sort Z (model_eval Z m e) = BVSort w" and r: "case numeral_uint64 Z (model_eval Z m e) of Some n \<Rightarrow> n = k \<and> n < 2 ^ 64
      | None \<Rightarrow> ap_width S (ap_of_decimal Z w (numeral_decimal Z (model_eval Z m e))) = w
                \<and> ap_val S (ap_of_decimal Z w (numeral_decimal Z (model_eval Z m e))) = k"
    using a(2) d unfolding model_reads_def by auto
  then obtain i where i: "z3_to_apint S Z (model_eval Z m e) = Some i" "ap_width S i = w" "ap_val S i = k"
    using k s(3) by (cases "numeral_uint64 Z (model_eval Z m e)") (auto simp: z3_to_apint_def bv_size_def apint_lawsD [OF world_okD(3) [OF W]])
  then show ?thesis using e d(1) v by (simp add: z3_lookup_def)
qed

lemma true_literal:
  assumes "world_ok S E" "is_i S 1 a" "is_constant_value S a True"
  shows "holds S E a"
proof -
  obtain i where i: "as_const_int a = Some i" "ap_val S i = 1"
    using assms(3) by (auto simp: is_constant_value_def apint_lawsD [OF world_okD(3) [OF assms(1)]] split: option.splits)
  then show ?thesis using as_const_int_wt(3) [OF assms(1,2) i(1)] holds_ivals [OF assms(1,2)] by simp
qed

lemma list_all2_members:
  assumes "list_all2 P xs ys"
  shows "y \<in> set ys \<Longrightarrow> \<exists>x\<in>set xs. P x y" "x \<in> set xs \<Longrightarrow> \<exists>y\<in>set ys. P x y"
  using assms by (induction rule: list_all2_induct) auto

text \<open>What a result says of the assertions and the extra assertion.\<close>

definition resolve_sound :: "('i, 'f, 'z) ctx_scheme \<Rightarrow> ('e, 'i, 'm, 'y) z3_solver_scheme \<Rightarrow> ('i, 'f) assertion_list \<Rightarrow> ('i, 'f) assertion \<Rightarrow>
    ('e, 'm) z3_model solver_result \<Rightarrow> bool" where
  "resolve_sound S Z al extra r \<longleftrightarrow>
     (fst r = UNSAT \<longrightarrow> (\<forall>E\<in>al_models S al. \<not> holds S E extra))
   \<and> (\<forall>mc. snd r = Some mc \<longrightarrow> list_all (all_nodes defined_node) (extra # elems al) \<longrightarrow>
        (\<exists>E\<in>al_models S al. holds S E extra
           \<and> (\<forall>a\<in>set (elems al). \<forall>(t, s)\<in>syms a. \<exists>v. z3_lookup S Z mc s None = Some v \<and> represents S v (sym_val E t s))))
   \<and> (fst r = SAT \<longleftrightarrow> snd r \<noteq> None)"

lemma resolve_sound_kinds:
  "resolve_sound S Z al extra (UNSAT, None) \<longleftrightarrow> (\<forall>E\<in>al_models S al. \<not> holds S E extra)"
  "resolve_sound S Z al extra (Unknown, None)"
  "resolve_sound S Z al extra (SAT, Some mc) \<longleftrightarrow> (list_all (all_nodes defined_node) (extra # elems al) \<longrightarrow>
     (\<exists>E\<in>al_models S al. holds S E extra
        \<and> (\<forall>a\<in>set (elems al). \<forall>(t, s)\<in>syms a. \<exists>v. z3_lookup S Z mc s None = Some v \<and> represents S v (sym_val E t s))))"
  unfolding resolve_sound_def by simp_all

lemma z3_resolve_ok:
  fixes ev :: "'v assignment \<Rightarrow> 'e \<Rightarrow> 'v zval"
  assumes W: "world_ok S E0" and L: "z3_solver_laws S Z ev" and M: "memory_ok M" and X: "z3_names X"
    and q: "list_all (z3_query S M st X) (extra # elems al)"
  shows "\<exists>r. z3_resolve S Z M al extra = Some r \<and> resolve_sound S Z al extra r"
proof -
  have i: "is_i S 1 extra" "list_all (is_i S 1) (elems al)" using q by (auto simp: z3_query_def list_all_iff)
  have n: "\<And>s. s \<in> X \<Longrightarrow> name_to_symbol (op_name s) \<noteq> None" using X by (simp add: z3_names_def)
  have L1: "z3_laws S Z ev" using L by (simp add: z3_solver_laws_def)
  have false: "\<not> holds S E a" if "is_constant_value S a False" "is_i S 1 a" "world_ok S E" for a E using false_literal(5) [OF that(3,2,1)] .
  show ?thesis
  proof (cases "is_constant_value S extra False \<or> list_ex (\<lambda>a. is_constant_value S a False) (elems al)")
    case True
    then have u: "\<forall>E\<in>al_models S al. \<not> holds S E extra"
    proof
      assume c: "is_constant_value S extra False"
      show ?thesis using false [OF c i(1)] by (simp add: al_models_def)
    next
      assume "list_ex (\<lambda>a. is_constant_value S a False) (elems al)"
      then obtain a where a: "a \<in> set (elems al)" "is_constant_value S a False" by (auto simp: list_ex_iff)
      then have "is_i S 1 a" using i(2) by (simp add: list_all_iff)
      then show ?thesis using false [OF a(2)] a(1) by (auto simp: al_models_def)
    qed
    have "z3_resolve S Z M al extra = Some (UNSAT, None)" using True by (cases "is_constant_value S extra False") (simp_all add: z3_resolve_def mk_result_def al_assertions_elems)
    then show ?thesis using u resolve_sound_kinds(1) by blast
  next
    case False
    have qs: "list_all (z3_query S M st X) (elems al)" using q by simp
    obtain zs ts where 1: "add_assertions S Z M (elems al) z3_start = Some zs" "z3_inv S Z ev st X M zs"
        "solver_terms zs = solver_terms z3_start @ ts"
        "list_all2 (asserts S Z ev st X) (elems al) ts" "\<forall>a\<in>set (elems al). snd ` syms a \<subseteq> known zs"
      using add_assertions_ok [where st = st, OF W L1 M n qs z3_start_inv] by blast
    have st: "solver_terms zs = ts" using 1(3) by (simp add: z3_start_def)
    define as where "as = (if is_constant_value S extra True then [] else [extra])"
    have "list_all (z3_query S M st X) as" using q by (simp add: as_def)
    from add_assertions_ok [where st = st, OF W L1 M n this 1(2)] obtain zs' us where
      2: "add_assertions S Z M as zs = Some zs'" "z3_inv S Z ev st X M zs'" "solver_terms zs' = ts @ us"
        "list_all2 (asserts S Z ev st X) as us" "known zs \<subseteq> known zs'" unfolding st by blast
    have run: "z3_resolve S Z M al extra = (case z3_check Z (ts @ us) of
             Z3_sat m \<Rightarrow> mk_result SAT (Some (m, const_map zs')) | Z3_unsat \<Rightarrow> mk_result UNSAT None | Z3_unknown \<Rightarrow> mk_result Unknown None)"
    proof -
      have "(if \<not> is_constant_value S extra True then add_assertions S Z M [extra] zs else Some zs) = Some zs'"
        using 2(1) by (cases "is_constant_value S extra True") (simp_all add: as_def del: add_assertions.simps(2))
      then show ?thesis using False 1(1) 2(3) by (simp add: z3_resolve_def al_assertions_elems del: add_assertions.simps(2))
    qed
    have all: "list_all2 (asserts S Z ev st X) (elems al @ as) (ts @ us)" using 1(4) 2(4) by (rule list_all2_appendI)
    have bools: "list_all (\<lambda>t. get_sort Z t = BoolSort) (ts @ us)"
      using all by (auto simp: list_all2_conv_all_nth list_all_length asserts_def)
    have ia: "list_all (is_i S 1) (elems al @ as)" using i by (auto simp: as_def)
    have tm: "t \<in> set (ts @ us) \<Longrightarrow> \<exists>a\<in>set (elems al @ as). asserts S Z ev st X a t" "a \<in> set (elems al @ as) \<Longrightarrow> \<exists>t\<in>set (ts @ us). asserts S Z ev st X a t" for a t
      using list_all2_members [OF all] by blast+
    have check: "case z3_check Z (ts @ us) of
           Z3_unsat \<Rightarrow> \<not> (\<exists>\<alpha>. sorted_assignment \<alpha> \<and> (\<forall>e\<in>set (ts @ us). ev \<alpha> e = ZBool True))
         | Z3_sat m \<Rightarrow> \<exists>\<alpha>. sorted_assignment \<alpha> \<and> (\<forall>e\<in>set (ts @ us). ev \<alpha> e = ZBool True) \<and> model_reads S Z ev m \<alpha>
         | Z3_unknown \<Rightarrow> True"
      using L bools unfolding z3_solver_laws_def by blast
    show ?thesis
    proof (cases "z3_check Z (ts @ us)")
      case (Z3_sat m)
      then obtain \<alpha> where \<alpha>: "sorted_assignment \<alpha>" "\<And>t. t \<in> set (ts @ us) \<Longrightarrow> ev \<alpha> t = ZBool True" "model_reads S Z ev m \<alpha>" using check by auto
      obtain E where E: "world_ok S E" "z3_agrees st X E \<alpha>" by (rule env_of_assignment [OF W \<alpha>(1) n])
      have u: "\<exists>E\<in>al_models S al. holds S E extra
           \<and> (\<forall>a\<in>set (elems al). \<forall>(t, s)\<in>syms a. \<exists>v. z3_lookup S Z (m, const_map zs') s None = Some v \<and> represents S v (sym_val E t s))"
        if d: "list_all (all_nodes defined_node) (extra # elems al)"
      proof (intro bexI [of _ E] conjI ballI)
        have h: "holds S E a" if m: "a \<in> set (elems al @ as)" for a
        proof -
          obtain t where "t \<in> set (ts @ us)" "asserts S Z ev st X a t" using tm(2) [OF m] by blast
          moreover have "all_nodes defined_node a" "is_i S 1 a" using d ia m by (auto simp: list_all_iff as_def split: if_splits)
          ultimately show ?thesis using asserts_true(2) [OF _ L1 E(1) \<alpha>(1) E(2)] \<alpha>(2) by blast
        qed
        then show "E \<in> al_models S al" using E(1) by (simp add: al_models_def)
        show "holds S E extra" using h true_literal [OF E(1) i(1)] by (cases "is_constant_value S extra True") (auto simp: as_def)
        fix a p assume a: "a \<in> set (elems al)" "p \<in> syms a"
        obtain t s where p: "p = (t, s)" by (cases p)
        have qa: "is_i S 1 a" "z3_expr S st X a" using q a(1) by (auto simp: list_all_iff z3_query_def)
        then have sx: "t = st s" "s \<in> X" using a(2) p by (auto simp: z3_expr_def)
        obtain k where k: "t = Type Integer k" "0 < k" "k < 2 ^ 24"
          using z3_syms_int [OF W qa(1)] qa(2) a(2) p unfolding z3_expr_def by metis
        have "s \<in> known zs'" using 1(5) 2(5) a p by force
        from z3_lookup_int [OF E(1) L1 E(2) \<alpha>(3,1) sx(2) _ k(2,3) 2(2) this] k(1) sx(1)
        show "case p of (t, s) \<Rightarrow> \<exists>v. z3_lookup S Z (m, const_map zs') s None = Some v \<and> represents S v (sym_val E t s)" by (simp add: p)
      qed
      have "z3_resolve S Z M al extra = Some (SAT, Some (m, const_map zs'))" using run Z3_sat by (simp add: mk_result_def)
      then show ?thesis using u resolve_sound_kinds(3) by blast
    next
      case Z3_unsat
      have "\<not> holds S E extra" if E: "E \<in> al_models S al" for E
      proof
        assume h: "holds S E extra"
        have w: "world_ok S E" using E by (simp add: al_models_def)
        obtain \<alpha> :: "'v assignment" where \<alpha>: "sorted_assignment \<alpha>" "z3_agrees st X E \<alpha>" by (rule assignment_of_env [OF w X])
        have "ev \<alpha> t = ZBool True" if m: "t \<in> set (ts @ us)" for t
        proof -
          obtain a where a: "a \<in> set (elems al @ as)" "asserts S Z ev st X a t" using tm(1) [OF m] by blast
          moreover have "holds S E a" using a(1) h E by (auto simp: al_models_def as_def split: if_splits)
          ultimately show ?thesis using asserts_true(1) [OF a(2) L1 w \<alpha>] ia by (auto simp: list_all_iff)
        qed
        then show False using check Z3_unsat \<alpha>(1) by auto
      qed
      then have u: "\<forall>E\<in>al_models S al. \<not> holds S E extra" by blast
      moreover have "z3_resolve S Z M al extra = Some (UNSAT, None)" using run Z3_unsat by (simp add: mk_result_def)
      ultimately show ?thesis using resolve_sound_kinds(1) by blast
    next
      case Z3_unknown
      then have "z3_resolve S Z M al extra = Some (Unknown, None)" using run by (simp add: mk_result_def)
      then show ?thesis using resolve_sound_kinds(2) by blast
    qed
  qed
qed

section \<open>Lists of boolean integer expressions\<close>

definition int_symbols :: "(symbol \<Rightarrow> ty) \<Rightarrow> symbol set" where
  "int_symbols st = {s. \<exists>w. st s = Type Integer w}"

text \<open>The nodes of the arguments of a call are alive during the call, each at an address of its own.\<close>

definition nodes_alive :: "(('i, 'f) assertion_list \<Rightarrow> ('i, 'f) assertion \<Rightarrow> ('i, 'f) op memory) \<Rightarrow> bool" where
  "nodes_alive mem \<longleftrightarrow> (\<forall>al extra. memory_ok (mem al extra) \<and> list_all (everywhere (alive (mem al extra))) (extra # elems al))"

lemma bool_query:
  assumes "world_ok S E0" "bool_expr S True st a" "everywhere (alive M) a"
  shows "z3_query S M st (int_symbols st) a"
proof -
  have a: "is_i S 1 a" "all_nodes (scalar_node True) a" "\<And>t s. (t, s) \<in> syms a \<Longrightarrow> t = st s" using assms(2) by (auto simp: bool_expr_def)
  have "t = st s \<and> s \<in> int_symbols st" if "(t, s) \<in> syms a" for t s
    using z3_syms_int [OF assms(1) a(1,2) that] a(3) [OF that] by (auto simp: int_symbols_def)
  then show ?thesis using a(1,2) assms(3) by (auto simp: z3_query_def z3_expr_def is_i_def)
qed

lemma bool_queries:
  assumes "world_ok S E0" "list_all (bool_expr S True st) (extra # elems al)" "nodes_alive mem"
  shows "list_all (z3_query S (mem al extra) st (int_symbols st)) (extra # elems al)" "memory_ok (mem al extra)"
  using assms(2,3) bool_query [OF assms(1)] unfolding nodes_alive_def list_all_iff by blast+

lemma no_unproven:
  assumes "al_wf S al"
  obtains us where "unproven al = Some us" "us = [] \<longleftrightarrow> unproven_part al = []"
proof -
  have "those xs = Some ys \<Longrightarrow> length xs = length ys" for xs :: "('i, 'f) op option list" and ys
    by (induction xs arbitrary: ys) (auto split: option.splits)
  then show thesis using part_positions [OF assms] that by (metis length_0_conv length_map)
qed

lemma empty_assertion:
  assumes W: "world_ok S E"
  obtains t where "assertion_empty S (constant_fold S) = Some t" "is_i S 1 t" "bool_expr S ints st t" "is_constant_value S t True" "all_nodes defined_node t"
proof -
  let ?t = "const_node S (ap_make S 1 1)"
  note L = apint_lawsD [OF world_okD(3) [OF W]]
  have w: "ap_width S (ap_make S 1 1) = 1" by (simp add: L)
  have i: "is_i S 1 ?t" using const_node_is_i [OF W w] by simp
  have "CreateConstantInt S (constant_fold S) (ap_make S 1 1) = Some ?t" using size_constant [OF world_okD(3) [OF W], of 1 1] by simp
  then have "assertion_empty S (constant_fold S) = Some ?t"
    using i by (simp add: assertion_empty_def assertion_constant_def mk_assertion_def is_i_def int_ty_Some)
  moreover have "bool_expr S ints st ?t" using i by (simp add: bool_expr_def) (simp add: const_node_def scalar_node_def symbol_of_def)
  moreover have "is_constant_value S ?t True" by (simp add: is_constant_value_def const_node_def as_const_int_def L)
  moreover have "all_nodes defined_node ?t" by (simp add: const_node_def defined_node_def)
  ultimately show thesis using that i by blast
qed

lemma z3_check_ok:
  assumes W: "world_ok S E0" "hash_consed S" and L: "z3_solver_laws S Z ev" and m: "nodes_alive mem" "z3_names (int_symbols st)"
    and al: "al_wf S al" "list_all (bool_expr S True st) (extra # elems al)"
  shows "\<exists>k al'. z3_solver_check S Z mem al extra = Some ((k, None), al') \<and> al_wf S al' \<and> elems al' = elems al
    \<and> (k = UNSAT \<longrightarrow> (\<forall>E\<in>al_models S al. \<not> holds S E extra))
    \<and> (k = SAT \<longrightarrow> list_all (all_nodes defined_node) (extra # elems al) \<longrightarrow> (\<exists>E. world_ok S E \<and> sat S E (proven_part al)) \<longrightarrow>
        (\<exists>E\<in>al_models S al. holds S E extra))"
proof -
  have i: "is_i S 1 extra" "list_all (bool_expr S True st) (elems al)" "list_all (bool_expr S True st) [extra]" using al(2) by (simp_all add: bool_expr_def)
  obtain us where us: "unproven al = Some us" "us = [] \<longleftrightarrow> unproven_part al = []" by (rule no_unproven [OF al(1)])
  have proven: "E \<in> al_models S al" if "unproven_part al = []" "world_ok S E" "sat S E (proven_part al)" for E
    using that elems_parts [of al] by (simp add: al_models_def)
  consider (sat) "us = []" "is_constant_value S extra True" | (unsat) "\<not> (us = [] \<and> is_constant_value S extra True)" "is_constant_value S extra False"
    | (go) "\<not> (us = [] \<and> is_constant_value S extra True)" "\<not> is_constant_value S extra False" by blast
  then show ?thesis
  proof cases
    case sat
    then have "z3_solver_check S Z mem al extra = Some ((SAT, None), al)" using us(1) by (simp add: z3_solver_check_def mk_result_def)
    moreover have "holds S E extra" if "world_ok S E" for E using true_literal [OF that i(1) sat(2)] .
    ultimately show ?thesis using al(1) us(2) sat(1) proven by (intro exI [of _ SAT] exI [of _ al]) auto
  next
    case unsat
    then have "z3_solver_check S Z mem al extra = Some ((UNSAT, None), al)" using us(1) by (auto simp: z3_solver_check_def mk_result_def)
    moreover have "\<not> holds S E extra" if "E \<in> al_models S al" for E using false_literal(5) [OF _ i(1) unsat(2)] that by (simp add: al_models_def)
    ultimately show ?thesis using al(1) by (intro exI [of _ UNSAT] exI [of _ al]) auto
  next
    case go
    obtain al1 new where 1: "al_insert S (constant_fold S) [extra] al = Some al1" "al_wf S al1" "list_all (bool_expr S True st) (elems al1)"
        "\<And>E. world_ok S E \<Longrightarrow> sat S E (elems al1) \<longleftrightarrow> sat S E (elems al) \<and> sat S E [extra]"
        "defined_list (elems al) \<Longrightarrow> defined_list [extra] \<Longrightarrow> defined_list (elems al1)" "elems al1 = elems al @ new"
      by (rule insert_bool [OF W al(1) i(2,3)]) (rule that)
    have mods: "al_models S al1 = {E \<in> al_models S al. holds S E extra}" using 1(4) by (auto simp: al_models_def)
    obtain us1 where us1: "unproven al1 = Some us1" "us1 = [] \<longleftrightarrow> unproven_part al1 = []" by (rule no_unproven [OF 1(2)])
    obtain al2 where al2: "restore S (checkpoint al) al1 = Some al2" "al_wf S al2" "elems al2 = elems al"
      using restore_ok [OF W al(1) _ 1(1)] i(1) by auto
    have "insert_ok S [extra] al al1" using al_insert_ok [OF W al(1), of "[extra]"] i(1) 1(1) by auto
    then have mark: "al_mark al1 = al_mark al" "\<exists>new. elements (al_list al1) = elements (al_list al) @ map Value new"
      by (auto simp: insert_ok_def extends_def)
    show ?thesis
    proof (cases "us1 = []")
      case True
      then have up: "unproven_part al1 = []" using us1(2) by simp
      have le: "al_mark al \<le> length (elements (al_list al))" using al(1) by (simp add: al_wf_def backing_size_def)
      have "proven_part al1 = proven_part al" using mark le by (auto simp: proven_part_def)
      moreover have "elems al1 = proven_part al1" using elems_parts [of al1] up by simp
      ultimately have "\<exists>E\<in>al_models S al. holds S E extra" if "world_ok S E" "sat S E (proven_part al)" for E
        using mods that by (auto simp: al_models_def)
      moreover have "z3_solver_check S Z mem al extra = Some ((SAT, None), al2)"
        using go us(1) 1(1) us1(1) True al2(1) by (auto simp: z3_solver_check_def mk_result_def simp del: al_insert.simps)
      ultimately show ?thesis using al2(2,3) by (intro exI [of _ SAT] exI [of _ al2]) blast
    next
      case False
      obtain t where t: "assertion_empty S (constant_fold S) = Some t" "is_i S 1 t" "bool_expr S True st t" "is_constant_value S t True" "all_nodes defined_node t"
        by (rule empty_assertion [OF W(1)])
      have "list_all (bool_expr S True st) (t # elems al1)" using 1(3) t(3) by simp
      from bool_queries [OF W(1) this m(1)] obtain r where r: "z3_resolve S Z (mem al1 t) al1 t = Some r" "resolve_sound S Z al1 t r"
        using z3_resolve_ok [OF W(1) L _ m(2)] by blast
      have "z3_solver_check S Z mem al extra = Some ((fst r, None), al2)"
        using go us(1) 1(1) us1(1) False al2(1) t(1) r(1) by (auto simp: z3_solver_check_def mk_result_def simp del: al_insert.simps)
      moreover have "\<forall>E\<in>al_models S al. \<not> holds S E extra" if "fst r = UNSAT"
      proof (intro ballI notI)
        fix E assume E: "E \<in> al_models S al" "holds S E extra"
        then have "E \<in> al_models S al1" "holds S E t" using mods true_literal [OF _ t(2,4)] by (simp_all add: al_models_def)
        then show False using r(2) that unfolding resolve_sound_def by blast
      qed
      moreover have "\<exists>E\<in>al_models S al. holds S E extra" if "fst r = SAT" "list_all (all_nodes defined_node) (extra # elems al)"
      proof -
        have "list_all (all_nodes defined_node) (t # elems al1)" using that(2) 1(5) t(5) by (simp add: list_all_iff)
        then show ?thesis using r(2) that(1) mods by (fastforce simp: resolve_sound_def)
      qed
      ultimately show ?thesis using al2(2,3) by (intro exI [of _ "fst r"] exI [of _ al2]) blast
    qed
  qed
qed

section \<open>A reference solver\<close>

text \<open>
  It tries the assignment of zeros, and knows a term without constants that is false to be
  unsatisfiable.
\<close>

primrec ground :: "zterm \<Rightarrow> bool" where
  "ground (TConst s t) \<longleftrightarrow> False"
| "ground (TVal n w) \<longleftrightarrow> True"
| "ground (TString s w) \<longleftrightarrow> True"
| "ground (TZero t) \<longleftrightarrow> True"
| "ground (TUn u a) \<longleftrightarrow> ground a"
| "ground (TBin f a b) \<longleftrightarrow> ground a \<and> ground b"
| "ground (TTern f c a b) \<longleftrightarrow> ground c \<and> ground a \<and> ground b"

lemma ground_val: "ground e \<Longrightarrow> zterm_val \<alpha> e = zterm_val \<beta> e"
  by (induction e) auto

definition ref_z3_solver :: "(zterm, ref_int, unit assignment) z3_solver" where
  "ref_z3_solver = z3.extend ref_z3 \<lparr>
     z3_check = (\<lambda>es. if list_all (\<lambda>e. zterm_val zero_assignment e = ZBool True) es then Z3_sat zero_assignment
                      else if list_ex (\<lambda>e. ground e \<and> zterm_val zero_assignment e = ZBool False) es then Z3_unsat else Z3_unknown),
     model_eval = (\<lambda>m e. case zterm_sort e of BVSort w \<Rightarrow> TVal (znum (zterm_val m e)) w | _ \<Rightarrow> e),
     numeral_uint64 = (\<lambda>e. case e of TVal n w \<Rightarrow> if n < 2 ^ 64 then Some n else None | _ \<Rightarrow> None),
     numeral_decimal = (\<lambda>e. case e of TVal n w \<Rightarrow> digits n | _ \<Rightarrow> []),
     ap_of_decimal = (\<lambda>w s. ap_make ref_ctx w (read_digits s)),
     fpa_is_nan = (\<lambda>_. False), fpa_is_inf = (\<lambda>_. False), fpa_significand_uint64 = (\<lambda>_. None), fpa_significand_string = (\<lambda>_. []),
     fpa_exponent_int64 = (\<lambda>_. None), fpa_sign = (\<lambda>_. None)\<rparr>"

lemma ref_z3_solver_sort [simp]: "get_sort ref_z3_solver = zterm_sort"
  by (simp add: ref_z3_solver_def ref_z3_def z3.defs)

lemma ref_z3_solver_reads: "model_reads ref_ctx ref_z3_solver zterm_val zero_assignment zero_assignment"
  unfolding model_reads_def
proof (intro allI impI)
  fix e w assume e: "get_sort ref_z3_solver e = BVSort w"
  obtain n where n: "zterm_val zero_assignment e = ZBV w n" "n < 2 ^ w" using zterm_bv [OF zero_assignment_sorted] e by auto
  have m: "model_eval ref_z3_solver zero_assignment e = TVal n w" using e n(1) by (simp add: ref_z3_solver_def z3.defs)
  have fields: "numeral_uint64 ref_z3_solver (TVal n w) = (if n < 2 ^ 64 then Some n else None)"
    "ap_of_decimal ref_z3_solver w (numeral_decimal ref_z3_solver (TVal n w)) = ap_make ref_ctx w n"
    by (simp_all add: ref_z3_solver_def z3.defs read_digits)
  have w: "0 < w" if "\<not> n < 2 ^ 64" using n(2) that by (cases w) auto
  show "get_sort ref_z3_solver (model_eval ref_z3_solver zero_assignment e) = BVSort w
      \<and> (case numeral_uint64 ref_z3_solver (model_eval ref_z3_solver zero_assignment e) of
         Some n \<Rightarrow> n = znum (zterm_val zero_assignment e) \<and> n < 2 ^ 64
       | None \<Rightarrow> ap_width ref_ctx (ap_of_decimal ref_z3_solver w (numeral_decimal ref_z3_solver (model_eval ref_z3_solver zero_assignment e))) = w
                 \<and> ap_val ref_ctx (ap_of_decimal ref_z3_solver w (numeral_decimal ref_z3_solver (model_eval ref_z3_solver zero_assignment e))) = znum (zterm_val zero_assignment e))"
    unfolding m fields using n w apint_lawsD(2-4) [OF world_okD(3) [OF default_world]] by simp
qed

lemma ref_z3_solver_laws: "z3_solver_laws ref_ctx ref_z3_solver zterm_val"
proof -
  have "z3_laws ref_ctx ref_z3_solver zterm_val"
    using ref_z3_laws by (simp add: z3_laws_def denotes_def ref_z3_solver_def z3.defs)
  moreover have "case z3_check ref_z3_solver es of
      Z3_unsat \<Rightarrow> \<not> (\<exists>\<alpha>. sorted_assignment \<alpha> \<and> (\<forall>e\<in>set es. zterm_val \<alpha> e = ZBool True))
    | Z3_sat m \<Rightarrow> \<exists>\<alpha>. sorted_assignment \<alpha> \<and> (\<forall>e\<in>set es. zterm_val \<alpha> e = ZBool True) \<and> model_reads ref_ctx ref_z3_solver zterm_val m \<alpha>
    | Z3_unknown \<Rightarrow> True" for es
  proof -
    have "False" if "ground e" "zterm_val zero_assignment e = ZBool False" "zterm_val \<alpha> e = ZBool True" for e \<alpha>
      using ground_val [OF that(1), of zero_assignment \<alpha>] that(2,3) by simp
    then have "\<not> (\<exists>\<alpha>. sorted_assignment \<alpha> \<and> (\<forall>e\<in>set es. zterm_val \<alpha> e = ZBool True))"
      if "list_ex (\<lambda>e. ground e \<and> zterm_val zero_assignment e = ZBool False) es" using that unfolding list_ex_iff by metis
    then show ?thesis using zero_assignment_sorted ref_z3_solver_reads by (auto simp: ref_z3_solver_def z3.defs list_all_iff)
  qed
  ultimately show ?thesis unfolding z3_solver_laws_def by blast
qed

primrec nodes_of :: "('i, 'f) op \<Rightarrow> ('i, 'f) op list" where
  "nodes_of (Operation d xs) = Operation d xs # concat (map nodes_of xs)"

definition holding_args :: "('i, 'f) assertion_list \<Rightarrow> ('i, 'f) assertion \<Rightarrow> ('i, 'f) op memory" where
  "holding_args al extra = holding (concat (map nodes_of (extra # elems al)))"

lemma everywhere_nodes: "everywhere P x \<longleftrightarrow> (\<forall>y\<in>set (nodes_of x). P y)"
  by (induction x) (auto simp: list_all_iff)

lemma holding_args_alive: "nodes_alive holding_args"
  unfolding nodes_alive_def
proof (intro allI conjI)
  fix al :: "('i, 'f) assertion_list" and extra
  show "memory_ok (holding_args al extra)" by (simp add: holding_args_def holding_ok del: list.map concat.simps)
  show "list_all (everywhere (alive (holding_args al extra))) (extra # elems al)"
    by (auto simp: everywhere_nodes holding_args_def holding_def list_all_iff)
qed

section \<open>What the solver promises\<close>


definition chain_type :: "symbol \<Rightarrow> ty" where
  "chain_type s = (if s \<in> {Named ''x'', Named ''y''} then Type Integer 8 else Type Void 0)"

lemma chain_names: "z3_names (int_symbols chain_type)"
  by (auto simp: z3_names_def int_symbols_def chain_type_def inj_on_def op_name_def name_to_symbol_def split: if_splits)

lemma chain_queries: "list_all (bool_expr ref_ctx True chain_type) (true_assertion # elems chain_list)"
  using chain_bool by (simp add: bool_expr_def chain_elems) (simp add: chain_defs true_assertion_def scalar_node_def symbol_of_def chain_type_def)




end
