(* ===== verification/Solver_Stack.thy ===== *)
theory Solver_Stack
  imports Z3_Solver
begin

text \<open>
  The solvers that wrap another one (src/Solver/EarlyExitSolver.cpp, InterruptSolver.cpp,
  LoggingSolver.cpp, SimplifyingSolver.cpp, CanonicalizingSolver.cpp, SlicingSolver.cpp), and the
  default implementations and the \<^verbatim>\<open>SolverBuilder\<close> of src/Solver/Solver.cpp. A solver object is a value: the
  tree of the solvers it owns, with the cache of each slicer. A call returns the result, the list
  the reference argument has afterwards, the solver after the call and what it printed.
\<close>

declare One_nat_def [simp del]

section \<open>Solver objects\<close>

text \<open>An \<^verbatim>\<open>InterruptSolver\<close> holds the index of its flag.\<close>

datatype ('i, 'f) solver =
    Z3Solver
  | EarlyExitSolver "('i, 'f) solver"
  | InterruptSolver nat "('i, 'f) solver"
  | LoggingSolver "('i, 'f) solver"
  | SimplifyingSolver "('i, 'f) solver"
  | CanonicalizingSolver "('i, 'f) solver"
  | SlicingSolver "('i, 'f) slicer" "('i, 'f) solver"

datatype ('i, 'f) log_event = Log_Call | Log_Assertion "('i, 'f) assertion" | Log_Result solver_kind

text \<open>
  What a call finds around it: Z3, the memory during a call with given arguments, the order in which
  the set of the slicer is read, and the values of the flags when they are loaded.
\<close>

record ('e, 'i, 'f, 'm) surroundings =
  the_z3 :: "('e, 'i, 'm) z3_solver"
  memory_of :: "('i, 'f) assertion_list \<Rightarrow> ('i, 'f) assertion \<Rightarrow> ('i, 'f) op memory"
  set_order :: "symbol list \<Rightarrow> symbol list"
  should_stop :: "nat \<Rightarrow> bool"

type_synonym ('e, 'i, 'f, 'm) solver_call =
  "(('e, 'm) z3_model solver_result \<times> ('i, 'f) assertion_list \<times> ('i, 'f) solver \<times> ('i, 'f) log_event list) option"

definition return_kind :: "solver_kind \<Rightarrow> ('i, 'f) assertion_list \<Rightarrow> ('i, 'f) solver \<Rightarrow> ('e, 'i, 'f, 'm) solver_call" where
  "return_kind k al s = do { r \<leftarrow> mk_result k None; Some (r, al, s, []) }"

text \<open>The object around the inner solver after a call of the inner solver.\<close>

definition around :: "(('i, 'f) solver \<Rightarrow> ('i, 'f) solver) \<Rightarrow> ('e, 'i, 'f, 'm) solver_call \<Rightarrow> ('e, 'i, 'f, 'm) solver_call" where
  "around C call = do { (r, al, s, out) \<leftarrow> call; Some (r, al, C s, out) }"

section \<open>Logging\<close>

definition should_filter :: "('i, 'f, 'z) ctx_scheme \<Rightarrow> ('i, 'f) assertion_list \<Rightarrow> ('i, 'f) assertion \<Rightarrow> bool" where
  "should_filter S al extra \<longleftrightarrow>
     is_constant_value S extra False \<or> (al_is_empty al \<and> is_constant_value S extra True)"

definition log_arguments :: "('i, 'f, 'z) ctx_scheme \<Rightarrow> ('i, 'f) assertion_list \<Rightarrow> ('i, 'f) assertion \<Rightarrow> ('i, 'f) log_event list option" where
  "log_arguments S al extra = do {
     as \<leftarrow> al_assertions al;
     Some (Log_Call # map Log_Assertion as @ (if \<not> is_constant_value S extra True then [Log_Assertion extra] else [])) }"

definition log_result :: "'m solver_result \<Rightarrow> ('i, 'f) log_event list" where
  "log_result r = [Log_Result (fst r)]"

section \<open>Transforming solvers\<close>

definition SimplifyingSolver_transform :: "('i, 'f, 'z) ctx_scheme \<Rightarrow> ('i, 'f) assertion_list \<Rightarrow> ('i, 'f) assertion \<Rightarrow>
    (solver_kind \<times> ('i, 'f) assertion_list) option" where
  "SimplifyingSolver_transform S al extra = do { al' \<leftarrow> simplify S (constant_fold S) al; Some (Unknown, al') }"

definition CanonicalizingSolver_transform :: "('i, 'f, 'z) ctx_scheme \<Rightarrow> ('i, 'f) assertion_list \<Rightarrow> ('i, 'f) assertion \<Rightarrow>
    (solver_kind \<times> ('i, 'f) assertion_list) option" where
  "CanonicalizingSolver_transform S al extra = do { al' \<leftarrow> canonicalize S (constant_fold S) al; Some (Unknown, al') }"

section \<open>The methods of each class\<close>

text \<open>\<open>call\<close> is the method of the solver \<open>inner\<close> that the object owns.\<close>

definition EarlyExitSolver_check :: "('i, 'f, 'z) ctx_scheme \<Rightarrow> (('i, 'f) assertion_list \<Rightarrow> ('i, 'f) assertion \<Rightarrow> ('e, 'i, 'f, 'm) solver_call) \<Rightarrow> ('i, 'f) solver \<Rightarrow>
    ('i, 'f) assertion_list \<Rightarrow> ('i, 'f) assertion \<Rightarrow> ('e, 'i, 'f, 'm) solver_call" where
  "EarlyExitSolver_check S call inner al extra =
     (if is_constant_value S extra False then return_kind UNSAT al (EarlyExitSolver inner)
      else do {
        us \<leftarrow> unproven al;
        if us = [] \<and> is_constant_value S extra True then return_kind SAT al (EarlyExitSolver inner)
        else around EarlyExitSolver (call al extra) })"

definition EarlyExitSolver_resolve :: "('i, 'f, 'z) ctx_scheme \<Rightarrow> (('i, 'f) assertion_list \<Rightarrow> ('i, 'f) assertion \<Rightarrow> ('e, 'i, 'f, 'm) solver_call) \<Rightarrow> ('i, 'f) solver \<Rightarrow>
    ('i, 'f) assertion_list \<Rightarrow> ('i, 'f) assertion \<Rightarrow> ('e, 'i, 'f, 'm) solver_call" where
  "EarlyExitSolver_resolve S call inner al extra =
     (if is_constant_value S extra False then return_kind UNSAT al (EarlyExitSolver inner)
      else around EarlyExitSolver (call al extra))"

definition InterruptSolver_check :: "bool \<Rightarrow> nat \<Rightarrow> (('i, 'f) assertion_list \<Rightarrow> ('i, 'f) assertion \<Rightarrow> ('e, 'i, 'f, 'm) solver_call) \<Rightarrow> ('i, 'f) solver \<Rightarrow>
    ('i, 'f) assertion_list \<Rightarrow> ('i, 'f) assertion \<Rightarrow> ('e, 'i, 'f, 'm) solver_call" where
  "InterruptSolver_check stop n call inner al extra =
     (if stop then return_kind Unknown al (InterruptSolver n inner)
      else around (InterruptSolver n) (call al extra))"

definition InterruptSolver_resolve :: "bool \<Rightarrow> nat \<Rightarrow> (('i, 'f) assertion_list \<Rightarrow> ('i, 'f) assertion \<Rightarrow> ('e, 'i, 'f, 'm) solver_call) \<Rightarrow> ('i, 'f) solver \<Rightarrow>
    ('i, 'f) assertion_list \<Rightarrow> ('i, 'f) assertion \<Rightarrow> ('e, 'i, 'f, 'm) solver_call" where
  "InterruptSolver_resolve stop n call inner al extra =
     (if stop then return_kind Unknown al (InterruptSolver n inner)
      else around (InterruptSolver n) (call al extra))"

definition LoggingSolver_check :: "('i, 'f, 'z) ctx_scheme \<Rightarrow> (('i, 'f) assertion_list \<Rightarrow> ('i, 'f) assertion \<Rightarrow> ('e, 'i, 'f, 'm) solver_call) \<Rightarrow> ('i, 'f) solver \<Rightarrow>
    ('i, 'f) assertion_list \<Rightarrow> ('i, 'f) assertion \<Rightarrow> ('e, 'i, 'f, 'm) solver_call" where
  "LoggingSolver_check S call inner al extra =
     do {
       let filtered = should_filter S al extra;
       before \<leftarrow> (if \<not> filtered then log_arguments S al extra else Some []);
       (r, al', s, out) \<leftarrow> call al extra;
       Some (r, al', LoggingSolver s, before @ out @ (if \<not> filtered then log_result r else [])) }"

definition LoggingSolver_resolve :: "('i, 'f, 'z) ctx_scheme \<Rightarrow> (('i, 'f) assertion_list \<Rightarrow> ('i, 'f) assertion \<Rightarrow> ('e, 'i, 'f, 'm) solver_call) \<Rightarrow> ('i, 'f) solver \<Rightarrow>
    ('i, 'f) assertion_list \<Rightarrow> ('i, 'f) assertion \<Rightarrow> ('e, 'i, 'f, 'm) solver_call" where
  "LoggingSolver_resolve S call inner al extra =
     do {
       let filtered = should_filter S al extra;
       before \<leftarrow> (if \<not> filtered then log_arguments S al extra else Some []);
       (r, al', s, out) \<leftarrow> call al extra;
       Some (r, al', LoggingSolver s, before @ out @ (if \<not> filtered then log_result r else [])) }"

text \<open>\<open>C\<close> is the derived class, with its method \<open>transform\<close>.\<close>

definition TransformSolver_check :: "(('i, 'f) assertion_list \<Rightarrow> ('i, 'f) assertion \<Rightarrow> (solver_kind \<times> ('i, 'f) assertion_list) option) \<Rightarrow> (('i, 'f) solver \<Rightarrow> ('i, 'f) solver) \<Rightarrow>
    (('i, 'f) assertion_list \<Rightarrow> ('i, 'f) assertion \<Rightarrow> ('e, 'i, 'f, 'm) solver_call) \<Rightarrow> ('i, 'f) solver \<Rightarrow>
    ('i, 'f) assertion_list \<Rightarrow> ('i, 'f) assertion \<Rightarrow> ('e, 'i, 'f, 'm) solver_call" where
  "TransformSolver_check transform C call inner al extra =
     do {
       (k, al') \<leftarrow> transform al extra;
       (case k of
          SAT \<Rightarrow> None
        | UNSAT \<Rightarrow> return_kind UNSAT al' (C inner)
        | Unknown \<Rightarrow> around C (call al' extra)) }"

definition TransformSolver_resolve :: "(('i, 'f) assertion_list \<Rightarrow> ('i, 'f) assertion \<Rightarrow> (solver_kind \<times> ('i, 'f) assertion_list) option) \<Rightarrow> (('i, 'f) solver \<Rightarrow> ('i, 'f) solver) \<Rightarrow>
    (('i, 'f) assertion_list \<Rightarrow> ('i, 'f) assertion \<Rightarrow> ('e, 'i, 'f, 'm) solver_call) \<Rightarrow> ('i, 'f) solver \<Rightarrow>
    ('i, 'f) assertion_list \<Rightarrow> ('i, 'f) assertion \<Rightarrow> ('e, 'i, 'f, 'm) solver_call" where
  "TransformSolver_resolve transform C call inner al extra =
     do {
       (k, al') \<leftarrow> transform al extra;
       (case k of
          SAT \<Rightarrow> None
        | UNSAT \<Rightarrow> return_kind UNSAT al' (C inner)
        | Unknown \<Rightarrow> around C (call al' extra)) }"

definition SlicingSolver_check :: "('i, 'f, 'z) ctx_scheme \<Rightarrow> ('i, 'f) op memory \<Rightarrow> (symbol list \<Rightarrow> symbol list) \<Rightarrow> ('i, 'f) slicer \<Rightarrow>
    (('i, 'f) assertion_list \<Rightarrow> ('i, 'f) assertion \<Rightarrow> ('e, 'i, 'f, 'm) solver_call) \<Rightarrow>
    ('i, 'f) assertion_list \<Rightarrow> ('i, 'f) assertion \<Rightarrow> ('e, 'i, 'f, 'm) solver_call" where
  "SlicingSolver_check S M order c call al extra = do {
     (c', l) \<leftarrow> slice_list S (constant_fold S) M order c al extra;
     (r, _, inner', out) \<leftarrow> call l extra;
     Some (r, al, SlicingSolver c' inner', out) }"

definition SlicingSolver_resolve :: "('i, 'f) slicer \<Rightarrow> (('i, 'f) assertion_list \<Rightarrow> ('i, 'f) assertion \<Rightarrow> ('e, 'i, 'f, 'm) solver_call) \<Rightarrow>
    ('i, 'f) assertion_list \<Rightarrow> ('i, 'f) assertion \<Rightarrow> ('e, 'i, 'f, 'm) solver_call" where
  "SlicingSolver_resolve c call al extra = around (SlicingSolver c) (call al extra)"

section \<open>Calls\<close>

primrec solver_check :: "('i, 'f, 'z) ctx_scheme \<Rightarrow> ('e, 'i, 'f, 'm) surroundings \<Rightarrow> ('i, 'f) solver \<Rightarrow>
    ('i, 'f) assertion_list \<Rightarrow> ('i, 'f) assertion \<Rightarrow> ('e, 'i, 'f, 'm) solver_call" where
  "solver_check S W Z3Solver = (\<lambda>al extra. do {
     (r, al') \<leftarrow> z3_solver_check S (the_z3 W) (memory_of W) al extra;
     Some (r, al', Z3Solver, []) })"
| "solver_check S W (EarlyExitSolver inner) = EarlyExitSolver_check S (solver_check S W inner) inner"
| "solver_check S W (InterruptSolver n inner) = InterruptSolver_check (should_stop W n) n (solver_check S W inner) inner"
| "solver_check S W (LoggingSolver inner) = LoggingSolver_check S (solver_check S W inner) inner"
| "solver_check S W (SimplifyingSolver inner) =
     TransformSolver_check (SimplifyingSolver_transform S) SimplifyingSolver (solver_check S W inner) inner"
| "solver_check S W (CanonicalizingSolver inner) =
     TransformSolver_check (CanonicalizingSolver_transform S) CanonicalizingSolver (solver_check S W inner) inner"
| "solver_check S W (SlicingSolver c inner) =
     (\<lambda>al extra. SlicingSolver_check S (memory_of W al extra) (set_order W) c (solver_check S W inner) al extra)"

primrec solver_resolve :: "('i, 'f, 'z) ctx_scheme \<Rightarrow> ('e, 'i, 'f, 'm) surroundings \<Rightarrow> ('i, 'f) solver \<Rightarrow>
    ('i, 'f) assertion_list \<Rightarrow> ('i, 'f) assertion \<Rightarrow> ('e, 'i, 'f, 'm) solver_call" where
  "solver_resolve S W Z3Solver = (\<lambda>al extra. do {
     r \<leftarrow> z3_resolve S (the_z3 W) (memory_of W al extra) al extra;
     Some (r, al, Z3Solver, []) })"
| "solver_resolve S W (EarlyExitSolver inner) = EarlyExitSolver_resolve S (solver_resolve S W inner) inner"
| "solver_resolve S W (InterruptSolver n inner) = InterruptSolver_resolve (should_stop W n) n (solver_resolve S W inner) inner"
| "solver_resolve S W (LoggingSolver inner) = LoggingSolver_resolve S (solver_resolve S W inner) inner"
| "solver_resolve S W (SimplifyingSolver inner) =
     TransformSolver_resolve (SimplifyingSolver_transform S) SimplifyingSolver (solver_resolve S W inner) inner"
| "solver_resolve S W (CanonicalizingSolver inner) =
     TransformSolver_resolve (CanonicalizingSolver_transform S) CanonicalizingSolver (solver_resolve S W inner) inner"
| "solver_resolve S W (SlicingSolver c inner) = SlicingSolver_resolve c (solver_resolve S W inner)"

text \<open>\<^verbatim>\<open>interrupt\<close> is passed on to the context of Z3.\<close>

primrec solver_interrupt :: "('c \<Rightarrow> 'c) \<Rightarrow> ('i, 'f) solver \<Rightarrow> 'c \<Rightarrow> 'c" where
  "solver_interrupt z3_interrupt Z3Solver x = z3_interrupt x"
| "solver_interrupt z3_interrupt (EarlyExitSolver inner) x = solver_interrupt z3_interrupt inner x"
| "solver_interrupt z3_interrupt (InterruptSolver n inner) x = solver_interrupt z3_interrupt inner x"
| "solver_interrupt z3_interrupt (LoggingSolver inner) x = solver_interrupt z3_interrupt inner x"
| "solver_interrupt z3_interrupt (SimplifyingSolver base) x = solver_interrupt z3_interrupt base x"
| "solver_interrupt z3_interrupt (CanonicalizingSolver base) x = solver_interrupt z3_interrupt base x"
| "solver_interrupt z3_interrupt (SlicingSolver c inner) x = solver_interrupt z3_interrupt inner x"

text \<open>The default implementation of \<^verbatim>\<open>check\<close>, and the calls without an extra assertion.\<close>

definition default_check :: "('e, 'i, 'f, 'm) solver_call \<Rightarrow> ('e, 'i, 'f, 'm) solver_call" where
  "default_check resolved = do {
     ((k, _), al, s, out) \<leftarrow> resolved;
     r \<leftarrow> mk_result k None;
     Some (r, al, s, out) }"

definition check_all :: "('i, 'f, 'z) ctx_scheme \<Rightarrow> ('e, 'i, 'f, 'm) surroundings \<Rightarrow> ('i, 'f) solver \<Rightarrow>
    ('i, 'f) assertion_list \<Rightarrow> ('e, 'i, 'f, 'm) solver_call" where
  "check_all S W s al = do { t \<leftarrow> assertion_empty S (constant_fold S); solver_check S W s al t }"

definition resolve_all :: "('i, 'f, 'z) ctx_scheme \<Rightarrow> ('e, 'i, 'f, 'm) surroundings \<Rightarrow> ('i, 'f) solver \<Rightarrow>
    ('i, 'f) assertion_list \<Rightarrow> ('e, 'i, 'f, 'm) solver_call" where
  "resolve_all S W s al = do { t \<leftarrow> assertion_empty S (constant_fold S); solver_resolve S W s al t }"

section \<open>SolverBuilder\<close>

record ('i, 'f) solver_builder =
  base :: "('i, 'f) solver"
  stack :: "(('i, 'f) solver \<Rightarrow> ('i, 'f) solver) list"

definition SolverBuilder :: "('i, 'f) solver \<Rightarrow> ('i, 'f) solver_builder" where
  "SolverBuilder b = \<lparr>base = b, stack = []\<rparr>"

definition with_solver :: "(('i, 'f) solver \<Rightarrow> ('i, 'f) solver) \<Rightarrow> ('i, 'f) solver_builder \<Rightarrow> ('i, 'f) solver_builder" where
  "with_solver f B = B\<lparr>stack := stack B @ [f]\<rparr>"

definition with_default :: "('i, 'f) solver_builder" where
  "with_default =
     with_solver (SlicingSolver wm_empty) (with_solver CanonicalizingSolver (with_solver SimplifyingSolver (with_solver EarlyExitSolver
       (SolverBuilder Z3Solver))))"

definition build :: "('i, 'f) solver_builder \<Rightarrow> ('i, 'f) solver" where
  "build B = fold (\<lambda>f s. f s) (rev (stack B)) (base B)"

lemma build_with: "build (with_solver f B) = foldr (\<lambda>f s. f s) (stack B) (f (base B))"
  by (simp add: build_def with_solver_def foldr_conv_fold)

lemma build_default: "build with_default = EarlyExitSolver (SimplifyingSolver (CanonicalizingSolver (SlicingSolver wm_empty Z3Solver)))"
  by (simp add: with_default_def build_def with_solver_def SolverBuilder_def)

section \<open>Slicing keeps classes of expressions\<close>

lemma index_proven_set:
  "index_proven M order as c kn = Some (c', kn') \<Longrightarrow> set (kn' s) \<subseteq> set (kn s) \<union> set as"
proof (induction as arbitrary: c kn)
  case (Cons a as)
  then obtain c1 ss where "index_proven M order as c1 (push_known a ss kn) = Some (c', kn')"
    by (auto simp: Option.bind_eq_Some_conv)
  from Cons.IH [OF this] push_known_set [of a ss kn s] show ?case by (auto split: if_splits)
qed simp

context node_condition
begin

lemma insert_list_good:
  assumes "keeps P cf" "al_insert S cf as al = Some al'" "list_all (all_nodes P) as" "list_all (all_nodes P) (elems al)"
  shows "list_all (all_nodes P) (elems al')"
  using al_insert_good [OF assms(1-3)] assms(4) by (auto simp: list_all_iff)

lemma insert_known_good:
  assumes cf: "keeps P cf" and k: "\<And>s. list_all (all_nodes P) (kn s)"
  shows "insert_known S cf kn ss l = Some l' \<Longrightarrow> list_all (all_nodes P) (elems l) \<Longrightarrow> list_all (all_nodes P) (elems l')"
proof (induction ss arbitrary: l)
  case (Cons s ss)
  then obtain l1 where l1: "(if kn s \<noteq> [] then al_insert S cf (kn s) l else Some l) = Some l1" "insert_known S cf kn ss l1 = Some l'"
    by (auto simp: Option.bind_eq_Some_conv simp del: al_insert.simps)
  have "list_all (all_nodes P) (elems l1)"
    using l1(1) insert_list_good [OF cf _ k Cons.prems(2)] Cons.prems(2) by (auto split: if_splits simp del: al_insert.simps)
  then show ?case by (rule Cons.IH [OF l1(2)])
qed simp

lemma insert_each_good:
  assumes cf: "keeps P cf"
  shows "insert_each S cf as l = Some l' \<Longrightarrow> list_all (all_nodes P) as \<Longrightarrow> list_all (all_nodes P) (elems l) \<Longrightarrow> list_all (all_nodes P) (elems l')"
proof (induction as arbitrary: l)
  case (Cons a as)
  then obtain l1 where l1: "al_insert S cf [a] l = Some l1" "insert_each S cf as l1 = Some l'"
    by (auto simp: Option.bind_eq_Some_conv simp del: al_insert.simps)
  show ?case using Cons.IH [OF l1(2)] insert_list_good [OF cf l1(1)] Cons.prems(2,3) by simp
qed simp

lemma insert_unproven_good:
  assumes cf: "keeps P cf" and k: "\<And>s. list_all (all_nodes P) (kn s)"
  shows "insert_unproven S cf M order kn as c l = Some (c', l') \<Longrightarrow> list_all (all_nodes P) as \<Longrightarrow>
    list_all (all_nodes P) (elems l) \<Longrightarrow> list_all (all_nodes P) (elems l')"
proof (induction as arbitrary: c l)
  case (Cons a as)
  then obtain l1 c1 ss l2 where l1: "al_insert S cf [a] l = Some l1" "insert_known S cf kn ss l1 = Some l2"
      "insert_unproven S cf M order kn as c1 l2 = Some (c', l')"
    by (auto simp: Option.bind_eq_Some_conv simp del: al_insert.simps)
  show ?case
    using Cons.IH [OF l1(3)] insert_known_good [where kn = kn, OF cf k l1(2)] insert_list_good [OF cf l1(1)] Cons.prems(2,3) by simp
qed simp

lemma slice_good:
  assumes cf: "keeps P cf" and wf: "al_wf S al" and g: "list_all (all_nodes P) (elems al)" and l: "slice_list S cf M order c al extra = Some (c', l)"
  shows "list_all (all_nodes P) (elems l)"
proof -
  obtain ps us where pos: "proven al = Some ps" "those (map (al_get al) ps) = Some (proven_part al)"
    "unproven al = Some us" "those (map (al_get al) us) = Some (unproven_part al)" by (rule part_positions [OF wf])
  then obtain c1 kn c2 l1 ss l2 where r: "index_proven M order (proven_part al) c (\<lambda>_. []) = Some (c1, kn)"
      "insert_unproven S cf M order kn (unproven_part al) c1 al_empty = Some (c2, l1)" "insert_known S cf kn ss l1 = Some l2"
      "insert_each S cf (unproven_part al) l2 = Some l"
    using l by (auto simp: slice_list_def Option.bind_eq_Some_conv)
  have u: "list_all (all_nodes P) (unproven_part al)" "list_all (all_nodes P) (elems (al_empty :: ('i, 'f) assertion_list))"
    using g elems_parts [of al] by simp (simp add: elems_vals al_empty_def sv_empty_def)
  have k: "list_all (all_nodes P) (kn s)" for s
    using index_proven_set [OF r(1), of s] g by (auto simp: elems_parts list_all_iff)
  show ?thesis
    using insert_each_good [OF cf r(4) u(1)] insert_known_good [where kn = kn, OF cf k r(3)]
      insert_unproven_good [where kn = kn, OF cf k r(2) u] by blast
qed

end

lemma slice_bool:
  assumes "al_wf S al" "list_all (bool_expr S ints st) (elems al)"
    and "slice_list S (constant_fold S) M order c al extra = Some (c', l)" "al_wf S l"
  shows "list_all (bool_expr S ints st) (elems l)"
proof -
  have "list_all (all_nodes (scalar_node ints)) (elems l)"
    using scalar.slice_good [OF scalar.constant_fold_keeps assms(1) _ assms(3)] assms(2) by (auto simp: bool_expr_def list_all_iff)
  moreover have "list_all (all_nodes (symbols_in {(t, s). t = st s})) (elems l)"
    using symbols.slice_good [OF symbols.constant_fold_keeps assms(1) _ assms(3), of "{(t, s). t = st s}"] assms(2) by (auto simp: bool_expr_def list_all_iff syms_in)
  ultimately show ?thesis using assms(4) by (auto simp: bool_expr_def list_all_iff syms_in al_wf_def)
qed

section \<open>The contract of a call\<close>

definition solver_query :: "('i, 'f, 'z) ctx_scheme \<Rightarrow> (symbol \<Rightarrow> ty) \<Rightarrow> ('i, 'f) assertion_list \<Rightarrow> ('i, 'f) assertion \<Rightarrow> bool" where
  "solver_query S st al extra \<longleftrightarrow>
     (\<exists>E. world_ok S E) \<and> clz_law S \<and> hash_consed S \<and> al_wf S al \<and> list_all (bool_expr S True st) (extra # elems al)"

abbreviation defined_al :: "('i, 'f) assertion_list \<Rightarrow> bool" where
  "defined_al al \<equiv> list_all (all_nodes defined_node) (elems al)"

text \<open>A call returns, it keeps the models of the list, and UNSAT is right.\<close>

definition call_ok :: "('i, 'f, 'z) ctx_scheme \<Rightarrow> (symbol \<Rightarrow> ty) \<Rightarrow> ('i, 'f) assertion_list \<Rightarrow> ('i, 'f) assertion \<Rightarrow>
    ('e, 'i, 'f, 'm) solver_call \<Rightarrow> bool" where
  "call_ok S st al extra call \<longleftrightarrow>
     (\<exists>k m al' s out. call = Some ((k, m), al', s, out) \<and> solver_query S st al' extra
        \<and> al_models S al \<subseteq> al_models S al' \<and> (defined_al al \<longrightarrow> al_models S al' = al_models S al)
        \<and> (k = UNSAT \<longrightarrow> (\<forall>E\<in>al_models S al. \<not> holds S E extra)))"

text \<open>A call returns a model exactly with SAT, and the model is one of the list.\<close>

definition model_ok :: "('i, 'f, 'z) ctx_scheme \<Rightarrow> ('e, 'i, 'm) z3_solver \<Rightarrow> ('i, 'f) assertion_list \<Rightarrow> ('i, 'f) assertion \<Rightarrow>
    ('e, 'i, 'f, 'm) solver_call \<Rightarrow> bool" where
  "model_ok S Z al extra call \<longleftrightarrow>
     (\<forall>k m al' s out. call = Some ((k, m), al', s, out) \<longrightarrow> (k = SAT \<longleftrightarrow> m \<noteq> None)
        \<and> (\<forall>mc. m = Some mc \<longrightarrow> all_nodes defined_node extra \<longrightarrow> defined_al al \<longrightarrow>
            (\<exists>E\<in>al_models S al. holds S E extra
               \<and> (\<forall>a\<in>set (elems al'). \<forall>(t, v)\<in>syms a. \<exists>x. z3_lookup S Z mc v None = Some x \<and> represents S x (sym_val E t v)))))"

lemma call_ok_kind:
  assumes "solver_query S st al extra" "k = UNSAT \<longrightarrow> (\<forall>E\<in>al_models S al. \<not> holds S E extra)"
  shows "call_ok S st al extra (return_kind k al s)"
  using assms unfolding call_ok_def return_kind_def mk_result_def by auto

lemma model_ok_kind: "k \<noteq> SAT \<Longrightarrow> model_ok S Z al extra (return_kind k al s)"
  by (simp add: model_ok_def return_kind_def mk_result_def)

lemma call_ok_around: "call_ok S st al extra (around C call) \<longleftrightarrow> call_ok S st al extra call"
  unfolding call_ok_def around_def by (auto simp: Option.bind_eq_Some_conv)

lemma model_ok_around: "model_ok S Z al extra call \<Longrightarrow> model_ok S Z al extra (around C call)"
  unfolding model_ok_def around_def by (auto simp: Option.bind_eq_Some_conv)

lemma logged_returns: "\<exists>out. (if \<not> should_filter S al extra then log_arguments S al extra else Some []) = Some out"
  by (simp add: log_arguments_def al_assertions_elems)

lemma call_ok_logged:
  "call_ok S st al extra (call al extra) \<Longrightarrow> call_ok S st al extra (LoggingSolver_check S call inner al extra)"
  "call_ok S st al extra (call al extra) \<Longrightarrow> call_ok S st al extra (LoggingSolver_resolve S call inner al extra)"
  using logged_returns [of S al extra] unfolding call_ok_def LoggingSolver_check_def LoggingSolver_resolve_def Let_def by fastforce+

lemma model_ok_logged: "model_ok S Z al extra (call al extra) \<Longrightarrow> model_ok S Z al extra (LoggingSolver_resolve S call inner al extra)"
  unfolding model_ok_def LoggingSolver_resolve_def Let_def by (auto simp: Option.bind_eq_Some_conv)

lemma query_false:
  assumes "solver_query S st al extra" "is_constant_value S extra False" "E \<in> al_models S al"
  shows "\<not> holds S E extra"
  using assms false_literal(5) [of S E extra] by (auto simp: solver_query_def bool_expr_def al_models_def)

section \<open>Transforms that keep the models\<close>

locale sound_transform =
  fixes S :: "('i, 'f, 'z) ctx_scheme" and st :: "symbol \<Rightarrow> ty"
    and transform :: "('i, 'f) assertion_list \<Rightarrow> ('i, 'f) assertion \<Rightarrow> (solver_kind \<times> ('i, 'f) assertion_list) option"
  assumes transform_law: "solver_query S st al extra \<Longrightarrow> \<exists>al'. transform al extra = Some (Unknown, al') \<and> solver_query S st al' extra
      \<and> al_models S al \<subseteq> al_models S al' \<and> (defined_al al \<longrightarrow> al_models S al' = al_models S al \<and> defined_al al')"
begin

lemma call_ok_transformed:
  assumes "solver_query S st al extra" "\<And>al'. solver_query S st al' extra \<Longrightarrow> call_ok S st al' extra (call al' extra)"
  shows "call_ok S st al extra (TransformSolver_check transform C call inner al extra)"
    and "call_ok S st al extra (TransformSolver_resolve transform C call inner al extra)"
proof -
  obtain al' where al': "transform al extra = Some (Unknown, al')" "solver_query S st al' extra" "al_models S al \<subseteq> al_models S al'"
      "defined_al al \<longrightarrow> al_models S al' = al_models S al \<and> defined_al al'" using transform_law [OF assms(1)] by blast
  from assms(2) [OF al'(2)] obtain k m al2 s2 out where "call al' extra = Some ((k, m), al2, s2, out)" "solver_query S st al2 extra"
      "al_models S al' \<subseteq> al_models S al2" "defined_al al' \<longrightarrow> al_models S al2 = al_models S al'"
      "k = UNSAT \<longrightarrow> (\<forall>E\<in>al_models S al'. \<not> holds S E extra)"
    unfolding call_ok_def by blast
  then show "call_ok S st al extra (TransformSolver_check transform C call inner al extra)"
    "call_ok S st al extra (TransformSolver_resolve transform C call inner al extra)"
    using al'(1,3,4) unfolding call_ok_def TransformSolver_check_def TransformSolver_resolve_def around_def by auto
qed

lemma model_ok_transformed:
  assumes "solver_query S st al extra" "\<And>al'. solver_query S st al' extra \<Longrightarrow> model_ok S Z al' extra (call al' extra)"
  shows "model_ok S Z al extra (TransformSolver_resolve transform C call inner al extra)"
proof -
  obtain al' where al': "transform al extra = Some (Unknown, al')" "solver_query S st al' extra"
      "defined_al al \<longrightarrow> al_models S al' = al_models S al \<and> defined_al al'" using transform_law [OF assms(1)] by blast
  have m: "model_ok S Z al' extra (call al' extra)" by (rule assms(2) [OF al'(2)])
  have "model_ok S Z al extra (call al' extra)"
  proof (cases "defined_al al")
    case True
    then show ?thesis using al'(3) m unfolding model_ok_def by simp
  next
    case False
    then show ?thesis using m unfolding model_ok_def by blast
  qed
  then show ?thesis using al'(1) by (simp add: TransformSolver_resolve_def model_ok_around)
qed

end

lemma constant_value_bool:
  assumes "is_constant_value S a b" "is_i S 1 a"
  shows "bool_expr S ints st a \<and> all_nodes defined_node a"
proof -
  obtain t i xs where "a = Operation (ConstantIntData t i) xs"
    using assms(1) by (cases a; cases "op_data a"; auto simp: is_constant_value_def as_const_int_def split: option.splits)
  moreover from this have "xs = []" using assms(2) by (simp add: is_i_def)
  ultimately show ?thesis using assms(2) by (simp add: bool_expr_def) (simp add: scalar_node_def symbol_of_def defined_node_def)
qed

interpretation simplifying: sound_transform S st "SimplifyingSolver_transform S" for S st
proof unfold_locales
  fix al extra assume q: "solver_query S st al extra"
  then obtain E0 where "world_ok S E0" "clz_law S" "hash_consed S" "al_wf S al" "list_all (bool_expr S True st) (elems al)"
    by (auto simp: solver_query_def)
  from simplify_ok [OF this] q show "\<exists>al'. SimplifyingSolver_transform S al extra = Some (Unknown, al') \<and> solver_query S st al' extra
      \<and> al_models S al \<subseteq> al_models S al' \<and> (defined_al al \<longrightarrow> al_models S al' = al_models S al \<and> defined_al al')"
    by (auto simp: SimplifyingSolver_transform_def solver_query_def)
qed

interpretation canonicalizing: sound_transform S st "CanonicalizingSolver_transform S" for S st
proof unfold_locales
  fix al extra assume q: "solver_query S st al extra"
  then obtain E0 where W: "world_ok S E0" "hash_consed S" "al_wf S al" by (auto simp: solver_query_def)
  obtain al' where al': "canonicalize S (constant_fold S) al = Some al'" "al_wf S al'" "al_models S al' = al_models S al"
      "al' = al \<or> map (\<lambda>a. is_constant_value S a False) (elems al') = [True]"
    using canonicalize_ok [OF W] by (auto split: if_splits)
  have "list_all (bool_expr S True st) (elems al') \<and> (defined_al al \<longrightarrow> defined_al al')"
  proof (cases "al' = al")
    case False
    then obtain z where "elems al' = [z]" "is_constant_value S z False" using al'(4) by auto
    then show ?thesis using constant_value_bool [of S z False] al'(2) by (simp add: al_wf_def)
  qed (use q in \<open>simp add: solver_query_def\<close>)
  then show "\<exists>al'. CanonicalizingSolver_transform S al extra = Some (Unknown, al') \<and> solver_query S st al' extra
      \<and> al_models S al \<subseteq> al_models S al' \<and> (defined_al al \<longrightarrow> al_models S al' = al_models S al \<and> defined_al al')"
    using al'(1-3) q by (auto simp: CanonicalizingSolver_transform_def solver_query_def)
qed

section \<open>Stacks of solvers\<close>

primrec caches_ok :: "('e, 'i, 'f, 'm) surroundings \<Rightarrow> ('i, 'f) solver \<Rightarrow> bool" where
  "caches_ok W Z3Solver \<longleftrightarrow> True"
| "caches_ok W (EarlyExitSolver inner) \<longleftrightarrow> caches_ok W inner"
| "caches_ok W (InterruptSolver n inner) \<longleftrightarrow> caches_ok W inner"
| "caches_ok W (LoggingSolver inner) \<longleftrightarrow> caches_ok W inner"
| "caches_ok W (SimplifyingSolver inner) \<longleftrightarrow> caches_ok W inner"
| "caches_ok W (CanonicalizingSolver inner) \<longleftrightarrow> caches_ok W inner"
| "caches_ok W (SlicingSolver c inner) \<longleftrightarrow> (\<forall>al extra. slicer_ok (memory_of W al extra) c) \<and> caches_ok W inner"

definition surroundings_ok :: "('i, 'f, 'z) ctx_scheme \<Rightarrow> ('v assignment \<Rightarrow> 'e \<Rightarrow> 'v zval) \<Rightarrow> (symbol \<Rightarrow> ty) \<Rightarrow> ('e, 'i, 'f, 'm) surroundings \<Rightarrow> bool" where
  "surroundings_ok S ev st W \<longleftrightarrow>
     z3_solver_laws S (the_z3 W) ev \<and> nodes_alive (memory_of W) \<and> (\<forall>xs. set (set_order W xs) = set xs) \<and> z3_names (int_symbols st)"

lemma empty_cache: "memory_ok M \<Longrightarrow> slicer_ok M wm_empty"
  by (simp add: slicer_ok_def wm_wf_def wm_empty_def wm_view_def)

lemma fresh_caches: "surroundings_ok S ev st W \<Longrightarrow> caches_ok W (build with_default)"
  by (simp add: build_default surroundings_ok_def nodes_alive_def empty_cache)

lemma query_slice:
  assumes W: "surroundings_ok S ev st W" "\<forall>al extra. slicer_ok (memory_of W al extra) c" and q: "solver_query S st al extra"
  obtains c' l where "slice_list S (constant_fold S) (memory_of W al extra) (set_order W) c al extra = Some (c', l)" "solver_query S st l extra"
    "al_models S al \<subseteq> al_models S l" "slicer_ok (memory_of W al extra) c'"
proof -
  let ?M = "memory_of W al extra"
  obtain E0 where E: "world_ok S E0" "hash_consed S" "al_wf S al" "list_all (bool_expr S True st) (elems al)" using q by (auto simp: solver_query_def)
  have m: "list_all (queryable S ?M) (extra # elems al)"
    using q W(1) unfolding solver_query_def surroundings_ok_def nodes_alive_def queryable_def list_all_iff bool_expr_def by blast
  have c: "slicer_ok ?M c" "\<And>xs. set (set_order W xs) = set xs" using W by (auto simp: surroundings_ok_def)
  from slice_ok [where order = "set_order W", OF E(1-3) c(1) m c(2)] obtain c' l where l: "slice_list S (constant_fold S) ?M (set_order W) c al extra = Some (c', l)" "slicer_ok ?M c'" "al_wf S l"
    "al_models S l = {E. world_ok S E \<and> (\<forall>u\<in>set (unproven_part al). holds S E u)
        \<and> (\<forall>p\<in>set (proven_part al). (\<exists>u\<in>insert extra (set (unproven_part al)). constants_of p \<inter> constants_of u \<noteq> {}) \<longrightarrow> holds S E p)}"
    by blast
  have "al_models S al \<subseteq> al_models S l" unfolding l(4) by (auto simp: al_models_def elems_parts)
  moreover have "list_all (bool_expr S True st) (elems l)" by (rule slice_bool [OF E(3,4) l(1,3)])
  ultimately show thesis using that l(1-3) q by (simp add: solver_query_def)
qed

lemma solver_check_ok:
  assumes W: "surroundings_ok S ev st W"
  shows "caches_ok W s \<Longrightarrow> solver_query S st al extra \<Longrightarrow> call_ok S st al extra (solver_check S W s al extra)"
proof (induction s arbitrary: al)
  case Z3Solver
  then obtain E0 where E: "world_ok S E0" "hash_consed S" "al_wf S al" "list_all (bool_expr S True st) (extra # elems al)"
    unfolding solver_query_def by blast
  have "z3_solver_laws S (the_z3 W) ev" "nodes_alive (memory_of W)" "z3_names (int_symbols st)" using W by (simp_all add: surroundings_ok_def)
  from z3_check_ok [OF E(1,2) this E(3,4)] obtain k al' where
    "z3_solver_check S (the_z3 W) (memory_of W) al extra = Some ((k, None), al')" "al_wf S al'" "elems al' = elems al"
    "k = UNSAT \<longrightarrow> (\<forall>E\<in>al_models S al. \<not> holds S E extra)" by blast
  then show ?case using Z3Solver.prems(2) by (auto simp: call_ok_def solver_query_def al_models_def)
next
  case (EarlyExitSolver s)
  obtain us where us: "unproven al = Some us" using no_unproven EarlyExitSolver.prems(2) unfolding solver_query_def by blast
  then show ?case using EarlyExitSolver query_false [OF EarlyExitSolver.prems(2)] by (simp add: EarlyExitSolver_check_def call_ok_kind call_ok_around)
next
  case (InterruptSolver n s)
  then show ?case by (simp add: InterruptSolver_check_def call_ok_kind call_ok_around)
next
  case (LoggingSolver s)
  then show ?case by (simp add: call_ok_logged)
next
  case (SimplifyingSolver s)
  then show ?case by (auto intro!: simplifying.call_ok_transformed)
next
  case (CanonicalizingSolver s)
  then show ?case by (auto intro!: canonicalizing.call_ok_transformed)
next
  case (SlicingSolver c s)
  obtain c' l where l: "slice_list S (constant_fold S) (memory_of W al extra) (set_order W) c al extra = Some (c', l)" "solver_query S st l extra"
    "al_models S al \<subseteq> al_models S l" by (rule query_slice [OF W _ SlicingSolver.prems(2), of c]) (use SlicingSolver.prems(1) in auto)
  have "call_ok S st l extra (solver_check S W s l extra)" using SlicingSolver.IH [OF _ l(2)] SlicingSolver.prems(1) by simp
  then obtain k m al' s' out where r: "solver_check S W s l extra = Some ((k, m), al', s', out)" "k = UNSAT \<longrightarrow> (\<forall>E\<in>al_models S l. \<not> holds S E extra)"
    unfolding call_ok_def by blast
  have "k = UNSAT \<longrightarrow> (\<forall>E\<in>al_models S al. \<not> holds S E extra)" using r(2) l(3) by blast
  then show ?case using l(1) r(1) SlicingSolver.prems(2) by (simp add: SlicingSolver_check_def call_ok_def)
qed

lemma solver_resolve_ok:
  assumes W: "surroundings_ok S ev st W"
  shows "solver_query S st al extra \<Longrightarrow>
    call_ok S st al extra (solver_resolve S W s al extra) \<and> model_ok S (the_z3 W) al extra (solver_resolve S W s al extra)"
proof (induction s arbitrary: al)
  case Z3Solver
  then obtain E0 where E: "world_ok S E0" "list_all (bool_expr S True st) (extra # elems al)" unfolding solver_query_def by blast
  have L: "z3_solver_laws S (the_z3 W) ev" "nodes_alive (memory_of W)" "z3_names (int_symbols st)" using W by (simp_all add: surroundings_ok_def)
  note q = bool_queries [OF E L(2)]
  from z3_resolve_ok [OF E(1) L(1) q(2) L(3) q(1)] obtain r where r: "z3_resolve S (the_z3 W) (memory_of W al extra) al extra = Some r"
    "resolve_sound S (the_z3 W) al extra r" by blast
  have "call_ok S st al extra (solver_resolve S W Z3Solver al extra)"
    using r Z3Solver unfolding call_ok_def resolve_sound_def by (cases r) simp
  moreover have "model_ok S (the_z3 W) al extra (solver_resolve S W Z3Solver al extra)"
    using r unfolding model_ok_def resolve_sound_def by (cases r) simp
  ultimately show ?case by blast
next
  case (EarlyExitSolver s)
  then show ?case using query_false [OF EarlyExitSolver.prems] by (simp add: EarlyExitSolver_resolve_def call_ok_kind call_ok_around model_ok_kind model_ok_around)
next
  case (InterruptSolver n s)
  then show ?case by (simp add: InterruptSolver_resolve_def call_ok_kind call_ok_around model_ok_kind model_ok_around)
next
  case (LoggingSolver s)
  then show ?case by (simp add: call_ok_logged model_ok_logged)
next
  case (SimplifyingSolver s)
  then show ?case
    by (auto intro!: simplifying.call_ok_transformed simplifying.model_ok_transformed)
next
  case (CanonicalizingSolver s)
  then show ?case
    by (auto intro!: canonicalizing.call_ok_transformed canonicalizing.model_ok_transformed)
next
  case (SlicingSolver c s)
  then show ?case by (simp add: SlicingSolver_resolve_def call_ok_around model_ok_around)
qed

section \<open>What a stack promises\<close>


definition ref_surroundings :: "(zterm, ref_int, ref_float, unit assignment) surroundings" where
  "ref_surroundings = \<lparr>the_z3 = ref_z3_solver, memory_of = holding_args, set_order = rev, should_stop = (\<lambda>_. False)\<rparr>"

lemma ref_surroundings_ok: "surroundings_ok ref_ctx zterm_val chain_type ref_surroundings"
  using ref_z3_solver_laws holding_args_alive chain_names by (simp add: surroundings_ok_def ref_surroundings_def)




section \<open>A wrong answer of the default stack\<close>

lemma simplify_range_idle:
  "list_all (\<lambda>i. \<forall>a. al_get al i = Some a \<longrightarrow> is_equality_expr a = None) ps \<Longrightarrow> simplify_range S cf ps al added = Some (al, added)"
proof (induction ps)
  case (Cons i ps)
  then show ?case by (cases "al_get al i") simp_all
qed simp

lemma simplify_idle:
  assumes "al_wf S al" "list_all (\<lambda>a. is_equality_expr a = None) (unproven_part al)"
  shows "simplify S cf al = Some al"
proof -
  obtain us where us: "unproven al = Some us" "those (map (al_get al) us) = Some (unproven_part al)" using part_positions [OF assms(1)] by blast
  have "a \<in> set as" if "those (map f is) = Some as" "i \<in> set is" "f i = Some a" for f :: "nat \<Rightarrow> ('a, 'b) assertion option" and i "is" a as
    using that by (induction "is" arbitrary: as) (auto split: option.splits)
  then have "simplify_range S cf us al [] = Some (al, [])"
    using us(2) assms(2) by (intro simplify_range_idle) (auto simp: list_all_iff)
  moreover have "simplify_rounds S cf al [] = Some al"
    by (subst simplify_rounds.simps) (simp add: backing_size_def iterator_at_def sv_iterate_def iterate_pos.simps)
  ultimately show ?thesis using us(1) by (simp add: simplify_def)
qed

text \<open>The assertions \<open>x \<le> y\<close> and \<open>y < 1\<close>, proven satisfiable, and \<open>1 \<le> x\<close>, over bytes.\<close>

definition below_xy :: "(ref_int, ref_float) op" where
  "below_xy = byte_cmp ICmp_ULE (byte_var ''x'') (byte_var ''y'')"

definition below_y1 :: "(ref_int, ref_float) op" where
  "below_y1 = byte_cmp ICmp_ULT (byte_var ''y'') (byte_const 1)"

definition above_x1 :: "(ref_int, ref_float) op" where
  "above_x1 = byte_cmp ICmp_ULE (byte_const 1) (byte_var ''x'')"

definition below_list :: "(ref_int, ref_float) assertion_list" where
  "below_list = al_push above_x1 (mark_sat (al_push below_y1 (al_push below_xy al_empty)))"

lemmas below_defs = below_xy_def below_y1_def above_x1_def byte_cmp_def byte_var_def byte_const_def

lemma below_elems: "elems below_list = [below_xy, below_y1, above_x1]"
  and below_parts: "proven_part below_list = [below_xy, below_y1]" "unproven_part below_list = [above_x1]"
  by (simp_all add: below_list_def elems_vals al_empty_def sv_empty_def proven_part_def unproven_part_def mark_sat_def Let_def
      compress_def backing_size_def numeral_2_eq_2)

lemma below_bool: "is_i ref_ctx 1 below_xy" "is_i ref_ctx 1 below_y1" "is_i ref_ctx 1 above_x1"
proof -
  have "is_i ref_ctx 1 (byte_cmp c l r)" if "is_i ref_ctx 8 l" "is_i ref_ctx 8 r" for c l r
    using that by (simp add: is_i_def byte_cmp_def wt_operation_def op_type_def)
  then show "is_i ref_ctx 1 below_xy" "is_i ref_ctx 1 below_y1" "is_i ref_ctx 1 above_x1"
    by (simp_all add: below_xy_def below_y1_def above_x1_def bytes_i)
qed

lemma below_wf: "al_wf ref_ctx below_list"
proof -
  let ?one = "al_push below_xy (al_empty :: (ref_int, ref_float) assertion_list)" and ?two = "al_push below_y1 (al_push below_xy al_empty)"
  have push: "al_wf ref_ctx (al_push x al)" if "al_wf ref_ctx al" "x \<notin> set (elems al)" "is_i ref_ctx 1 x" for x al
    using push_ok [OF that] by (simp add: insert_ok_def)
  have mark: "al_wf ref_ctx (mark_sat al)" if "al_wf ref_ctx al" for al
    using mark_sat_fields [OF that] that by (auto simp: al_wf_def backing_size_def)
  have e: "elems (al_empty :: (ref_int, ref_float) assertion_list) = []" "elems ?one = [below_xy]" "elems (mark_sat ?two) = [below_xy, below_y1]"
    by (simp_all add: mark_sat_def Let_def compress_def backing_size_def elems_vals al_empty_def sv_empty_def)
  have new: "below_y1 \<noteq> below_xy" "above_x1 \<noteq> below_xy" "above_x1 \<noteq> below_y1" by (simp_all add: below_defs)
  have "al_wf ref_ctx ?one" by (rule push) (simp_all add: al_wf_empty e below_bool)
  then have "al_wf ref_ctx ?two" by (rule push) (simp_all add: e below_bool new)
  then have "al_wf ref_ctx (mark_sat ?two)" by (rule mark)
  then show ?thesis unfolding below_list_def by (rule push) (simp_all only: e below_bool, simp add: new)
qed

lemma below_query: "solver_query ref_ctx chain_type below_list true_assertion"
  using default_world ref_ctx_clz hash_consed_ref below_wf below_bool chain_queries
  unfolding solver_query_def by (simp add: below_elems bool_expr_def) (auto simp: below_defs scalar_node_def symbol_of_def chain_type_def)

lemma below_meaning:
  assumes "world_ok ref_ctx E"
  obtains x y where "sym_val E (Type Integer 8) (Named ''x'') = SInt 8 x" "sym_val E (Type Integer 8) (Named ''y'') = SInt 8 y"
    "holds ref_ctx E below_xy \<longleftrightarrow> x \<le> y" "holds ref_ctx E below_y1 \<longleftrightarrow> y < 1" "holds ref_ctx E above_x1 \<longleftrightarrow> 1 \<le> x"
proof -
  have "inhabited ref_ctx (Type Integer 8)" by (auto simp: inhabited_def intro: exI [of _ "SInt 8 0"])
  then have "\<exists>n. sym_val E (Type Integer 8) s = SInt 8 n" for s
    using assms has_type_int by (metis world_ok_def senv_ok_def)
  then obtain x y where v: "sym_val E (Type Integer 8) (Named ''x'') = SInt 8 x" "sym_val E (Type Integer 8) (Named ''y'') = SInt 8 y" by metis
  then show thesis by (intro that) (auto simp: holds_def below_defs binary_beh_def of_bool1_def ref_eval)
qed

lemma below_models: "al_models ref_ctx below_list = {}"
proof -
  have "\<not> (holds ref_ctx E below_xy \<and> holds ref_ctx E below_y1 \<and> holds ref_ctx E above_x1)" if "world_ok ref_ctx E" for E
    by (rule below_meaning [OF that]) auto
  then show ?thesis by (auto simp: al_models_def below_elems)
qed

lemma below_slice:
  assumes W: "surroundings_ok ref_ctx ev chain_type W"
  obtains c l where "slice_list ref_ctx (constant_fold ref_ctx) (memory_of W below_list true_assertion) (set_order W) wm_empty below_list true_assertion = Some (c, l)"
    "al_wf ref_ctx l" "list_all (bool_expr ref_ctx True chain_type) (elems l)" "al_models ref_ctx l \<noteq> {}"
proof -
  let ?M = "memory_of W below_list true_assertion"
  have q: "list_all (bool_expr ref_ctx True chain_type) (true_assertion # elems below_list)" using below_query by (simp add: solver_query_def)
  have m: "list_all (queryable ref_ctx ?M) (true_assertion # elems below_list)"
    using q W unfolding surroundings_ok_def nodes_alive_def queryable_def list_all_iff bool_expr_def by blast
  have c: "slicer_ok ?M wm_empty" "\<And>xs. set (set_order W xs) = set xs"
    using W empty_cache by (auto simp: surroundings_ok_def nodes_alive_def)
  have k: "constants_of below_xy = {Named ''x'', Named ''y''}" "constants_of below_y1 = {Named ''y''}" "constants_of above_x1 = {Named ''x''}"
    "constants_of true_assertion = {}"
    by (auto simp: below_defs true_assertion_def data_symbols_def)
  from slice_ok [where order = "set_order W", OF default_world hash_consed_ref below_wf c(1) m c(2)] obtain c' l where
    l: "slice_list ref_ctx (constant_fold ref_ctx) ?M (set_order W) wm_empty below_list true_assertion = Some (c', l)" "al_wf ref_ctx l"
      "al_models ref_ctx l = {E. world_ok ref_ctx E \<and> holds ref_ctx E above_x1 \<and> holds ref_ctx E below_xy}"
    by (simp add: below_parts k) blast
  have w: "world_ok ref_ctx (bytes_env 1)" by (simp add: bytes_world)
  have "holds ref_ctx (bytes_env 1) above_x1 \<and> holds ref_ctx (bytes_env 1) below_xy"
    by (rule below_meaning [OF w]) (simp add: bytes_env_def)
  then have "al_models ref_ctx l \<noteq> {}" using w l(3) by blast
  moreover have "list_all (bool_expr ref_ctx True chain_type) (elems l)" using slice_bool [OF below_wf _ l(1,2)] q by simp
  ultimately show thesis using that l(1,2) by blast
qed



end
