(* ===== verification/Spec2Isabelle.thy ===== *)
theory Spec2Isabelle
  imports Slot_Map Sparse_Vector Union_Find Set_Trie Shared_Array IR_Overflow Solver_Stack
begin

text \<open>Verification of the symbolic execution engine.\<close>

end
